(* ===== verification/Prelude.thy ===== *)
theory Prelude
  imports Main "HOL-Library.Multiset" "HOL-Library.Char_ord" "HOL-Library.List_Lexorder"
    "HOL-Library.Sublist"
begin

text \<open>
  The prelude of the development: the result type every fallible operation of the program
  returns, the traversals of a list that stop at the first error, the stable sort behind
  Go's sort.SliceStable and sort.Slice, and the generic lemmas the components share.

  A Go function with a result and an error is a function into \<open>'e + 'a\<close>: \<open>Inl\<close> is the error
  return, with a constructor naming the refusal and the data its message prints, and
  \<open>Inr\<close> the result. The components' own simplification rules are collected in
  \<open>result_simps\<close>.
\<close>

section \<open>Results\<close>

type_synonym ('e, 'a) result = "'e + 'a"

named_theorems result_simps

definition rbind :: "'e + 'a \<Rightarrow> ('a \<Rightarrow> 'e + 'b) \<Rightarrow> 'e + 'b" where
  "rbind r f = (case r of Inl e \<Rightarrow> Inl e | Inr x \<Rightarrow> f x)"

definition rguard :: "bool \<Rightarrow> 'e \<Rightarrow> ('e + 'b) \<Rightarrow> 'e + 'b" where
  "rguard bad e k = (if bad then Inl e else k)"

lemma rbind_simps [simp, result_simps]:
  "rbind (Inl e) f = Inl e"
  "rbind (Inr x) f = f x"
  by (simp_all add: rbind_def)

lemma rbind_eq_Inr [result_simps]: "rbind r f = Inr y \<longleftrightarrow> (\<exists>x. r = Inr x \<and> f x = Inr y)"
  by (cases r) auto

lemma rbind_eq_Inl [result_simps]:
  "rbind r f = Inl e \<longleftrightarrow> r = Inl e \<or> (\<exists>x. r = Inr x \<and> f x = Inl e)"
  by (cases r) auto

lemma rguard_simps [simp, result_simps]:
  "rguard True e k = Inl e"
  "rguard False e k = k"
  by (simp_all add: rguard_def)

lemma rguard_eq_Inr [result_simps]: "rguard b e k = Inr y \<longleftrightarrow> \<not> b \<and> k = Inr y"
  by (simp add: rguard_def)

lemma rguard_eq_Inl [result_simps]: "rguard b e k = Inl d \<longleftrightarrow> (b \<and> e = d) \<or> (\<not> b \<and> k = Inl d)"
  by (auto simp: rguard_def)

definition with_error :: "('e \<Rightarrow> 'd) \<Rightarrow> ('e, 'a) result \<Rightarrow> ('d, 'a) result" where
  "with_error f r = (case r of Inl e \<Rightarrow> Inl (f e) | Inr x \<Rightarrow> Inr x)"

lemma with_error_Inr [simp, result_simps]: "with_error f r = Inr x \<longleftrightarrow> r = Inr x"
  by (cases r) (simp_all add: with_error_def)

lemma with_error_Inl [result_simps]: "with_error f r = Inl d \<longleftrightarrow> (\<exists>e. r = Inl e \<and> d = f e)"
  by (cases r) (auto simp: with_error_def)

lemma rbind_cong [fundef_cong]:
  "r = r' \<Longrightarrow> (\<And>x. r' = Inr x \<Longrightarrow> f x = g x) \<Longrightarrow> rbind r f = rbind r' g"
  by (cases r') auto

text \<open>A loop that fills a slice and returns at the first error.\<close>

fun rmap :: "('a \<Rightarrow> 'e + 'b) \<Rightarrow> 'a list \<Rightarrow> 'e + 'b list" where
  "rmap f [] = Inr []"
| "rmap f (x # xs) = rbind (f x) (\<lambda>y. rbind (rmap f xs) (\<lambda>ys. Inr (y # ys)))"

text \<open>A loop that threads a state and returns at the first error.\<close>

fun rfold :: "('s \<Rightarrow> 'a \<Rightarrow> 'e + 's) \<Rightarrow> 's \<Rightarrow> 'a list \<Rightarrow> 'e + 's" where
  "rfold f s [] = Inr s"
| "rfold f s (x # xs) = rbind (f s x) (\<lambda>s'. rfold f s' xs)"

lemma rmap_cong [fundef_cong]:
  "xs = ys \<Longrightarrow> (\<And>x. x \<in> set ys \<Longrightarrow> f x = g x) \<Longrightarrow> rmap f xs = rmap g ys"
  by (induction ys arbitrary: xs) auto

lemma rmap_Inr_iff: "rmap f xs = Inr ys \<longleftrightarrow> list_all2 (\<lambda>x y. f x = Inr y) xs ys"
proof (induction xs arbitrary: ys)
  case Nil
  then show ?case by auto
next
  case (Cons x xs)
  then show ?case by (cases ys) (auto simp: rbind_eq_Inr)
qed

lemma rmap_all_Inr: "(\<And>x. x \<in> set xs \<Longrightarrow> f x = Inr (g x)) \<Longrightarrow> rmap f xs = Inr (map g xs)"
  by (induction xs) auto

lemma rmap_Inl_ex: "rmap f xs = Inl e \<Longrightarrow> \<exists>x \<in> set xs. f x = Inl e"
  by (induction xs) (auto simp: rbind_eq_Inl)

text \<open>An invariant of a state-threading loop holds of its result.\<close>

lemma rfold_invariant:
  assumes "rfold f s xs = Inr t" and "P s"
    and "\<And>s x s'. P s \<Longrightarrow> x \<in> set xs \<Longrightarrow> f s x = Inr s' \<Longrightarrow> P s'"
  shows "P t"
  using assms
proof (induction xs arbitrary: s)
  case Nil
  then show ?case by simp
next
  case (Cons x xs)
  from Cons.prems(1) obtain s' where "f s x = Inr s'" "rfold f s' xs = Inr t"
    by (auto simp: rbind_eq_Inr)
  show ?case
  proof (rule Cons.IH [of s'])
    show "rfold f s' xs = Inr t" by fact
    show "P s'" 
      by (rule Cons.prems(3) [OF Cons.prems(2) list.set_intros(1)]) fact
    show "P b'" if "P b" "y \<in> set xs" "f b y = Inr b'" for b y b'
      by (rule Cons.prems(3) [OF that(1) list.set_intros(2) that(3)]) fact
  qed
qed

section \<open>Actions\<close>

text \<open>
  A function with effects is an action: it takes the state of the world and returns its
  result, an error or a value, with the state it leaves, which an error does not undo.
\<close>

type_synonym ('s, 'e, 'a) act = "'s \<Rightarrow> ('e + 'a) \<times> 's"

definition aret :: "'a \<Rightarrow> ('s, 'e, 'a) act" where
  "aret x s = (Inr x, s)"

definition afail :: "'e \<Rightarrow> ('s, 'e, 'a) act" where
  "afail e s = (Inl e, s)"

definition abind :: "('s, 'e, 'a) act \<Rightarrow> ('a \<Rightarrow> ('s, 'e, 'b) act) \<Rightarrow> ('s, 'e, 'b) act" where
  "abind m f s = (case m s of (Inl e, t) \<Rightarrow> (Inl e, t) | (Inr x, t) \<Rightarrow> f x t)"

definition aguard :: "bool \<Rightarrow> 'e \<Rightarrow> ('s, 'e, 'a) act \<Rightarrow> ('s, 'e, 'a) act" where
  "aguard bad e m = (if bad then afail e else m)"

definition aread :: "('s \<Rightarrow> 'e + 'a) \<Rightarrow> ('s, 'e, 'a) act" where
  "aread f s = (f s, s)"

definition awrap :: "('e \<Rightarrow> 'd) \<Rightarrow> ('s, 'e, 'a) act \<Rightarrow> ('s, 'd, 'a) act" where
  "awrap w m s = (case m s of (Inl e, t) \<Rightarrow> (Inl (w e), t) | (Inr x, t) \<Rightarrow> (Inr x, t))"

text \<open>A loop over a list, left at the first error.\<close>

fun aeach :: "('a \<Rightarrow> ('s, 'e, unit) act) \<Rightarrow> 'a list \<Rightarrow> ('s, 'e, unit) act" where
  "aeach f [] = aret ()"
| "aeach f (x # xs) = abind (f x) (\<lambda>_. aeach f xs)"

fun afold :: "('r \<Rightarrow> 'a \<Rightarrow> ('s, 'e, 'r) act) \<Rightarrow> 'r \<Rightarrow> 'a list \<Rightarrow> ('s, 'e, 'r) act" where
  "afold f r [] = aret r"
| "afold f r (x # xs) = abind (f r x) (\<lambda>r. afold f r xs)"

lemma act_simps [simp]:
  "aret x s = (Inr x, s)"
  "afail e s = (Inl e, s)"
  "aread f s = (f s, s)"
  "aguard True e m = afail e"
  "aguard False e m = m"
  by (simp_all add: aret_def afail_def aread_def aguard_def)

lemma abind_Inr: "abind m f s = (Inr y, u) \<longleftrightarrow> (\<exists>x t. m s = (Inr x, t) \<and> f x t = (Inr y, u))"
  by (auto simp: abind_def split: prod.splits sum.splits)

lemma abind_Inl:
  "abind m f s = (Inl e, u) \<longleftrightarrow> m s = (Inl e, u) \<or> (\<exists>x t. m s = (Inr x, t) \<and> f x t = (Inl e, u))"
  by (auto simp: abind_def split: prod.splits sum.splits)

lemma aguard_Inr: "aguard b e m s = (Inr y, u) \<longleftrightarrow> \<not> b \<and> m s = (Inr y, u)"
  by (cases b) auto

lemma awrap_Inr: "awrap w m s = (Inr y, u) \<longleftrightarrow> m s = (Inr y, u)"
  by (auto simp: awrap_def split: prod.splits sum.splits)

lemmas act_Inr = abind_Inr aguard_Inr awrap_Inr

text \<open>
  What an action does to the state whatever its outcome: a relation between the state before
  and the state after, closed under sequence when it is reflexive and transitive.
\<close>

definition acts :: "('s \<Rightarrow> 's \<Rightarrow> bool) \<Rightarrow> ('s, 'e, 'a) act \<Rightarrow> bool" where
  "acts R m \<longleftrightarrow> (\<forall>s. R s (snd (m s)))"

named_theorems acts_intros

lemma acts_aret [acts_intros]: "reflp R \<Longrightarrow> acts R (aret x)"
  by (simp add: acts_def reflp_def)

lemma acts_afail [acts_intros]: "reflp R \<Longrightarrow> acts R (afail e)"
  by (simp add: acts_def reflp_def)

lemma acts_aread [acts_intros]: "reflp R \<Longrightarrow> acts R (aread f)"
  by (simp add: acts_def reflp_def)

lemma acts_abind:
  assumes "transp R" and m: "acts R m" and f: "\<And>x. acts R (f x)"
  shows "acts R (abind m f)"
  unfolding acts_def
proof
  fix s
  from m have "R s (snd (m s))" by (simp add: acts_def)
  moreover have "R t (snd (f x t))" for x t using f by (simp add: acts_def)
  ultimately show "R s (snd (abind m f s))"
    using \<open>transp R\<close> by (auto simp: abind_def transp_def split: prod.splits sum.splits)
qed

lemma acts_aguard: "reflp R \<Longrightarrow> acts R m \<Longrightarrow> acts R (aguard b e m)"
  by (cases b) (simp_all add: acts_afail)

lemma acts_awrap: "acts R m \<Longrightarrow> acts R (awrap w m)"
  unfolding acts_def awrap_def
  by (metis (no_types, lifting) case_prod_conv prod.exhaust_sel snd_conv sum.case_eq_if)

lemma acts_aeach:
  "reflp R \<Longrightarrow> transp R \<Longrightarrow> (\<And>x. x \<in> set xs \<Longrightarrow> acts R (f x)) \<Longrightarrow> acts R (aeach f xs)"
  by (induction xs) (auto intro: acts_aret acts_abind)

lemma acts_afold:
  "reflp R \<Longrightarrow> transp R \<Longrightarrow> (\<And>r x. x \<in> set xs \<Longrightarrow> acts R (f r x)) \<Longrightarrow> acts R (afold f r xs)"
  by (induction xs arbitrary: r) (auto intro: acts_aret acts_abind)

lemma actsD: "acts R m \<Longrightarrow> m s = (r, t) \<Longrightarrow> R s t"
  unfolding acts_def by (metis snd_conv)

section \<open>The stable sort by a comparison\<close>

text \<open>
  sort.SliceStable orders a slice by a "less" function and keeps the order of elements
  neither of which is lt. The model inserts from the right, each element before the ones
  it is not above.
\<close>

fun insort_by :: "('a \<Rightarrow> 'a \<Rightarrow> bool) \<Rightarrow> 'a \<Rightarrow> 'a list \<Rightarrow> 'a list" where
  "insort_by lt x [] = [x]"
| "insort_by lt x (y # ys) = (if lt y x then y # insort_by lt x ys else x # y # ys)"

definition sort_by :: "('a \<Rightarrow> 'a \<Rightarrow> bool) \<Rightarrow> 'a list \<Rightarrow> 'a list" where
  "sort_by lt xs = foldr (insort_by lt) xs []"

lemma sort_by_simps [simp]:
  "sort_by lt [] = []"
  "sort_by lt (x # xs) = insort_by lt x (sort_by lt xs)"
  by (simp_all add: sort_by_def)

lemma mset_insort_by [simp]: "mset (insort_by lt x xs) = add_mset x (mset xs)"
  by (induction xs) auto

lemma mset_sort_by [simp]: "mset (sort_by lt xs) = mset xs"
  by (induction xs) auto

lemma set_insort_by [simp]: "set (insort_by lt x xs) = insert x (set xs)"
  by (induction xs) auto

lemma set_sort_by [simp]: "set (sort_by lt xs) = set xs"
  by (induction xs) auto

lemma length_insort_by [simp]: "length (insort_by lt x xs) = Suc (length xs)"
  by (induction xs) auto

lemma length_sort_by [simp]: "length (sort_by lt xs) = length xs"
  by (induction xs) auto

lemma distinct_insort_by [simp]:
  "distinct (insort_by lt x xs) \<longleftrightarrow> x \<notin> set xs \<and> distinct xs"
  by (induction xs) auto

lemma distinct_sort_by [simp]: "distinct (sort_by lt xs) \<longleftrightarrow> distinct xs"
  by (induction xs) auto

lemma sorted_insort_by:
  assumes asym: "\<And>a b. lt a b \<Longrightarrow> \<not> lt b a"
    and trans: "\<And>a b c. \<not> lt b a \<Longrightarrow> \<not> lt c b \<Longrightarrow> \<not> lt c a"
    and srt: "sorted_wrt (\<lambda>a b. \<not> lt b a) xs"
  shows "sorted_wrt (\<lambda>a b. \<not> lt b a) (insort_by lt x xs)"
  using srt
proof (induction xs)
  case Nil
  then show ?case by simp
next
  case (Cons y ys)
  show ?case
  proof (cases "lt y x")
    case True
    with Cons show ?thesis by (auto dest: asym)
  next
    case False
    have "\<not> lt z x" if "z \<in> set ys" for z
      using trans [of y x z] False Cons.prems that by auto
    with False Cons.prems show ?thesis by auto
  qed
qed

lemma sorted_sort_by:
  assumes "\<And>a b. lt a b \<Longrightarrow> \<not> lt b a"
    and "\<And>a b c. \<not> lt b a \<Longrightarrow> \<not> lt c b \<Longrightarrow> \<not> lt c a"
  shows "sorted_wrt (\<lambda>a b. \<not> lt b a) (sort_by lt xs)"
proof (induction xs)
  case (Cons x xs)
  then show ?case
    using sorted_insort_by [where lt = lt, OF assms(1) assms(2)] by simp
qed simp

lemma sort_by_less_eq_sort: "sort_by (<) xs = sort (xs :: 'a :: linorder list)"
proof -
  have "insort_by (<) x ys = insort x ys" for x :: 'a and ys
    by (induction ys) auto
  then show ?thesis
    by (induction xs) auto
qed

lemma sort_by_key_eq: "sort_by (\<lambda>a b. f a < (f b :: 'k :: linorder)) xs = sort_key f xs"
proof -
  have "insort_by (\<lambda>a b. f a < f b) x ys = insort_key f x ys" for x ys
    by (induction ys) auto
  then show ?thesis
    by (induction xs) auto
qed

text \<open>The keys of a Go map as sortedKeys lists them: sorted, each once.\<close>

definition sorted_set :: "'a :: linorder list \<Rightarrow> 'a list" where
  "sorted_set xs = sort (remdups xs)"

lemma set_sorted_set [simp]: "set (sorted_set xs) = set xs"
  by (simp add: sorted_set_def)

lemma distinct_sorted_set [simp]: "distinct (sorted_set xs)"
  by (simp add: sorted_set_def)

lemma sorted_sorted_set [simp]: "sorted (sorted_set xs)"
  by (simp add: sorted_set_def)

lemma sorted_set_eqI: "set xs = set ys \<Longrightarrow> sorted_set xs = sorted_set ys"
  by (rule sorted_distinct_set_unique) simp_all

lemma sorted_set_Nil_iff [simp]: "sorted_set xs = [] \<longleftrightarrow> xs = []"
  by (metis set_empty set_sorted_set)

section \<open>Lists\<close>

text \<open>The first element a predicate accepts, as a range loop with an early return finds it.\<close>

lemma find_SomeD: "List.find P xs = Some x \<Longrightarrow> x \<in> set xs \<and> P x"
  by (induction xs) (auto split: if_splits)

lemma find_None_iff_ball: "List.find P xs = None \<longleftrightarrow> (\<forall>x \<in> set xs. \<not> P x)"
  by (induction xs) auto

lemma sorted_wrt_hd_max: "sorted_wrt R (x # xs) \<Longrightarrow> y \<in> set xs \<Longrightarrow> R x y"
  by simp

end
