(* ===== verification/Go_Strings.thy ===== *)
theory Go_Strings
  imports Prelude
begin

text \<open>
  The functions of Go's strings and strconv packages the program uses, on byte strings:
  HasPrefix, HasSuffix, CutPrefix, CutSuffix, Index, LastIndex, Count, Cut, Replace(All), Split, Join,
  TrimSpace, and the decimal printing and reading of an unsigned integer. A Go string is a
  sequence of bytes and so is a HOL \<open>string\<close>. The names follow the Go functions.
\<close>

section \<open>Prefixes and suffixes\<close>

definition has_prefix :: "string \<Rightarrow> string \<Rightarrow> bool" where
  "has_prefix s p \<longleftrightarrow> take (length p) s = p"

definition has_suffix :: "string \<Rightarrow> string \<Rightarrow> bool" where
  "has_suffix s p \<longleftrightarrow> length p \<le> length s \<and> drop (length s - length p) s = p"

definition cut_prefix :: "string \<Rightarrow> string \<Rightarrow> string option" where
  "cut_prefix s p = (if has_prefix s p then Some (drop (length p) s) else None)"

definition cut_suffix :: "string \<Rightarrow> string \<Rightarrow> string option" where
  "cut_suffix s p = (if has_suffix s p then Some (take (length s - length p) s) else None)"

definition trim_prefix :: "string \<Rightarrow> string \<Rightarrow> string" where
  "trim_prefix s p = (if has_prefix s p then drop (length p) s else s)"

definition trim_suffix :: "string \<Rightarrow> string \<Rightarrow> string" where
  "trim_suffix s p = (if has_suffix s p then take (length s - length p) s else s)"

lemma has_prefix_iff: "has_prefix s p \<longleftrightarrow> (\<exists>t. s = p @ t)"
  unfolding has_prefix_def by (metis append_eq_conv_conj append_take_drop_id)

lemma has_suffix_iff: "has_suffix s p \<longleftrightarrow> (\<exists>t. s = t @ p)"
proof
  assume "has_suffix s p"
  then have "s = take (length s - length p) s @ p"
    by (metis has_suffix_def append_take_drop_id)
  then show "\<exists>t. s = t @ p" by blast
next
  assume "\<exists>t. s = t @ p"
  then show "has_suffix s p" by (auto simp: has_suffix_def)
qed

lemma has_prefix_append [simp]: "has_prefix (p @ t) p"
  by (simp add: has_prefix_def)

lemma has_prefix_Nil [simp]: "has_prefix s []"
  by (simp add: has_prefix_def)

lemma has_prefix_refl [simp]: "has_prefix s s"
  by (simp add: has_prefix_def)

lemma has_suffix_append [simp]: "has_suffix (t @ p) p"
  by (simp add: has_suffix_def)

lemma has_prefix_Cons [simp]: "has_prefix (c # cs) (d # ds) \<longleftrightarrow> c = d \<and> has_prefix cs ds"
  by (auto simp: has_prefix_def)

lemma has_prefix_Nil_Cons [simp]: "\<not> has_prefix [] (d # ds)"
  by (simp add: has_prefix_def)

lemma has_prefix_appendD: "has_prefix s (p @ q) \<Longrightarrow> has_prefix s p"
  by (auto simp: has_prefix_iff)

lemma has_prefix_length: "has_prefix s p \<Longrightarrow> length p \<le> length s"
  by (auto simp: has_prefix_iff)

lemma has_prefix_comparable:
  "has_prefix s p \<Longrightarrow> has_prefix s q \<Longrightarrow> length p \<le> length q \<Longrightarrow> has_prefix q p"
  by (metis has_prefix_def min.absorb1 take_take)

lemma cut_prefix_append [simp]: "cut_prefix (p @ t) p = Some t"
  by (simp add: cut_prefix_def)

lemma cut_prefix_Some_iff: "cut_prefix s p = Some t \<longleftrightarrow> s = p @ t"
  by (auto simp: cut_prefix_def has_prefix_iff)

lemma cut_suffix_append [simp]: "cut_suffix (t @ p) p = Some t"
  by (simp add: cut_suffix_def)

lemma cut_suffix_Some_iff: "cut_suffix s p = Some t \<longleftrightarrow> s = t @ p"
  by (auto simp: cut_suffix_def has_suffix_iff)

section \<open>Searching and cutting\<close>

fun str_index :: "string \<Rightarrow> string \<Rightarrow> nat option" where
  "str_index [] sub = (if sub = [] then Some 0 else None)"
| "str_index (c # cs) sub =
     (if has_prefix (c # cs) sub then Some 0 else map_option Suc (str_index cs sub))"

fun str_last_index :: "string \<Rightarrow> string \<Rightarrow> nat option" where
  "str_last_index [] sub = (if sub = [] then Some 0 else None)"
| "str_last_index (c # cs) sub =
     (case str_last_index cs sub of
        Some i \<Rightarrow> Some (Suc i)
      | None \<Rightarrow> if has_prefix (c # cs) sub then Some 0 else None)"

lemma str_index_SomeD:
  "str_index s sub = Some i \<Longrightarrow> \<exists>t. s = take i s @ sub @ t \<and> i + length sub \<le> length s"
proof (induction s arbitrary: i)
  case Nil
  then show ?case by (auto split: if_splits)
next
  case (Cons c cs)
  show ?case
  proof (cases "has_prefix (c # cs) sub")
    case True
    with Cons.prems have "i = 0" by simp
    with has_prefix_length [OF True] True show ?thesis by (auto simp: has_prefix_iff)
  next
    case False
    with Cons.prems obtain j where j: "str_index cs sub = Some j" "i = Suc j" by auto
    with Cons.IH [of j] obtain t where "cs = take j cs @ sub @ t" "j + length sub \<le> length cs" by auto
    with j show ?thesis by auto
  qed
qed

lemma str_index_NoneD: "str_index s sub = None \<Longrightarrow> s \<noteq> a @ sub @ b"
proof (induction s arbitrary: a)
  case Nil
  then show ?case by (auto split: if_splits)
next
  case (Cons c cs)
  show ?case
  proof
    assume eq: "c # cs = a @ sub @ b"
    from Cons.prems have np: "\<not> has_prefix (c # cs) sub" and no: "str_index cs sub = None"
      by (auto split: if_splits)
    show False
    proof (cases a)
      case Nil
      with eq np show False by (auto simp: has_prefix_iff)
    next
      case (Cons d ds)
      with eq have "cs = ds @ sub @ b" by simp
      with Cons.IH no show False by blast
    qed
  qed
qed

definition str_contains :: "string \<Rightarrow> string \<Rightarrow> bool" where
  "str_contains s sub \<longleftrightarrow> str_index s sub \<noteq> None"

text \<open>strings.ContainsAny, and strings.IndexAny with its byte position.\<close>

definition contains_any :: "string \<Rightarrow> string \<Rightarrow> bool" where
  "contains_any s chars \<longleftrightarrow> (\<exists>c \<in> set s. c \<in> set chars)"

fun index_any :: "string \<Rightarrow> string \<Rightarrow> nat option" where
  "index_any [] chars = None"
| "index_any (c # cs) chars = (if c \<in> set chars then Some 0 else map_option Suc (index_any cs chars))"

lemma index_any_None_iff: "index_any s chars = None \<longleftrightarrow> \<not> contains_any s chars"
  by (induction s) (auto simp: contains_any_def)

lemma index_any_SomeD: "index_any s chars = Some i \<Longrightarrow> i < length s \<and> s ! i \<in> set chars"
  by (induction s arbitrary: i) (auto split: if_splits)

text \<open>strings.Cut: the text before and after the first separator, and whether there is one.\<close>

definition str_cut :: "string \<Rightarrow> string \<Rightarrow> string \<times> string \<times> bool" where
  "str_cut s sep = (case str_index s sep of
      None \<Rightarrow> (s, [], False)
    | Some i \<Rightarrow> (take i s, drop (i + length sep) s, True))"

lemma str_cut_True: "str_cut s sep = (a, b, True) \<Longrightarrow> s = a @ sep @ b"
  by (auto simp: str_cut_def split: option.splits dest!: str_index_SomeD)
    (metis append_eq_conv_conj append_take_drop_id drop_drop length_take min.absorb2
      add.commute add_leD1)

text \<open>strings.Count, of a separator that is not empty.\<close>

function str_count :: "string \<Rightarrow> string \<Rightarrow> nat" where
  "str_count s sub =
     (if sub = [] then Suc (length s)
      else (case str_index s sub of
              None \<Rightarrow> 0
            | Some i \<Rightarrow> Suc (str_count (drop (i + length sub) s) sub)))"
  by pat_completeness auto
termination
proof (relation "measure (\<lambda>(s, sub). length s)", goal_cases)
  case 1
  then show ?case by simp
next
  case (2 s d i)
  then show ?case using str_index_SomeD [of s d i] by (cases d) auto
qed

declare str_count.simps [simp del]

text \<open>strings.ReplaceAll and strings.Replace with a limit of one, of a text that is not empty.\<close>

function str_replace_all :: "string \<Rightarrow> string \<Rightarrow> string \<Rightarrow> string" where
  "str_replace_all s old new =
     (if old = [] then s
      else (case str_index s old of
              None \<Rightarrow> s
            | Some i \<Rightarrow> take i s @ new @ str_replace_all (drop (i + length old) s) old new))"
  by pat_completeness auto
termination
proof (relation "measure (\<lambda>(s, old, new). length s)", goal_cases)
  case 1
  then show ?case by simp
next
  case (2 s d n i)
  then show ?case using str_index_SomeD [of s d i] by (cases d) auto
qed

declare str_replace_all.simps [simp del]

definition str_replace_once :: "string \<Rightarrow> string \<Rightarrow> string \<Rightarrow> string" where
  "str_replace_once s old new = (case str_index s old of
      None \<Rightarrow> s
    | Some i \<Rightarrow> take i s @ new @ drop (i + length old) s)"

section \<open>Splitting and joining\<close>

fun split_on :: "char \<Rightarrow> string \<Rightarrow> string list" where
  "split_on c [] = [[]]"
| "split_on c (x # xs) =
     (if x = c then [] # split_on c xs
      else (case split_on c xs of [] \<Rightarrow> [[x]] | w # ws \<Rightarrow> (x # w) # ws))"

fun join :: "string \<Rightarrow> string list \<Rightarrow> string" where
  "join sep [] = []"
| "join sep [w] = w"
| "join sep (w # v # ws) = w @ sep @ join sep (v # ws)"

lemma split_on_not_Nil [simp]: "split_on c s \<noteq> []"
  by (cases s) (auto split: list.splits)

lemma join_split_on: "join [c] (split_on c s) = s"
proof (induction s)
  case Nil
  then show ?case by simp
next
  case (Cons x xs)
  obtain w ws where w: "split_on c xs = w # ws" by (meson neq_Nil_conv split_on_not_Nil)
  with Cons show ?case by (cases ws) auto
qed

lemma split_on_no_sep: "c \<notin> set w \<Longrightarrow> split_on c w = [w]"
  by (induction w) auto

lemma split_on_append_sep: "c \<notin> set w \<Longrightarrow> split_on c (w @ c # s) = w # split_on c s"
  by (induction w) auto

lemma split_on_join:
  "ws \<noteq> [] \<Longrightarrow> (\<And>w. w \<in> set ws \<Longrightarrow> c \<notin> set w) \<Longrightarrow> split_on c (join [c] ws) = ws"
  by (induction "[c]" ws rule: join.induct) (auto simp: split_on_no_sep split_on_append_sep)

lemma split_on_pieces: "w \<in> set (split_on c s) \<Longrightarrow> c \<notin> set w"
  by (induction s arbitrary: w) (auto split: if_splits list.splits)

section \<open>White space\<close>

text \<open>
  unicode.IsSpace and unicode.IsControl on the runes of a UTF-8 text. A rune of either class is
  found by its encoding: the first byte of an encoding is no continuation byte, so the decoder of
  a range loop always meets it at a rune boundary, and an encoding in the text is that rune.
\<close>

definition space_encodings :: "string list" where
  "space_encodings =
     [[CHR 0x09], [CHR 0x0A], [CHR 0x0B],
      [CHR 0x0C], [CHR 0x0D], [CHR 0x20],
      [CHR 0xC2, CHR 0x85], [CHR 0xC2, CHR 0xA0], [CHR 0xE1, CHR 0x9A, CHR 0x80],
      [CHR 0xE2, CHR 0x80, CHR 0x80], [CHR 0xE2, CHR 0x80, CHR 0x81], [CHR 0xE2, CHR 0x80, CHR 0x82],
      [CHR 0xE2, CHR 0x80, CHR 0x83], [CHR 0xE2, CHR 0x80, CHR 0x84], [CHR 0xE2, CHR 0x80, CHR 0x85],
      [CHR 0xE2, CHR 0x80, CHR 0x86], [CHR 0xE2, CHR 0x80, CHR 0x87], [CHR 0xE2, CHR 0x80, CHR 0x88],
      [CHR 0xE2, CHR 0x80, CHR 0x89], [CHR 0xE2, CHR 0x80, CHR 0x8A], [CHR 0xE2, CHR 0x80, CHR 0xA8],
      [CHR 0xE2, CHR 0x80, CHR 0xA9], [CHR 0xE2, CHR 0x80, CHR 0xAF], [CHR 0xE2, CHR 0x81, CHR 0x9F],
      [CHR 0xE3, CHR 0x80, CHR 0x80]]"

fun has_control :: "string \<Rightarrow> bool" where
  "has_control [] = False"
| "has_control (c # cs) =
     ((of_char c :: nat) < 32 \<or> (of_char c :: nat) = 127 \<or>
      (c = CHR 0xC2 \<and> cs \<noteq> [] \<and> 128 \<le> (of_char (hd cs) :: nat) \<and> (of_char (hd cs) :: nat) < 160) \<or>
      has_control cs)"

definition has_space :: "string \<Rightarrow> bool" where
  "has_space s \<longleftrightarrow> (\<exists>e \<in> set space_encodings. str_contains s e)"

text \<open>Stripping a set of encodings from the left, the loop of strings.TrimLeftFunc.\<close>

function strip_left :: "string list \<Rightarrow> string \<Rightarrow> string" where
  "strip_left encs s =
     (case List.find (\<lambda>e. e \<noteq> [] \<and> has_prefix s e) encs of
        None \<Rightarrow> s
      | Some e \<Rightarrow> strip_left encs (drop (length e) s))"
  by pat_completeness auto
termination
proof (relation "measure (\<lambda>(encs, s). length s)", goal_cases)
  case (2 encs s e)
  then show ?case by (cases e; cases s) (auto dest: find_SomeD)
qed simp

declare strip_left.simps [simp del]

definition trim_space :: "string \<Rightarrow> string" where
  "trim_space s =
     rev (strip_left (map rev space_encodings) (rev (strip_left space_encodings s)))"

definition trim_right_char :: "char \<Rightarrow> string \<Rightarrow> string" where
  "trim_right_char c s = rev (dropWhile (\<lambda>x. x = c) (rev s))"

lemma strip_left_done:
  "(\<And>e. e \<in> set encs \<Longrightarrow> e \<noteq> [] \<Longrightarrow> \<not> has_prefix s e) \<Longrightarrow> strip_left encs s = s"
  by (subst strip_left.simps) (auto split: option.splits dest: find_SomeD)

lemma strip_left_stops:
  "e \<in> set encs \<Longrightarrow> e \<noteq> [] \<Longrightarrow> \<not> has_prefix (strip_left encs s) e"
proof (induction encs s rule: strip_left.induct)
  case (1 encs s)
  show ?case
  proof (cases "List.find (\<lambda>e. e \<noteq> [] \<and> has_prefix s e) encs")
    case None
    then have "strip_left encs s = s" by (simp add: strip_left.simps [of encs s])
    moreover from None 1 have "\<not> has_prefix s e" by (auto simp: find_None_iff_ball)
    ultimately show ?thesis by simp
  next
    case (Some f)
    with 1 show ?thesis by (simp add: strip_left.simps [of encs s])
  qed
qed

lemma strip_left_suffix: "\<exists>t. s = t @ strip_left encs s"
proof (induction encs s rule: strip_left.induct)
  case (1 encs s)
  show ?case
  proof (cases "List.find (\<lambda>e. e \<noteq> [] \<and> has_prefix s e) encs")
    case None
    then show ?thesis by (simp add: strip_left.simps [of encs s])
  next
    case (Some f)
    then obtain u where u: "drop (length f) s = u @ strip_left encs (drop (length f) s)"
      using 1 by blast
    have "s = take (length f) s @ drop (length f) s" by simp
    then have "s = (take (length f) s @ u) @ strip_left encs (drop (length f) s)"
      using u by (metis append.assoc)
    moreover from Some have "strip_left encs s = strip_left encs (drop (length f) s)"
      by (simp add: strip_left.simps [of encs s])
    ultimately show ?thesis by metis
  qed
qed

lemma has_prefix_rev: "has_prefix (rev s) (rev e) \<longleftrightarrow> has_suffix s e"
  by (auto simp: has_prefix_iff has_suffix_iff) (metis rev_append rev_rev_ident)+

lemma space_encodings_not_Nil: "e \<in> set space_encodings \<Longrightarrow> e \<noteq> []"
  by (auto simp: space_encodings_def)

lemma trim_space_no_suffix:
  assumes "e \<in> set space_encodings"
  shows "\<not> has_suffix (trim_space s) e"
proof -
  have "\<not> has_prefix (rev (trim_space s)) (rev e)"
    unfolding trim_space_def rev_rev_ident
    by (rule strip_left_stops) (use assms space_encodings_not_Nil in auto)
  then show ?thesis by (simp add: has_prefix_rev)
qed

lemma trim_space_no_prefix:
  assumes "e \<in> set space_encodings"
  shows "\<not> has_prefix (trim_space s) e"
proof
  assume p: "has_prefix (trim_space s) e"
  let ?l = "strip_left space_encodings s"
  obtain t where "rev ?l = t @ rev (trim_space s)"
    using strip_left_suffix [of "rev ?l" "map rev space_encodings"]
    by (auto simp: trim_space_def)
  then have "?l = trim_space s @ rev t"
    by (metis rev_append rev_rev_ident)
  with p have "has_prefix ?l e"
    by (auto simp: has_prefix_iff)
  moreover have "\<not> has_prefix ?l e"
    by (rule strip_left_stops) (use assms space_encodings_not_Nil in auto)
  ultimately show False by blast
qed

lemma trim_space_fixed:
  assumes "\<And>e. e \<in> set space_encodings \<Longrightarrow> \<not> has_prefix s e \<and> \<not> has_suffix s e"
  shows "trim_space s = s"
proof -
  have "strip_left space_encodings s = s"
    by (rule strip_left_done) (use assms in auto)
  moreover have "strip_left (map rev space_encodings) (rev s) = rev s"
    by (rule strip_left_done) (use assms has_prefix_rev in auto)
  ultimately show ?thesis by (simp add: trim_space_def)
qed

lemma trim_space_idem [simp]: "trim_space (trim_space s) = trim_space s"
  by (rule trim_space_fixed) (simp add: trim_space_no_prefix trim_space_no_suffix)

text \<open>A text between printable ASCII characters keeps to itself, and a line end after it is trimmed.\<close>

definition graph_char :: "char \<Rightarrow> bool" where
  "graph_char c \<longleftrightarrow> 32 < (of_char c :: nat) \<and> (of_char c :: nat) < 127"

lemma space_encoding_ends:
  assumes "e \<in> set space_encodings"
  shows "\<not> graph_char (hd e)" "\<not> graph_char (last e)" "hd (rev e) = CHR 0x0A \<Longrightarrow> e = [CHR 0x0A]"
  using assms by (auto simp: space_encodings_def graph_char_def)

lemma graph_no_space:
  assumes "s \<noteq> []" "graph_char (hd s)" "graph_char (last s)" "e \<in> set space_encodings"
  shows "\<not> has_prefix (s @ t) e" "\<not> has_suffix s e"
proof -
  note e = space_encodings_not_Nil [OF assms(4)] space_encoding_ends [OF assms(4)]
  show "\<not> has_prefix (s @ t) e"
    using assms(1,2) e by (cases s; cases e) auto
  show "\<not> has_suffix s e"
    using assms(1,3) e by (auto simp: has_suffix_iff)
qed

lemma trim_space_graph: "s \<noteq> [] \<Longrightarrow> graph_char (hd s) \<Longrightarrow> graph_char (last s) \<Longrightarrow> trim_space s = s"
  by (intro trim_space_fixed) (metis append_Nil2 graph_no_space)

lemma trim_space_line:
  assumes "s \<noteq> []" "graph_char (hd s)" "graph_char (last s)"
  shows "trim_space (s @ [CHR 0x0A]) = s"
proof -
  let ?encs = "map rev space_encodings"
  have "strip_left space_encodings (s @ [CHR 0x0A]) = s @ [CHR 0x0A]"
    by (rule strip_left_done) (use graph_no_space [OF assms] in auto)
  moreover have "List.find (\<lambda>e. e \<noteq> [] \<and> has_prefix (CHR 0x0A # rev s) e) ?encs \<noteq> None"
    by (auto simp: find_None_iff_ball space_encodings_def)
  then obtain e where f: "List.find (\<lambda>e. e \<noteq> [] \<and> has_prefix (CHR 0x0A # rev s) e) ?encs = Some e"
    by blast
  from find_SomeD [OF f] obtain x where x: "e = rev x" "x \<in> set space_encodings" by auto
  with find_SomeD [OF f] have "hd (rev x) = CHR 0x0A" by (cases "rev x") auto
  with x space_encoding_ends(3) have "e = [CHR 0x0A]" by auto
  with f have "strip_left ?encs (CHR 0x0A # rev s) = strip_left ?encs (rev s)"
    by (simp add: strip_left.simps [of ?encs "CHR 0x0A # rev s"])
  moreover have "strip_left ?encs (rev s) = rev s"
    by (rule strip_left_done) (use graph_no_space [OF assms] has_prefix_rev in auto)
  ultimately show ?thesis by (simp add: trim_space_def)
qed

text \<open>strings.Fields: the maximal runs of non-space runes.\<close>

fun until_space :: "string \<Rightarrow> string" where
  "until_space [] = []"
| "until_space (c # cs) =
     (if \<exists>e \<in> set space_encodings. has_prefix (c # cs) e then [] else c # until_space cs)"

function str_fields :: "string \<Rightarrow> string list" where
  "str_fields s =
     (let t = strip_left space_encodings s in
      if t = [] then [] else until_space t # str_fields (drop (length (until_space t)) t))"
  by pat_completeness auto
termination
proof (relation "measure length", goal_cases)
  case (2 s t)
  then obtain c cs where t: "t = c # cs" by (meson neq_Nil_conv)
  have "\<not> has_prefix t e" if "e \<in> set space_encodings" for e
    using strip_left_stops [OF that space_encodings_not_Nil [OF that]] 2 by simp
  with t have "until_space t \<noteq> []" by simp
  moreover have "length t \<le> length s"
    using strip_left_suffix [of s space_encodings] 2 by (metis length_append le_add2)
  ultimately show ?case using t by (cases "until_space t") auto
qed simp

declare str_fields.simps [simp del]

section \<open>Decimal numbers\<close>

definition is_digit :: "char \<Rightarrow> bool" where
  "is_digit c \<longleftrightarrow> 48 \<le> (of_char c :: nat) \<and> (of_char c :: nat) \<le> 57"

definition digit_val :: "char \<Rightarrow> nat" where
  "digit_val c = of_char c - 48"

definition digit_char :: "nat \<Rightarrow> char" where
  "digit_char d = char_of (48 + d)"

fun dec_of_nat :: "nat \<Rightarrow> string" where
  "dec_of_nat n =
     (if n < 10 then [digit_char n] else dec_of_nat (n div 10) @ [digit_char (n mod 10)])"

declare dec_of_nat.simps [simp del]

definition nat_of_dec :: "string \<Rightarrow> nat" where
  "nat_of_dec s = foldl (\<lambda>n c. 10 * n + digit_val c) 0 s"

lemma of_char_digit_char: "d < 10 \<Longrightarrow> (of_char (digit_char d) :: nat) = 48 + d"
  by (simp add: digit_char_def)

lemma digit_val_digit_char [simp]: "d < 10 \<Longrightarrow> digit_val (digit_char d) = d"
  by (simp add: digit_val_def of_char_digit_char)

lemma is_digit_digit_char [simp]: "d < 10 \<Longrightarrow> is_digit (digit_char d)"
  by (simp add: is_digit_def of_char_digit_char)

lemma digit_char_digit_val: "is_digit c \<Longrightarrow> digit_char (digit_val c) = c"
  by (simp add: is_digit_def digit_char_def digit_val_def)

lemma digit_val_less: "is_digit c \<Longrightarrow> digit_val c < 10"
  by (auto simp: is_digit_def digit_val_def)

lemma digit_val_0_iff: "is_digit c \<Longrightarrow> digit_val c = 0 \<longleftrightarrow> c = CHR ''0''"
proof
  assume d: "is_digit c" and "digit_val c = 0"
  then have "c = digit_char 0" using digit_char_digit_val by metis
  also have "digit_char 0 = CHR ''0''" by code_simp
  finally show "c = CHR ''0''" .
qed (simp add: digit_val_def)

lemma nat_of_dec_snoc [simp]: "nat_of_dec (s @ [c]) = 10 * nat_of_dec s + digit_val c"
  by (simp add: nat_of_dec_def)

lemma nat_of_dec_Nil [simp]: "nat_of_dec [] = 0"
  by (simp add: nat_of_dec_def)

lemma nat_of_dec_of_nat [simp]: "nat_of_dec (dec_of_nat n) = n"
proof (induction n rule: dec_of_nat.induct)
  case (1 n)
  show ?case
  proof (cases "n < 10")
    case True
    then show ?thesis by (simp add: dec_of_nat.simps [of n] nat_of_dec_def)
  next
    case False
    with 1 show ?thesis by (simp add: dec_of_nat.simps [of n])
  qed
qed

lemma dec_of_nat_digits: "\<forall>c \<in> set (dec_of_nat n). is_digit c"
proof (induction n rule: dec_of_nat.induct)
  case (1 n)
  then show ?case by (cases "n < 10") (auto simp: dec_of_nat.simps [of n])
qed

lemma dec_of_nat_not_Nil [simp]: "dec_of_nat n \<noteq> []"
  by (subst dec_of_nat.simps) simp

lemma dec_of_nat_hd: "10 \<le> n \<Longrightarrow> hd (dec_of_nat n) \<noteq> CHR ''0''"
proof (induction n rule: dec_of_nat.induct)
  case (1 n)
  show ?case
  proof (cases "n div 10 < 10")
    case True
    have "digit_char (n div 10) \<noteq> CHR ''0''"
      using True 1 digit_val_digit_char [of "n div 10"] by (auto simp: digit_val_def)
    with True 1 show ?thesis by (simp add: dec_of_nat.simps [of n] dec_of_nat.simps [of "n div 10"])
  next
    case False
    with 1 show ?thesis by (simp add: dec_of_nat.simps [of n])
  qed
qed

lemma dec_of_nat_no_leading_zero: "length (dec_of_nat n) = 1 \<or> hd (dec_of_nat n) \<noteq> CHR ''0''"
proof (cases "n < 10")
  case True
  then show ?thesis by (simp add: dec_of_nat.simps [of n])
next
  case False
  then show ?thesis by (simp add: dec_of_nat_hd)
qed

lemma nat_of_dec_pos:
  "s \<noteq> [] \<Longrightarrow> \<forall>c \<in> set s. is_digit c \<Longrightarrow> hd s \<noteq> CHR ''0'' \<Longrightarrow> 0 < nat_of_dec s"
proof (induction s rule: rev_induct)
  case Nil
  then show ?case by simp
next
  case (snoc c s)
  show ?case
  proof (cases "s = []")
    case True
    with snoc.prems show ?thesis using digit_val_0_iff [of c] by (simp add: nat_of_dec_def)
  next
    case False
    with snoc show ?thesis by simp
  qed
qed

lemma dec_of_nat_of_dec:
  "s \<noteq> [] \<Longrightarrow> \<forall>c \<in> set s. is_digit c \<Longrightarrow> length s = 1 \<or> hd s \<noteq> CHR ''0'' \<Longrightarrow>
   dec_of_nat (nat_of_dec s) = s"
proof (induction s rule: rev_induct)
  case Nil
  then show ?case by simp
next
  case (snoc c s)
  from snoc.prems have c: "digit_val c < 10" "digit_char (digit_val c) = c"
    by (auto intro: digit_val_less digit_char_digit_val)
  show ?case
  proof (cases "s = []")
    case True
    with c show ?thesis by (simp add: nat_of_dec_def dec_of_nat.simps)
  next
    case False
    with snoc.prems have h: "hd s \<noteq> CHR ''0''" by simp
    with False snoc.prems have pos: "0 < nat_of_dec s" by (intro nat_of_dec_pos) auto
    from False h snoc have ih: "dec_of_nat (nat_of_dec s) = s" by simp
    have "\<not> 10 * nat_of_dec s + digit_val c < 10" using pos by simp
    then show ?thesis using c ih
      by (simp add: dec_of_nat.simps [of "10 * nat_of_dec s + digit_val c"])
  qed
qed

lemma dec_of_nat_inject [simp]: "dec_of_nat m = dec_of_nat n \<longleftrightarrow> m = n"
  by (metis nat_of_dec_of_nat)

end
