(* ===== verification/Paths.thy ===== *)
theory Paths
  imports Go_Strings
begin

text \<open>
  internal/declarations/paths.go, the path constants of layout.go, and the name rules of
  rules.go: the one canonical spelling of a relative path, containment of paths, and the names
  a releasable, a member, a tag or a branch may have. A problem function returns \<open>None\<close> where
  the code returns the empty string, and otherwise a constructor naming the sentence printed.
\<close>

section \<open>The canonical spelling of a relative path\<close>

definition root_path :: string where
  "root_path = ''.''"

definition root_name :: string where
  "root_name = ''root''"

text \<open>
  path.Clean of Go's standard library on a relative path: empty and \<open>.\<close> segments go, a \<open>..\<close>
  segment cancels the one before it unless that is a \<open>..\<close> itself, and an empty result is
  written as a dot. The stack holds the segments kept so far, last first.
\<close>

fun clean_step :: "string list \<Rightarrow> string \<Rightarrow> string list" where
  "clean_step st seg =
     (if seg = [] \<or> seg = ''.'' then st
      else if seg = ''..'' then
        (case st of [] \<Rightarrow> [''..''] | t # ts \<Rightarrow> if t = ''..'' then ''..'' # st else ts)
      else seg # st)"

definition clean_segments :: "string list \<Rightarrow> string list" where
  "clean_segments segs = rev (foldl clean_step [] segs)"

definition path_clean :: "string \<Rightarrow> string" where
  "path_clean s =
     (let segs = clean_segments (split_on CHR ''/'' s)
      in if segs = [] then ''.'' else join ''/'' segs)"

definition slashes :: "string \<Rightarrow> string" where
  "slashes s = map (\<lambda>c. if c = CHR 0x5C then CHR ''/'' else c) s"

definition canonical_path :: "string \<Rightarrow> string option" where
  "canonical_path raw =
     (let text = trim_space (slashes raw) in
      if has_prefix text ''/'' then None
      else
        (let canonical = (if text \<noteq> [] then path_clean text else ''.'') in
         if canonical = ''..'' \<or> has_prefix canonical ''../'' then None
         else Some canonical))"

datatype path_fault =
    NamesNothingInside string
  | NotCanonical string string

definition path_problem :: "string \<Rightarrow> path_fault option" where
  "path_problem raw =
     (case canonical_path raw of
        Some canonical \<Rightarrow> if canonical = raw then None else Some (NotCanonical raw canonical)
      | None \<Rightarrow> Some (NamesNothingInside raw))"

definition is_inside :: "string \<Rightarrow> string \<Rightarrow> bool" where
  "is_inside p dir \<longleftrightarrow> (if dir = root_path then True else p = dir \<or> has_prefix p (dir @ ''/''))"

definition join_paths :: "string \<Rightarrow> string \<Rightarrow> string" where
  "join_paths dir rel =
     (if dir = root_path then rel else if rel = root_path then dir else dir @ ''/'' @ rel)"

section \<open>The directories of the layout\<close>

definition metadata_dir :: string where "metadata_dir = ''.strictmetadata''"
definition changelog_root :: string where "changelog_root = metadata_dir @ ''/changelog''"
definition releases_root :: string where "releases_root = metadata_dir @ ''/releases''"
definition batch_releases_dir :: string where "batch_releases_dir = metadata_dir @ ''/batch-releases''"
definition transitions_file :: string where
  "transitions_file = metadata_dir @ ''/transitions/transitions.jsonl''"
definition history_rewrites_dir :: string where
  "history_rewrites_dir = metadata_dir @ ''/history-rewrites''"
definition retired_histories_root :: string where
  "retired_histories_root = metadata_dir @ ''/retired-release-histories''"
definition scaffold_state_file :: string where
  "scaffold_state_file = metadata_dir @ ''/.scaffold-state/scaffold-state.toml''"
definition scaffold_bases_dir :: string where
  "scaffold_bases_dir = metadata_dir @ ''/.scaffold-bases''"
definition changelog_validation_dir :: string where
  "changelog_validation_dir = metadata_dir @ ''/.changelog-validation''"
definition release_state_dir :: string where
  "release_state_dir = metadata_dir @ ''/.release-state''"
definition private_module_file :: string where "private_module_file = metadata_dir @ ''/go.mod''"

definition changelog_dir :: "string \<Rightarrow> string" where
  "changelog_dir releasable = changelog_root @ ''/'' @ releasable"
definition releases_dir :: "string \<Rightarrow> string" where
  "releases_dir releasable = releases_root @ ''/'' @ releasable"
definition version_file :: "string \<Rightarrow> string" where
  "version_file releasable = releases_dir releasable @ ''/version''"
definition changelog_validation_file :: "string \<Rightarrow> string" where
  "changelog_validation_file releasable = changelog_validation_dir @ ''/'' @ releasable @ ''.toml''"
definition run_state_dir :: "string \<Rightarrow> string" where
  "run_state_dir releasable = release_state_dir @ ''/'' @ releasable"
definition retired_history_dir :: "string \<Rightarrow> string" where
  "retired_history_dir subject = retired_histories_root @ ''/'' @ subject"

lemmas layout_defs = metadata_dir_def changelog_root_def releases_root_def batch_releases_dir_def
  transitions_file_def history_rewrites_dir_def retired_histories_root_def scaffold_state_file_def
  scaffold_bases_dir_def changelog_validation_dir_def release_state_dir_def private_module_file_def

section \<open>Names\<close>

datatype name_fault =
    NameEmpty
  | NameRelative string
  | NameHidden string
  | NameSeparator string
  | NameSpace string

definition name_problem :: "string \<Rightarrow> name_fault option" where
  "name_problem name =
     (if name = [] then Some NameEmpty
      else if name = ''.'' \<or> name = ''..'' then Some (NameRelative name)
      else if has_prefix name ''.'' then Some (NameHidden name)
      else if contains_any name [CHR ''/'', CHR 0x5C] then Some (NameSeparator name)
      else if has_space name \<or> has_control name then Some (NameSpace name)
      else None)"

datatype ref_problem =
    RefEmpty
  | RefAt
  | RefSlashAtEnd
  | RefDashStart
  | RefDotEnd
  | RefDoubleSlash
  | RefDotDot
  | RefAtBrace
  | RefHolds char
  | RefComponentDot string
  | RefComponentLock string

fun ref_component_problem :: "string list \<Rightarrow> ref_problem option" where
  "ref_component_problem [] = None"
| "ref_component_problem (c # cs) =
     (if has_prefix c ''.'' then Some (RefComponentDot c)
      else if has_suffix c ''.lock'' then Some (RefComponentLock c)
      else ref_component_problem cs)"

definition ref_char_refused :: "char \<Rightarrow> bool" where
  "ref_char_refused r \<longleftrightarrow>
     (of_char r :: nat) < 0x20 \<or> (of_char r :: nat) = 0x7F \<or> r \<in> set ('' ~^:?*['' @ [CHR 0x5C])"

definition ref_name_problem :: "string \<Rightarrow> ref_problem option" where
  "ref_name_problem name =
     (if name = [] then Some RefEmpty
      else if name = ''@'' then Some RefAt
      else if has_prefix name ''/'' \<or> has_suffix name ''/'' then Some RefSlashAtEnd
      else if has_prefix name ''-'' then Some RefDashStart
      else if has_suffix name ''.'' then Some RefDotEnd
      else if str_contains name ''//'' then Some RefDoubleSlash
      else if str_contains name ''..'' then Some RefDotDot
      else if str_contains name (''@'' @ ''{'') then Some RefAtBrace
      else (case List.find ref_char_refused name of
              Some r \<Rightarrow> Some (RefHolds r)
            | None \<Rightarrow> ref_component_problem (split_on CHR ''/'' name)))"

datatype tag_format_fault =
    TagPlaceholders string nat
  | TagBrace string
  | TagRefused string string ref_problem

definition tag_format_problem :: "string \<Rightarrow> string \<Rightarrow> tag_format_fault option" where
  "tag_format_problem format name =
     (let n = str_count format ''{version}'' in
      if n \<noteq> 1 then Some (TagPlaceholders format n)
      else
        (let rest = str_replace_all (str_replace_all format ''{version}'' []) ''{name}'' [] in
         if contains_any rest ''{}'' then Some (TagBrace format)
         else
           (let sample = str_replace_all (str_replace_all format ''{name}'' name) ''{version}'' ''0.1.0''
            in (case ref_name_problem sample of
                  Some p \<Rightarrow> Some (TagRefused format sample p)
                | None \<Rightarrow> None))))"

section \<open>What the code accepts as canonical\<close>

definition plain_segment :: "string \<Rightarrow> bool" where
  "plain_segment seg \<longleftrightarrow> seg \<noteq> [] \<and> seg \<noteq> ''.'' \<and> seg \<noteq> ''..''"

definition is_canonical :: "string \<Rightarrow> bool" where
  "is_canonical p \<longleftrightarrow>
     p = ''.'' \<or>
     (list_all plain_segment (split_on CHR ''/'' p) \<and> CHR 0x5C \<notin> set p \<and> trim_space p = p)"

lemma foldl_clean_plain:
  "list_all plain_segment segs \<Longrightarrow> foldl clean_step st segs = rev segs @ st"
  by (induction segs arbitrary: st) (auto simp: plain_segment_def)

lemma clean_segments_plain: "list_all plain_segment segs \<Longrightarrow> clean_segments segs = segs"
  by (simp add: clean_segments_def foldl_clean_plain)

text \<open>The stack: climbing segments at the bottom, plain segments above.\<close>

definition stack_ok :: "string list \<Rightarrow> bool" where
  "stack_ok st \<longleftrightarrow> (\<exists>n ps. st = ps @ replicate n ''..'' \<and> list_all plain_segment ps)"

lemma stack_ok_step:
  assumes "stack_ok st"
  shows "stack_ok (clean_step st seg)"
proof -
  from assms obtain n ps where st: "st = ps @ replicate n ''..''" "list_all plain_segment ps"
    by (auto simp: stack_ok_def)
  consider "seg = [] \<or> seg = ''.''" | "seg = ''..''" "ps = []" | p ps' where "seg = ''..''" "ps = p # ps'"
    | "plain_segment seg"
    by (cases "plain_segment seg"; cases ps) (auto simp: plain_segment_def)
  then show ?thesis
  proof cases
    case 1
    then show ?thesis using assms by auto
  next
    case 2
    then have "clean_step st seg = [] @ replicate (Suc n) ''..''"
      using st by (cases n) auto
    then show ?thesis unfolding stack_ok_def by fastforce
  next
    case (3 p ps')
    then have "clean_step st seg = ps' @ replicate n ''..''" "list_all plain_segment ps'"
      using st by (auto simp: plain_segment_def)
    then show ?thesis unfolding stack_ok_def by blast
  next
    case 4
    then have "clean_step st seg = (seg # ps) @ replicate n ''..''"
      using st by (auto simp: plain_segment_def)
    with 4 st(2) show ?thesis unfolding stack_ok_def by (metis list.pred_inject(2))
  qed
qed

lemma stack_ok_foldl: "stack_ok st \<Longrightarrow> stack_ok (foldl clean_step st segs)"
  by (induction segs arbitrary: st) (simp_all add: stack_ok_step del: clean_step.simps)

lemma clean_segments_shape:
  "\<exists>n ps. clean_segments segs = replicate n ''..'' @ ps \<and> list_all plain_segment ps"
proof -
  have "stack_ok []" by (auto simp: stack_ok_def)
  then have "stack_ok (foldl clean_step [] segs)" by (rule stack_ok_foldl)
  then obtain n ps where "foldl clean_step [] segs = ps @ replicate n ''..''" "list_all plain_segment ps"
    by (auto simp: stack_ok_def)
  then show ?thesis
    by (intro exI [of _ n] exI [of _ "rev ps"]) (simp add: clean_segments_def list_all_iff)
qed

lemma foldl_clean_subset: "set (foldl clean_step st segs) \<subseteq> set st \<union> set segs"
proof (induction segs arbitrary: st)
  case Nil
  then show ?case by simp
next
  case (Cons seg segs)
  have "set (clean_step st seg) \<subseteq> set st \<union> {seg}" by (auto split: list.splits)
  with Cons [of "clean_step st seg"] show ?case by fastforce
qed

lemma clean_segments_subset: "set (clean_segments segs) \<subseteq> set segs"
  using foldl_clean_subset [of "[]" segs] by (simp add: clean_segments_def)

text \<open>The cleaned text is no longer than the text.\<close>

definition seg_size :: "string list \<Rightarrow> nat" where
  "seg_size segs = sum_list (map (\<lambda>s. Suc (length s)) segs)"

lemma length_join: "segs \<noteq> [] \<Longrightarrow> Suc (length (join [c] segs)) = seg_size segs"
  by (induction "[c]" segs rule: join.induct) (auto simp: seg_size_def)

lemma seg_size_foldl: "seg_size (foldl clean_step st segs) \<le> seg_size st + seg_size segs"
proof (induction segs arbitrary: st)
  case Nil
  then show ?case by (simp add: seg_size_def)
next
  case (Cons seg segs)
  have "seg_size (clean_step st seg) \<le> seg_size st + Suc (length seg)"
    by (auto simp: seg_size_def split: list.splits)
  with Cons [of "clean_step st seg"] show ?case
    by (simp add: seg_size_def del: clean_step.simps)
qed

lemma length_path_clean: "s \<noteq> [] \<Longrightarrow> length (path_clean s) \<le> length s"
proof -
  assume s: "s \<noteq> []"
  let ?segs = "split_on CHR ''/'' s"
  have size: "seg_size ?segs = Suc (length s)"
    using length_join [of ?segs "CHR ''/''"] by (simp add: join_split_on)
  have "seg_size (clean_segments ?segs) \<le> seg_size ?segs"
    using seg_size_foldl [of "[]" ?segs]
    by (simp add: clean_segments_def seg_size_def rev_map [symmetric])
  then show ?thesis
    using s size length_join [of "clean_segments ?segs" "CHR ''/''"]
    by (cases s) (auto simp: path_clean_def Let_def)
qed

lemma length_trim_space: "length (trim_space s) \<le> length s"
proof -
  obtain t u where "s = t @ strip_left space_encodings s"
    "rev (strip_left space_encodings s) = u @ rev (trim_space s)"
    using strip_left_suffix unfolding trim_space_def rev_rev_ident by metis
  then show ?thesis
    by (metis le_add2 length_append length_rev order_trans)
qed

lemma trim_space_same_length: "length (trim_space s) = length s \<Longrightarrow> trim_space s = s"
proof -
  assume len: "length (trim_space s) = length s"
  obtain t u where t: "s = t @ strip_left space_encodings s" and
    u: "rev (strip_left space_encodings s) = u @ rev (trim_space s)"
    using strip_left_suffix unfolding trim_space_def rev_rev_ident by metis
  from t u len have "t = []" "u = []"
    by (metis add_le_same_cancel2 le_add2 le_zero_eq length_0_conv length_append length_rev order_trans
        add.commute order_refl)+
  with t u show ?thesis by (metis append_Nil rev_rev_ident)
qed

lemma split_path_clean:
  "split_on CHR ''/'' (path_clean s) =
     (let segs = clean_segments (split_on CHR ''/'' s) in if segs = [] then [''.''] else segs)"
proof -
  let ?segs = "clean_segments (split_on CHR ''/'' s)"
  have "split_on CHR ''/'' (join ''/'' ?segs) = ?segs" if "?segs \<noteq> []"
    using that
  proof (rule split_on_join)
    show "CHR ''/'' \<notin> set w" if "w \<in> set ?segs" for w
      using that clean_segments_subset split_on_pieces by blast
  qed
  then show ?thesis by (simp add: path_clean_def Let_def)
qed

lemma slashes_no_backslash [simp]: "CHR 0x5C \<notin> set (slashes s)"
  by (auto simp: slashes_def split: if_splits)

lemma slashes_id: "CHR 0x5C \<notin> set s \<Longrightarrow> slashes s = s"
  by (auto simp: slashes_def intro: map_idI)

lemma set_trim_space: "set (trim_space s) \<subseteq> set s"
proof -
  obtain t u where t: "s = t @ strip_left space_encodings s" and
    u: "rev (strip_left space_encodings s) = u @ rev (trim_space s)"
    using strip_left_suffix unfolding trim_space_def rev_rev_ident by metis
  have "set (strip_left space_encodings s) \<subseteq> set s" by (subst (2) t) auto
  moreover have "set (trim_space s) \<subseteq> set (strip_left space_encodings s)"
    using arg_cong [OF u, of set] by auto
  ultimately show ?thesis by blast
qed

lemma set_join: "set (join sep ws) \<subseteq> \<Union> (set ` set ws) \<union> set sep"
  by (induction sep ws rule: join.induct) auto

lemma set_split_on: "w \<in> set (split_on c s) \<Longrightarrow> set w \<subseteq> set s"
proof (induction s arbitrary: w)
  case Nil
  then show ?case by simp
next
  case (Cons x xs)
  obtain v vs where v: "split_on c xs = v # vs" by (meson neq_Nil_conv split_on_not_Nil)
  with Cons.IH [of v] have v': "set v \<subseteq> set xs" by simp
  from Cons.prems v have "w = [] \<or> w \<in> set (split_on c xs) \<or> w = x # v"
    by (auto split: if_splits)
  with v' Cons.IH [of w] show ?case by auto
qed

lemma set_path_clean: "set (path_clean s) \<subseteq> set s \<union> {CHR ''.'', CHR ''/''}"
proof -
  have "\<Union> (set ` set (clean_segments (split_on CHR ''/'' s))) \<subseteq> set s"
    using clean_segments_subset set_split_on by fast
  then have "set (join ''/'' (clean_segments (split_on CHR ''/'' s))) \<subseteq> set s \<union> {CHR ''/''}"
    by (intro subset_trans [OF set_join]) auto
  then show ?thesis
    by (auto simp: path_clean_def Let_def)
qed

lemma canonical_path_InrD:
  assumes c: "canonical_path raw = Some p"
  shows "p = ''.'' \<or> list_all plain_segment (split_on CHR ''/'' p)" "CHR 0x5C \<notin> set p"
proof -
  let ?text = "trim_space (slashes raw)"
  have p: "p = (if ?text \<noteq> [] then path_clean ?text else ''.'')"
    and up: "p \<noteq> ''..''" "\<not> has_prefix p ''../''"
    using c by (auto simp: canonical_path_def Let_def split: if_splits)
  show "CHR 0x5C \<notin> set p"
  proof (cases "?text = []")
    case False
    have "CHR 0x5C \<notin> set ?text" using set_trim_space slashes_no_backslash by blast
    with False set_path_clean [of ?text] show ?thesis unfolding p by auto
  qed (simp add: p)
  show "p = ''.'' \<or> list_all plain_segment (split_on CHR ''/'' p)"
  proof (cases "?text = [] \<or> clean_segments (split_on CHR ''/'' ?text) = []")
    case True
    then show ?thesis using p by (auto simp: path_clean_def)
  next
    case False
    obtain n ps where sh: "clean_segments (split_on CHR ''/'' ?text) = replicate n ''..'' @ ps"
      "list_all plain_segment ps"
      using clean_segments_shape by blast
    have "p = join ''/'' (replicate n ''..'' @ ps)"
      using False p sh(1) by (auto simp: path_clean_def)
    moreover have "n = 0"
    proof (rule ccontr)
      assume "n \<noteq> 0"
      then obtain k where "n = Suc k" by (cases n) auto
      then have "p = ''..'' \<or> has_prefix p ''../''"
        using \<open>p = join _ _\<close> by (cases "replicate k ''..'' @ ps") (auto simp: has_prefix_def)
      with up show False by blast
    qed
    ultimately have "split_on CHR ''/'' p = ps"
      using False p sh split_path_clean [of ?text] by (simp add: Let_def)
    with sh(2) show ?thesis by simp
  qed
qed

lemma path_problem_None_eq: "path_problem p = None \<longleftrightarrow> canonical_path p = Some p"
  by (auto simp: path_problem_def split: option.splits if_splits)

lemma is_canonical_accepted:
  assumes "is_canonical p"
  shows "canonical_path p = Some p"
proof (cases "p = ''.''")
  case True
  show ?thesis unfolding True by code_simp
next
  case False
  with assms have segs: "list_all plain_segment (split_on CHR ''/'' p)"
    and s: "slashes p = p" "trim_space p = p"
    by (auto simp: is_canonical_def slashes_id)
  obtain w ws where w: "split_on CHR ''/'' p = w # ws" by (meson neq_Nil_conv split_on_not_Nil)
  with segs have plain: "plain_segment w" by simp
  have p: "p = join ''/'' (w # ws)"
    by (metis w join_split_on)
  have "CHR ''/'' \<notin> set w"
    using w split_on_pieces by (metis list.set_intros(1))
  moreover obtain r where "p = w \<or> p = w @ CHR ''/'' # r"
    using p by (cases ws) auto
  ultimately have "takeWhile (\<lambda>c. c \<noteq> CHR ''/'') p = w"
    by (auto intro!: takeWhile_eq_all_conv [THEN iffD2] simp: takeWhile_append)
  with plain have "\<not> has_prefix p ''/''" "p \<noteq> ''..''" "\<not> has_prefix p ''../''" "p \<noteq> []"
    by (auto simp: plain_segment_def has_prefix_iff)
  moreover have "path_clean p = p"
    using clean_segments_plain [OF segs] by (simp add: path_clean_def join_split_on)
  ultimately show ?thesis
    using s by (simp add: canonical_path_def)
qed

lemma path_problem_None_iff: "path_problem p = None \<longleftrightarrow> is_canonical p"
proof
  assume "path_problem p = None"
  then have c: "canonical_path p = Some p" by (simp add: path_problem_None_eq)
  let ?text = "trim_space (slashes p)"
  from canonical_path_InrD [OF c] have b: "CHR 0x5C \<notin> set p" by blast
  have "trim_space p = p" if "p \<noteq> ''.''"
  proof -
    have "?text \<noteq> []" "p = path_clean ?text"
      using c that by (auto simp: canonical_path_def Let_def split: if_splits)
    then have "length p \<le> length ?text" using length_path_clean [of ?text] by simp
    with b have "length (trim_space p) = length p"
      using length_trim_space [of p] by (simp add: slashes_id)
    then show ?thesis by (rule trim_space_same_length)
  qed
  with canonical_path_InrD [OF c] b show "is_canonical p"
    by (auto simp: is_canonical_def)
next
  assume "is_canonical p"
  then show "path_problem p = None"
    by (simp add: path_problem_None_eq is_canonical_accepted)
qed

text \<open>Containment of canonical paths is containment of their segments.\<close>

lemma split_on_append: "split_on c (a @ [c] @ b) = split_on c a @ split_on c b"
proof (induction a)
  case (Cons x xs)
  obtain w ws where "split_on c xs = w # ws" by (meson neq_Nil_conv split_on_not_Nil)
  with Cons show ?case by auto
qed simp

lemma split_on_inject: "split_on c a = split_on c b \<longleftrightarrow> a = b"
  by (metis join_split_on)

lemma join_append: "xs \<noteq> [] \<Longrightarrow> ys \<noteq> [] \<Longrightarrow> join sep (xs @ ys) = join sep xs @ sep @ join sep ys"
  by (induction sep xs rule: join.induct) (auto simp: neq_Nil_conv)

lemma is_inside_segments:
  "dir \<noteq> root_path \<Longrightarrow> is_inside p dir \<longleftrightarrow> prefix (split_on CHR ''/'' dir) (split_on CHR ''/'' p)"
proof
  assume "dir \<noteq> root_path" "is_inside p dir"
  then show "prefix (split_on CHR ''/'' dir) (split_on CHR ''/'' p)"
    using split_on_append [of "CHR ''/''"] by (auto simp: is_inside_def has_prefix_iff)
next
  assume d: "dir \<noteq> root_path" and "prefix (split_on CHR ''/'' dir) (split_on CHR ''/'' p)"
  then obtain ws where ws: "split_on CHR ''/'' p = split_on CHR ''/'' dir @ ws"
    by (auto simp: prefix_def)
  show "is_inside p dir"
  proof (cases "ws = []")
    case True
    with ws d show ?thesis by (simp add: is_inside_def split_on_inject)
  next
    case False
    have "p = join ''/'' (split_on CHR ''/'' dir @ ws)"
      by (simp add: join_split_on flip: ws)
    also have "\<dots> = dir @ ''/'' @ join ''/'' ws"
      using False by (simp add: join_append join_split_on)
    finally show ?thesis using d by (auto simp: is_inside_def has_prefix_iff)
  qed
qed

lemma is_inside_comparable:
  assumes "is_inside p a" "is_inside p b" "a \<noteq> root_path" "b \<noteq> root_path" "length a \<le> length b"
  shows "is_inside b a"
proof -
  let ?s = "split_on CHR ''/''"
  have longer: "x = y \<or> length y < length x" if "prefix (?s y) (?s x)" "y \<noteq> root_path" for x y
    using that is_inside_segments [of y x] by (auto simp: is_inside_def has_prefix_iff)
  from assms have "prefix (?s a) (?s p)" "prefix (?s b) (?s p)"
    by (simp_all add: is_inside_segments)
  then have "prefix (?s a) (?s b) \<or> prefix (?s b) (?s a)"
    by (meson prefix_same_cases)
  with assms(3,4,5) longer [of b a] have "prefix (?s a) (?s b)"
    by auto
  with assms show ?thesis by (simp add: is_inside_segments)
qed

text \<open>
  The declarations accept a path exactly in its one canonical spelling: a dot, or plain
  segments separated by single slashes, with no empty, dot or dot-dot segment, no backslash,
  and no white space around it. In particular no accepted path climbs out of its directory.
\<close>

theorem path_accepted_iff_canonical: "path_problem p = None \<longleftrightarrow> is_canonical p"
  by (rule path_problem_None_iff)

text \<open>
  The refusal of a path names the spelling to write, and that spelling need not be
  accepted either: white space is trimmed before the path is cleaned, so cleaning can expose
  white space again.
\<close>

theorem path_suggestion_refused:
  "path_problem ''./ a'' = Some (NotCanonical ''./ a'' '' a'') \<and> path_problem '' a'' \<noteq> None"
  by code_simp

end
