(* ===== verification/Declarations.thy ===== *)
theory Declarations
  imports Paths
begin

text \<open>
  internal/declarations/releasables.go, rules.go and resolved.go: the parsed release
  declarations of a repository, the member owning a path, the rules a declarations file must
  pass, and the targets a release iterates over. A Go struct is a record; a nil slice or map and
  an empty one are told apart only where the code tells them apart.
\<close>

section \<open>The declarations\<close>

datatype layout = LayoutStandalone | LayoutWorkspace | LayoutOther string

datatype publish_mode = PublishCI | PublishNone | PublishOther string

definition target_go :: string where "target_go = ''go''"
definition target_npm :: string where "target_npm = ''npm''"
definition target_pypi :: string where "target_pypi = ''pypi''"
definition artifact_binary :: string where "artifact_binary = ''binary''"
definition artifact_library :: string where "artifact_library = ''library''"
definition artifact_package :: string where "artifact_package = ''package''"
definition artifact_go_binary :: string where "artifact_go_binary = ''go-binary''"

record hook =
  hk_command :: string
  hk_dir :: string
  hk_env :: "(string \<times> string) list option"

record hooks =
  pre_checks :: "hook list"
  pre_release :: "hook list"
  post_release :: "hook list"

definition hooks_empty :: "hooks \<Rightarrow> bool" where
  "hooks_empty h \<longleftrightarrow> pre_checks h = [] \<and> pre_release h = [] \<and> post_release h = []"

record releasable =
  r_name :: string
  r_tag_format :: string
  r_publish_mode :: publish_mode
  r_check_pattern :: string
  r_deploy_command :: "string list"
  r_hooks :: hooks

record target =
  t_name :: string
  t_path :: string

record external_check =
  xc_name :: string
  xc_tag :: string
  xc_command :: string
  xc_depends_on :: "string list"
  xc_cwd :: string

record test_settings =
  ts_pypi_markers :: string
  ts_go_command :: string

record pipeline =
  p_name :: string
  p_type :: string
  p_target :: string
  p_local :: bool
  p_artifact :: string
  p_install_paths :: "string list"
  p_homebrew_tap :: string
  p_binary_pipeline :: string

record member =
  m_path :: string
  m_name :: string
  m_releasable :: string
  m_dev_only :: bool
  m_library :: bool
  m_test_only :: bool
  m_depends_on :: "string list"
  m_import_name :: string
  m_registry_name :: string
  m_description :: string
  m_lint_allow :: "string list"
  m_internal_dep_floors :: "string list"
  m_targets :: "target list option"
  m_hooks :: hooks
  m_external_checks :: "external_check list"
  m_test :: test_settings
  m_pipelines :: "pipeline list"

record timeouts =
  push_seconds :: int
  ci_seconds :: int
  check_seconds :: int
  hook_seconds :: int

record releasables =
  d_layout :: layout
  d_release_branches :: "string list"
  d_github_repository :: string
  d_environment_file :: string
  d_timeouts :: timeouts
  d_releasables :: "releasable list"
  d_members :: "member list"

definition is_root :: "member \<Rightarrow> bool" where
  "is_root m \<longleftrightarrow> m_path m = root_path"

definition versioned :: "member \<Rightarrow> bool" where
  "versioned m \<longleftrightarrow> m_releasable m \<noteq> []"

definition dev_node :: "member \<Rightarrow> bool" where
  "dev_node m \<longleftrightarrow> m_dev_only m \<and> m_releasable m = []"

definition member_pipeline :: "member \<Rightarrow> string \<Rightarrow> pipeline option" where
  "member_pipeline m name = List.find (\<lambda>p. p_name p = name) (m_pipelines m)"

definition find_releasable :: "releasables \<Rightarrow> string \<Rightarrow> releasable option" where
  "find_releasable d name = List.find (\<lambda>r. r_name r = name) (d_releasables d)"

definition find_member :: "releasables \<Rightarrow> string \<Rightarrow> member option" where
  "find_member d name = List.find (\<lambda>m. m_name m = name) (d_members d)"

definition member_at :: "releasables \<Rightarrow> string \<Rightarrow> member option" where
  "member_at d p = List.find (\<lambda>m. m_path m = p) (d_members d)"

definition members_of :: "releasables \<Rightarrow> string \<Rightarrow> member list" where
  "members_of d name =
     (if name = [] then [] else filter (\<lambda>m. m_releasable m = name) (d_members d))"

definition is_workspace :: "releasables \<Rightarrow> bool" where
  "is_workspace d \<longleftrightarrow> d_layout d = LayoutWorkspace"

definition member_targets :: "member \<Rightarrow> target list" where
  "member_targets m = (case m_targets m of None \<Rightarrow> [] | Some ts \<Rightarrow> ts)"

section \<open>The member owning a path\<close>

definition claims_path :: "member \<Rightarrow> string \<Rightarrow> bool" where
  "claims_path m p \<longleftrightarrow> is_root m \<or> is_inside p (m_path m)"

definition claim_length :: "member \<Rightarrow> int" where
  "claim_length m = (if is_root m then 0 else int (length (m_path m)))"

fun member_for_path_loop ::
  "string \<Rightarrow> member list \<Rightarrow> member option \<times> int \<Rightarrow> member option \<times> int" where
  "member_for_path_loop p [] acc = acc"
| "member_for_path_loop p (c # cs) (found, best) =
     (if \<not> is_root c \<and> \<not> is_inside p (m_path c) then member_for_path_loop p cs (found, best)
      else if claim_length c > best then member_for_path_loop p cs (Some c, claim_length c)
      else member_for_path_loop p cs (found, best))"

definition member_for_path :: "releasables \<Rightarrow> string \<Rightarrow> member option" where
  "member_for_path d p = fst (member_for_path_loop p (d_members d) (None, -1))"

lemma claim_length_nonneg [simp]: "0 \<le> claim_length m"
  by (simp add: claim_length_def)

definition loop_result ::
  "string \<Rightarrow> member list \<Rightarrow> member option \<times> int \<Rightarrow> member option \<times> int \<Rightarrow> bool" where
  "loop_result p cs acc res \<longleftrightarrow>
     snd acc \<le> snd res \<and> (\<forall>c \<in> set cs. claims_path c p \<longrightarrow> claim_length c \<le> snd res) \<and>
     (res = acc \<or>
      (\<exists>c \<in> set cs. res = (Some c, claim_length c) \<and> claims_path c p \<and> snd acc < claim_length c))"

lemma loop_result_next:
  assumes "loop_result p cs (Some c, claim_length c) res" "best < claim_length c" "claims_path c p"
  shows "loop_result p (c # cs) (found, best) res"
  using assms unfolding loop_result_def by fastforce

lemma loop_result_skip:
  assumes "loop_result p cs acc res" "claims_path c p \<Longrightarrow> claim_length c \<le> snd acc"
  shows "loop_result p (c # cs) acc res"
  using assms unfolding loop_result_def by fastforce

lemma member_for_path_loop_spec: "loop_result p cs acc (member_for_path_loop p cs acc)"
proof (induction p cs acc rule: member_for_path_loop.induct)
  case (1 p acc)
  then show ?case by (simp add: loop_result_def)
next
  case (2 p c cs found best)
  consider "\<not> claims_path c p" | "claims_path c p" "claim_length c > best"
    | "claims_path c p" "\<not> claim_length c > best" by blast
  then show ?case
  proof cases
    case 1
    then have "loop_result p cs (found, best) (member_for_path_loop p cs (found, best))"
      using "2.IH"(1) by (simp add: claims_path_def)
    with 1 show ?thesis by (auto simp: claims_path_def intro: loop_result_skip)
  next
    case 2
    then have "loop_result p cs (Some c, claim_length c)
        (member_for_path_loop p cs (Some c, claim_length c))"
      using "2.IH"(2) by (simp add: claims_path_def)
    with 2 show ?thesis
      by (auto simp: claims_path_def intro: loop_result_next)
  next
    case 3
    then have "loop_result p cs (found, best) (member_for_path_loop p cs (found, best))"
      using "2.IH"(3) by (simp add: claims_path_def)
    with 3 show ?thesis by (auto simp: claims_path_def intro: loop_result_skip)
  qed
qed

lemma member_for_path_SomeD:
  assumes "member_for_path d p = Some m"
  shows "m \<in> set (d_members d)" "claims_path m p"
    "\<And>c. c \<in> set (d_members d) \<Longrightarrow> claims_path c p \<Longrightarrow> claim_length c \<le> claim_length m"
proof -
  let ?res = "member_for_path_loop p (d_members d) (None, -1)"
  have f: "fst ?res = Some m" using assms by (simp add: member_for_path_def)
  have r: "loop_result p (d_members d) (None, -1) ?res" by (rule member_for_path_loop_spec)
  from r f obtain c where "c \<in> set (d_members d)" "?res = (Some c, claim_length c)" "claims_path c p"
    by (auto simp: loop_result_def)
  with f have m: "m \<in> set (d_members d) \<and> claims_path m p \<and> snd ?res = claim_length m" by simp
  then show "m \<in> set (d_members d)" "claims_path m p" by auto
  show "claim_length c \<le> claim_length m" if "c \<in> set (d_members d)" "claims_path c p" for c
    using r that m by (auto simp: loop_result_def)
qed

lemma member_for_path_NoneD:
  assumes "member_for_path d p = None" "c \<in> set (d_members d)"
  shows "\<not> claims_path c p"
proof
  assume c: "claims_path c p"
  let ?res = "member_for_path_loop p (d_members d) (None, -1)"
  have f: "fst ?res = None" using assms by (simp add: member_for_path_def)
  have r: "loop_result p (d_members d) (None, -1) ?res" by (rule member_for_path_loop_spec)
  then have "?res = (None, -1)" using f by (auto simp: loop_result_def)
  with r assms(2) c have "claim_length c \<le> -1" by (auto simp: loop_result_def)
  with claim_length_nonneg [of c] show False by linarith
qed

lemma member_for_path_deepest:
  assumes m: "member_for_path d p = Some m"
    and paths: "\<And>m. m \<in> set (d_members d) \<Longrightarrow> m_path m \<noteq> []"
    and c: "c \<in> set (d_members d)" "claims_path c p"
  shows "is_inside (m_path m) (m_path c)"
proof (cases "is_root c")
  case True
  then show ?thesis by (simp add: is_root_def is_inside_def)
next
  case False
  then have ci: "is_inside p (m_path c)" "m_path c \<noteq> root_path"
    using c by (auto simp: claims_path_def is_root_def)
  note mm = member_for_path_SomeD [OF m]
  have len: "claim_length c \<le> claim_length m" by (rule mm(3) [OF c])
  moreover have "0 < claim_length c" using False paths [OF c(1)] by (simp add: claim_length_def)
  ultimately have r: "\<not> is_root m" by (auto simp: claim_length_def)
  then have "is_inside p (m_path m)" "m_path m \<noteq> root_path"
    using mm(2) by (auto simp: claims_path_def is_root_def)
  moreover have "length (m_path c) \<le> length (m_path m)"
    using len False r by (simp add: claim_length_def)
  ultimately show ?thesis using is_inside_comparable ci by blast
qed

lemma member_for_path_root: "r \<in> set (d_members d) \<Longrightarrow> is_root r \<Longrightarrow> \<exists>m. member_for_path d p = Some m"
  using member_for_path_NoneD [of d p r] by (cases "member_for_path d p") (auto simp: claims_path_def)

end
