(* ===== verification/Rules.thy ===== *)
theory Rules
  imports Declarations
begin

text \<open>
  internal/declarations/rules.go: the rules that relate one part of a declarations file to
  another. Every problem found is returned, in document order; a problem is a constructor
  naming the sentence printed, under the label of the table it is about. What acceptance
  (an empty list of problems) guarantees is proved at the end.
\<close>

section \<open>Problems\<close>

datatype owned_what =
    TargetPathOf string
  | HookDirOf string nat
  | CheckCwdOf string

datatype problem =
  \<comment> \<open>of the document\<close>
    BadLayout layout
  | NoReleaseBranches
  | DuplicateBranch string
  | BadBranch string ref_problem
  | StandaloneMembers "string list"
  | StandaloneReleasables
  | StandaloneRootUnversioned
  | NoRootMember
  | SeveralRoots "string list"
  \<comment> \<open>of a member's identity\<close>
  | BadMemberPath path_fault
  | BadName name_fault
  | NameTaken string
  | PathTaken string string
  | RootMisnamed string
  | NameReserved string string
  \<comment> \<open>of a member's content\<close>
  | UnknownReleasable string "string list"
  | DuplicateDependsOn string
  | DependsOnItself
  | UnknownDependsOn string
  | DuplicateFloor string
  | DuplicateLintAllow string
  | BadOwnedPath owned_what path_fault
  | ForeignOwnedPath owned_what string string string
  | HookEmptyCommand string nat
  | CheckNameTaken string string
  | CheckEmptyCommand string
  | CheckAssignment string string
  | CheckDuplicateDep string string
  | CheckDependsOnItself string
  | PipelineNoTargets string string
  | PipelineUnknownTarget string string
  | PipelineTypeMismatch string string string
  | PipelineGoArtifact string string
  | PipelineLocalNoInstall string
  | PipelineTapNotBinary string
  | PipelinePackageArtifact string string string
  | PipelineInstallNotGo string
  | PipelineTapNotGo string
  | PipelineDuplicateInstall string string
  | PipelineNoBinary string
  | PipelineUnknownBinary string string
  | PipelineNotGoBinary string string
  | PipelineBinaryUnused string
  \<comment> \<open>of a releasable\<close>
  | PatternTaken string string
  | BadTagFormat tag_format_fault
  | BadPublishMode publish_mode
  | NoMembers
  | CheckPatternMissing
  | CheckPatternUnused
  | DeployWordEmpty nat
  | HookDirForeign owned_what string string

datatype label =
    Document
  | MemberLabel nat string
  | ReleasableLabel nat string

type_synonym finding = "label \<times> problem"

section \<open>The rules\<close>

definition env_letter :: "char \<Rightarrow> bool" where
  "env_letter r \<longleftrightarrow>
     r = CHR ''_'' \<or> (CHR ''a'' \<le> r \<and> r \<le> CHR ''z'') \<or> (CHR ''A'' \<le> r \<and> r \<le> CHR ''Z'')"

fun env_name_rest :: "string \<Rightarrow> bool" where
  "env_name_rest [] = True"
| "env_name_rest (r # rs) = ((env_letter r \<or> is_digit r) \<and> env_name_rest rs)"

definition env_assignment :: "string \<Rightarrow> bool" where
  "env_assignment word =
     (case str_cut word ''='' of (name, _, found) \<Rightarrow>
        found \<and> name \<noteq> [] \<and> env_letter (hd name) \<and> env_name_rest (tl name))"

definition duplicates :: "string list \<Rightarrow> string list" where
  "duplicates xs = sorted_set (filter (\<lambda>v. count_list xs v > 1) xs)"

definition hook_points :: "string list" where
  "hook_points = [''pre_checks'', ''pre_release'', ''post_release'']"

fun check_hook_list ::
  "string \<Rightarrow> nat \<Rightarrow> hook list \<Rightarrow> (owned_what \<Rightarrow> string \<Rightarrow> problem list) \<Rightarrow> problem list" where
  "check_hook_list point j [] dir = []"
| "check_hook_list point j (h # hs) dir =
     (if trim_space (hk_command h) = [] then [HookEmptyCommand point j] else []) @
     (if hk_dir h \<noteq> [] then dir (HookDirOf point j) (hk_dir h) else []) @
     check_hook_list point (Suc j) hs dir"

definition check_hooks ::
  "hooks \<Rightarrow> (owned_what \<Rightarrow> string \<Rightarrow> problem list) \<Rightarrow> problem list" where
  "check_hooks h dir =
     concat (map (\<lambda>(point, hs). check_hook_list point 0 hs dir)
       (zip hook_points [pre_checks h, pre_release h, post_release h]))"

definition own_territory :: "releasables \<Rightarrow> member \<Rightarrow> owned_what \<Rightarrow> string \<Rightarrow> problem list" where
  "own_territory d m what rel =
     (case path_problem rel of
        Some p \<Rightarrow> [BadOwnedPath what p]
      | None \<Rightarrow>
          (case member_for_path d (join_paths (m_path m) rel) of
             Some owner \<Rightarrow>
               if m_name owner \<noteq> m_name m
               then [ForeignOwnedPath what rel (m_name owner) (m_path owner)] else []
           | None \<Rightarrow> []))"

fun check_external ::
  "releasables \<Rightarrow> member \<Rightarrow> (string \<rightharpoonup> string) \<Rightarrow> external_check list \<Rightarrow>
     problem list \<times> (string \<rightharpoonup> string)" where
  "check_external d m owners [] = ([], owners)"
| "check_external d m owners (c # cs) =
     (let taken = (case owners (xc_name c) of Some other \<Rightarrow> [CheckNameTaken (xc_name c) other] | None \<Rightarrow> []);
          owners' = (case owners (xc_name c) of Some _ \<Rightarrow> owners
                     | None \<Rightarrow> owners(xc_name c \<mapsto> m_name m));
          fields = str_fields (xc_command c);
          command = (case fields of [] \<Rightarrow> [CheckEmptyCommand (xc_name c)]
                     | f # _ \<Rightarrow> if env_assignment f then [CheckAssignment (xc_name c) f] else []);
          dups = map (CheckDuplicateDep (xc_name c)) (duplicates (xc_depends_on c));
          self = map (\<lambda>_. CheckDependsOnItself (xc_name c))
                   (filter (\<lambda>dep. dep = xc_name c) (xc_depends_on c));
          cwd = (if xc_cwd c \<noteq> [] then own_territory d m (CheckCwdOf (xc_name c)) (xc_cwd c) else []);
          rest = check_external d m owners' cs
      in (taken @ command @ dups @ self @ cwd @ fst rest, snd rest))"

text \<open>The pipelines of a member by name; a later pipeline of a name replaces an earlier one.\<close>

definition pipelines_by_name :: "pipeline list \<Rightarrow> (string \<rightharpoonup> pipeline)" where
  "pipelines_by_name ps = map_of (rev (map (\<lambda>p. (p_name p, p)) ps))"

definition check_pipeline :: "member \<Rightarrow> pipeline \<Rightarrow> problem list" where
  "check_pipeline m p =
     (if member_targets m = [] then [PipelineNoTargets (p_name p) (p_target p)]
      else if p_target p \<notin> t_name ` set (member_targets m)
        then [PipelineUnknownTarget (p_name p) (p_target p)] else []) @
     (if p_type p \<noteq> p_target p then [PipelineTypeMismatch (p_name p) (p_type p) (p_target p)] else []) @
     (if p_type p = target_go then
        (if p_artifact p \<noteq> artifact_binary \<and> p_artifact p \<noteq> artifact_library
           then [PipelineGoArtifact (p_name p) (p_artifact p)] else []) @
        (if p_local p \<and> p_install_paths p = [] then [PipelineLocalNoInstall (p_name p)] else []) @
        (if p_homebrew_tap p \<noteq> [] \<and> p_artifact p \<noteq> artifact_binary
           then [PipelineTapNotBinary (p_name p)] else [])
      else
        (if p_artifact p \<noteq> artifact_package \<and> p_artifact p \<noteq> artifact_go_binary
           then [PipelinePackageArtifact (p_name p) (p_type p) (p_artifact p)] else []) @
        (if p_install_paths p \<noteq> [] then [PipelineInstallNotGo (p_name p)] else []) @
        (if p_homebrew_tap p \<noteq> [] then [PipelineTapNotGo (p_name p)] else [])) @
     map (PipelineDuplicateInstall (p_name p)) (duplicates (p_install_paths p)) @
     (if p_artifact p = artifact_go_binary then
        (if p_binary_pipeline p = [] then [PipelineNoBinary (p_name p)]
         else (case pipelines_by_name (m_pipelines m) (p_binary_pipeline p) of
             None \<Rightarrow> [PipelineUnknownBinary (p_name p) (p_binary_pipeline p)]
           | Some w \<Rightarrow> if p_type w \<noteq> target_go \<or> p_artifact w \<noteq> artifact_binary
                       then [PipelineNotGoBinary (p_name p) (p_binary_pipeline p)] else []))
      else if p_binary_pipeline p \<noteq> [] then [PipelineBinaryUnused (p_name p)] else [])"

definition check_depends_on :: "releasables \<Rightarrow> member \<Rightarrow> string \<Rightarrow> problem list" where
  "check_depends_on d m dep =
     (if dep = m_name m then [DependsOnItself]
      else if find_member d dep = None then [UnknownDependsOn dep] else [])"

definition check_member ::
  "releasables \<Rightarrow> member \<Rightarrow> (string \<rightharpoonup> string) \<Rightarrow> problem list \<times> (string \<rightharpoonup> string)" where
  "check_member d m owners =
     (let external = check_external d m owners (m_external_checks m) in
      ((if m_releasable m \<noteq> [] \<and> find_releasable d (m_releasable m) = None
          then [UnknownReleasable (m_releasable m) (map r_name (d_releasables d))] else []) @
       map DuplicateDependsOn (duplicates (m_depends_on m)) @
       concat (map (check_depends_on d m) (m_depends_on m)) @
       map DuplicateFloor (duplicates (m_internal_dep_floors m)) @
       map DuplicateLintAllow (duplicates (m_lint_allow m)) @
       concat (map (\<lambda>t. if t_path t \<noteq> [] then own_territory d m (TargetPathOf (t_name t)) (t_path t)
                        else []) (member_targets m)) @
       check_hooks (m_hooks m) (own_territory d m) @
       fst external @
       concat (map (check_pipeline m) (m_pipelines m)),
       snd external))"

text \<open>The loop over the members' names and paths; the state is the names and path owners seen.\<close>

record member_scan =
  ms_names :: "string list"
  ms_roots :: "string list"
  ms_paths :: "string \<rightharpoonup> string"

definition check_identity :: "member_scan \<Rightarrow> member \<Rightarrow> problem list" where
  "check_identity st m =
     (case path_problem (m_path m) of Some p \<Rightarrow> [BadMemberPath p] | None \<Rightarrow> []) @
     (case name_problem (m_name m) of Some p \<Rightarrow> [BadName p] | None \<Rightarrow> []) @
     (if m_name m \<in> set (ms_names st) then [NameTaken (m_name m)] else []) @
     (case ms_paths st (m_path m) of Some other \<Rightarrow> [PathTaken other (m_path m)] | None \<Rightarrow> []) @
     (if is_root m then (if m_name m \<noteq> root_name then [RootMisnamed (m_name m)] else [])
      else if m_name m = root_name then [NameReserved (m_path m) (m_name m)] else [])"

definition scan_next :: "member_scan \<Rightarrow> member \<Rightarrow> member_scan" where
  "scan_next st m =
     \<lparr>ms_names = ms_names st @ [m_name m],
      ms_roots = (if is_root m then ms_roots st @ [m_name m] else ms_roots st),
      ms_paths = (case ms_paths st (m_path m) of Some _ \<Rightarrow> ms_paths st
                  | None \<Rightarrow> (ms_paths st)(m_path m \<mapsto> m_name m))\<rparr>"

fun scan_members :: "nat \<Rightarrow> member_scan \<Rightarrow> member list \<Rightarrow> finding list \<times> member_scan" where
  "scan_members i st [] = ([], st)"
| "scan_members i st (m # ms) =
     (let rest = scan_members (Suc i) (scan_next st m) ms
      in (map (Pair (MemberLabel i (m_name m))) (check_identity st m) @ fst rest, snd rest))"

fun check_each_member ::
  "releasables \<Rightarrow> nat \<Rightarrow> (string \<rightharpoonup> string) \<Rightarrow> member list \<Rightarrow> finding list" where
  "check_each_member d i owners [] = []"
| "check_each_member d i owners (m # ms) =
     (let res = check_member d m owners
      in map (Pair (MemberLabel i (m_name m))) (fst res) @
         check_each_member d (Suc i) (snd res) ms)"

definition check_roots :: "releasables \<Rightarrow> string list \<Rightarrow> finding list" where
  "check_roots d roots =
     (if roots = [] \<and> d_members d \<noteq> [] then [(Document, NoRootMember)]
      else if length roots > 1 then [(Document, SeveralRoots roots)] else [])"

definition empty_scan :: member_scan where
  "empty_scan = \<lparr>ms_names = [], ms_roots = [], ms_paths = Map.empty\<rparr>"

definition check_members :: "releasables \<Rightarrow> finding list" where
  "check_members d =
     (let scan = scan_members 0 empty_scan (d_members d)
      in fst scan @ check_roots d (ms_roots (snd scan)) @
         check_each_member d 0 Map.empty (d_members d))"

definition releasable_pattern :: "releasable \<Rightarrow> string" where
  "releasable_pattern r = str_replace_all (r_tag_format r) ''{name}'' (r_name r)"

fun check_patterns :: "nat \<Rightarrow> (string \<rightharpoonup> string) \<Rightarrow> releasable list \<Rightarrow> finding list" where
  "check_patterns i seen [] = []"
| "check_patterns i seen (r # rs) =
     (case seen (releasable_pattern r) of
        Some other \<Rightarrow> (ReleasableLabel i (r_name r), PatternTaken (releasable_pattern r) other) #
                      check_patterns (Suc i) seen rs
      | None \<Rightarrow> check_patterns (Suc i) (seen(releasable_pattern r \<mapsto> r_name r)) rs)"

definition root_releasable :: "releasables \<Rightarrow> string" where
  "root_releasable d = (case member_at d root_path of Some m \<Rightarrow> m_releasable m | None \<Rightarrow> [])"

definition needs_pattern :: "releasables \<Rightarrow> releasable \<Rightarrow> bool" where
  "needs_pattern d r \<longleftrightarrow>
     d_layout d = LayoutWorkspace \<and> root_releasable d = r_name r \<and> r_publish_mode r = PublishCI"

definition releasable_hook_dir ::
  "releasables \<Rightarrow> releasable \<Rightarrow> owned_what \<Rightarrow> string \<Rightarrow> problem list" where
  "releasable_hook_dir d r what dir =
     (case path_problem dir of
        Some p \<Rightarrow> [BadOwnedPath what p]
      | None \<Rightarrow> (case member_for_path d dir of
          Some owner \<Rightarrow> if m_releasable owner \<noteq> r_name r
                        then [HookDirForeign what dir (m_name owner)] else []
        | None \<Rightarrow> []))"

fun check_deploy :: "nat \<Rightarrow> string list \<Rightarrow> problem list" where
  "check_deploy j [] = []"
| "check_deploy j (w # ws) = (if trim_space w = [] then [DeployWordEmpty j] else []) @ check_deploy (Suc j) ws"

definition check_releasable :: "releasables \<Rightarrow> releasable \<Rightarrow> problem list" where
  "check_releasable d r =
     (case name_problem (r_name r) of Some p \<Rightarrow> [BadName p] | None \<Rightarrow> []) @
     (case tag_format_problem (r_tag_format r) (r_name r) of Some p \<Rightarrow> [BadTagFormat p] | None \<Rightarrow> []) @
     (case r_publish_mode r of PublishOther _ \<Rightarrow> [BadPublishMode (r_publish_mode r)] | _ \<Rightarrow> []) @
     (if members_of d (r_name r) = [] then [NoMembers] else []) @
     (if needs_pattern d r \<and> r_check_pattern r = [] then [CheckPatternMissing]
      else if \<not> needs_pattern d r \<and> r_check_pattern r \<noteq> [] then [CheckPatternUnused] else []) @
     check_deploy 0 (r_deploy_command r) @
     check_hooks (r_hooks r) (releasable_hook_dir d r)"

fun check_each_releasable :: "releasables \<Rightarrow> nat \<Rightarrow> releasable list \<Rightarrow> finding list" where
  "check_each_releasable d i [] = []"
| "check_each_releasable d i (r # rs) =
     map (Pair (ReleasableLabel i (r_name r))) (check_releasable d r) @
     check_each_releasable d (Suc i) rs"

definition check_releasables :: "releasables \<Rightarrow> finding list" where
  "check_releasables d =
     check_patterns 0 Map.empty (d_releasables d) @ check_each_releasable d 0 (d_releasables d)"

definition check_layout :: "releasables \<Rightarrow> finding list" where
  "check_layout d =
     (if d_layout d \<noteq> LayoutStandalone then []
      else
        (if length (d_members d) \<noteq> 1 \<or> \<not> is_root (hd (d_members d))
           then [(Document, StandaloneMembers (map m_path (d_members d)))] else []) @
        (if length (d_releasables d) \<noteq> 1 then [(Document, StandaloneReleasables)] else []) @
        (if length (d_members d) = 1 \<and> is_root (hd (d_members d)) \<and> \<not> versioned (hd (d_members d))
           then [(Document, StandaloneRootUnversioned)] else []))"

definition check_declarations :: "releasables \<Rightarrow> finding list" where
  "check_declarations d =
     (case d_layout d of LayoutOther _ \<Rightarrow> [(Document, BadLayout (d_layout d))] | _ \<Rightarrow> []) @
     (if d_release_branches d = [] then [(Document, NoReleaseBranches)] else []) @
     map (\<lambda>b. (Document, DuplicateBranch b)) (duplicates (d_release_branches d)) @
     concat (map (\<lambda>b. case ref_name_problem b of Some p \<Rightarrow> [(Document, BadBranch b p)] | None \<Rightarrow> [])
       (d_release_branches d)) @
     check_members d @ check_releasables d @ check_layout d"

section \<open>What acceptance guarantees\<close>

lemma scan_members_empty:
  assumes "fst (scan_members i st ms) = []"
  shows "distinct (map m_name ms) \<and> set (map m_name ms) \<inter> set (ms_names st) = {} \<and>
         distinct (map m_path ms) \<and> set (map m_path ms) \<inter> dom (ms_paths st) = {} \<and>
         (\<forall>m \<in> set ms. is_canonical (m_path m) \<and> name_problem (m_name m) = None \<and>
            (is_root m \<longleftrightarrow> m_name m = root_name)) \<and>
         ms_roots (snd (scan_members i st ms)) = ms_roots st @ map m_name (filter is_root ms)"
  using assms
proof (induction ms arbitrary: i st)
  case Nil
  then show ?case by simp
next
  case (Cons m ms)
  have id: "check_identity st m = []" and rest: "fst (scan_members (Suc i) (scan_next st m) ms) = []"
    using Cons.prems by (simp_all add: Let_def)
  note ih = Cons.IH [OF rest]
  from id have "m_name m \<notin> set (ms_names st)" "ms_paths st (m_path m) = None"
    "path_problem (m_path m) = None" "name_problem (m_name m) = None"
    "is_root m \<longleftrightarrow> m_name m = root_name"
    by (auto simp: check_identity_def split: option.splits if_splits)
  moreover from this have "ms_names (scan_next st m) = ms_names st @ [m_name m]"
    "ms_paths (scan_next st m) = (ms_paths st)(m_path m \<mapsto> m_name m)"
    "ms_roots (scan_next st m) = ms_roots st @ (if is_root m then [m_name m] else [])"
    by (simp_all add: scan_next_def)
  ultimately show ?case
    using ih by (auto simp: Let_def path_problem_None_iff)
qed

lemma check_declarations_parts:
  assumes "check_declarations d = []"
  shows "check_members d = []" "check_releasables d = []" "check_layout d = []"
    "\<And>b. b \<in> set (d_release_branches d) \<Longrightarrow> ref_name_problem b = None"
  using assms by (auto simp: check_declarations_def split: option.splits)

lemma duplicates_Nil_iff: "duplicates xs = [] \<longleftrightarrow> distinct xs"
proof -
  have "duplicates xs = [] \<longleftrightarrow> (\<forall>v \<in> set xs. count_list xs v \<le> 1)"
    by (auto simp: duplicates_def filter_empty_conv not_less)
  also have "\<dots> \<longleftrightarrow> distinct xs"
  proof -
    have ge: "1 \<le> count_list xs v" if "v \<in> set xs" for v
      using that count_list_0_iff [of xs v] by linarith
    show ?thesis
    proof
      assume le: "\<forall>v \<in> set xs. count_list xs v \<le> 1"
      show "distinct xs"
        unfolding distinct_count_atmost_1 count_mset
      proof
        fix v
        show "count_list xs v = (if v \<in> set xs then 1 else 0)"
          using ge [of v] le by (cases "v \<in> set xs") (auto intro: le_antisym)
      qed
    next
      assume "distinct xs"
      then show "\<forall>v \<in> set xs. count_list xs v \<le> 1"
        unfolding distinct_count_atmost_1 count_mset by simp
    qed
  qed
  finally show ?thesis .
qed

text \<open>The declared identities of an accepted file.\<close>

definition identities_ok :: "releasables \<Rightarrow> bool" where
  "identities_ok d \<longleftrightarrow>
     distinct (map m_name (d_members d)) \<and> distinct (map m_path (d_members d)) \<and>
     (\<forall>m \<in> set (d_members d). is_canonical (m_path m) \<and> name_problem (m_name m) = None \<and>
        (is_root m \<longleftrightarrow> m_name m = root_name)) \<and>
     (d_members d = [] \<or> (\<exists>r \<in> set (d_members d). is_root r))"

lemma check_members_identities: "check_members d = [] \<Longrightarrow> identities_ok d"
proof -
  assume c: "check_members d = []"
  then have scan: "fst (scan_members 0 empty_scan (d_members d)) = []"
    and roots: "check_roots d (ms_roots (snd (scan_members 0 empty_scan (d_members d)))) = []"
    by (simp_all add: check_members_def Let_def)
  note s = scan_members_empty [OF scan]
  then have "ms_roots (snd (scan_members 0 empty_scan (d_members d))) = map m_name (filter is_root (d_members d))"
    by (simp add: empty_scan_def)
  with roots have "d_members d = [] \<or> filter is_root (d_members d) \<noteq> []"
    by (auto simp: check_roots_def split: if_splits)
  with s show ?thesis by (auto simp: identities_ok_def filter_empty_conv)
qed

lemma check_each_member_Nil:
  "check_each_member d i owners ms = [] \<Longrightarrow> m \<in> set ms \<Longrightarrow> \<exists>owners'. fst (check_member d m owners') = []"
  by (induction d i owners ms rule: check_each_member.induct) (auto simp: Let_def)

lemma check_each_releasable_Nil:
  "check_each_releasable d i rs = [] \<Longrightarrow> r \<in> set rs \<Longrightarrow> check_releasable d r = []"
  by (induction d i rs rule: check_each_releasable.induct) auto

lemma check_patterns_Nil:
  "check_patterns i seen rs = [] \<Longrightarrow>
     distinct (map releasable_pattern rs) \<and> set (map releasable_pattern rs) \<inter> dom seen = {}"
  by (induction i seen rs rule: check_patterns.induct) (auto split: option.splits)

text \<open>
  In declarations the rules accept, members have distinct names and paths, every path is
  canonical and every name usable, and there is one root member: the member with the root path,
  which is the one member named root.
\<close>

theorem accepted_identities:
  assumes "check_declarations d = []"
  shows "identities_ok d \<and> length (filter is_root (d_members d)) \<le> 1"
proof -
  have ok: "identities_ok d"
    using check_members_identities check_declarations_parts [OF assms] by blast
  have "length (filter is_root (d_members d)) = length (filter (\<lambda>p. p = root_path) (map m_path (d_members d)))"
    by (simp add: filter_map comp_def is_root_def [abs_def])
  also have "\<dots> \<le> 1"
    using ok distinct_length_filter [of "map m_path (d_members d)" "\<lambda>p. p = root_path"]
    by (simp add: identities_ok_def card_le_Suc0_iff_eq)
  finally show ?thesis using ok by blast
qed

lemma accepted_depends_on:
  assumes "check_declarations d = []" and "m \<in> set (d_members d)" and "dep \<in> set (m_depends_on m)"
  shows "dep \<noteq> m_name m" "find_member d dep \<noteq> None"
proof -
  from check_declarations_parts(1) [OF assms(1)] have "check_each_member d 0 Map.empty (d_members d) = []"
    by (simp add: check_members_def Let_def)
  from check_each_member_Nil [OF this assms(2)] obtain owners where c: "fst (check_member d m owners) = []" ..
  with assms(3) have "check_depends_on d m dep = []"
    by (simp add: check_member_def Let_def)
  then show "dep \<noteq> m_name m" "find_member d dep \<noteq> None"
    by (auto simp: check_depends_on_def split: if_splits)
qed

text \<open>
  In accepted declarations every reference resolves: a member's releasable is declared, what
  it depends on is another declared member named once, every releasable versions a member, a
  valid tag format of its own renders its tags, and two releasables never share a tag pattern.
\<close>

theorem accepted_references:
  assumes "check_declarations d = []"
  shows "(\<forall>m \<in> set (d_members d).
            (m_releasable m = [] \<or> find_releasable d (m_releasable m) \<noteq> None) \<and>
            distinct (m_depends_on m) \<and>
            (\<forall>dep \<in> set (m_depends_on m). dep \<noteq> m_name m \<and> find_member d dep \<noteq> None)) \<and>
         (\<forall>r \<in> set (d_releasables d).
            members_of d (r_name r) \<noteq> [] \<and> tag_format_problem (r_tag_format r) (r_name r) = None) \<and>
         distinct (map releasable_pattern (d_releasables d))"
proof (intro conjI ballI)
  note parts = check_declarations_parts [OF assms]
  fix m assume m: "m \<in> set (d_members d)"
  from parts(1) have "check_each_member d 0 Map.empty (d_members d) = []"
    by (simp add: check_members_def Let_def)
  from check_each_member_Nil [OF this m] obtain owners where c: "fst (check_member d m owners) = []" ..
  then show "m_releasable m = [] \<or> find_releasable d (m_releasable m) \<noteq> None"
    by (auto simp: check_member_def Let_def split: if_splits)
  from c show "distinct (m_depends_on m)"
    by (simp add: check_member_def Let_def duplicates_Nil_iff)
  fix dep assume "dep \<in> set (m_depends_on m)"
  with accepted_depends_on [OF assms m] show "dep \<noteq> m_name m" "find_member d dep \<noteq> None" by simp_all
next
  note parts = check_declarations_parts [OF assms]
  fix r assume "r \<in> set (d_releasables d)"
  with parts(2) have c: "check_releasable d r = []"
    by (auto simp: check_releasables_def intro: check_each_releasable_Nil)
  show "members_of d (r_name r) \<noteq> []"
    using c by (auto simp: check_releasable_def split: if_splits)
  show "tag_format_problem (r_tag_format r) (r_name r) = None"
    using c by (auto simp: check_releasable_def split: option.splits)
next
  show "distinct (map releasable_pattern (d_releasables d))"
    using check_declarations_parts(2) [OF assms] check_patterns_Nil
    by (auto simp: check_releasables_def)
qed

text \<open>
  C1. In accepted declarations with a member, every path has exactly one owner, the deepest
  member whose territory holds it: any other member claiming the path is an ancestor directory.
\<close>

theorem accepted_ownership:
  assumes "check_declarations d = []" and "d_members d \<noteq> []"
  shows "\<exists>m \<in> set (d_members d). member_for_path d p = Some m \<and> claims_path m p \<and>
           (\<forall>c \<in> set (d_members d). claims_path c p \<longrightarrow> c = m \<or>
              (is_inside (m_path m) (m_path c) \<and> m_path c \<noteq> m_path m))"
proof -
  have ok: "identities_ok d"
    using check_members_identities check_declarations_parts [OF assms(1)] by blast
  then obtain r where "r \<in> set (d_members d)" "is_root r"
    using assms(2) by (auto simp: identities_ok_def)
  then obtain m where m: "member_for_path d p = Some m"
    using member_for_path_root by blast
  have nonempty: "m_path c \<noteq> []" if "c \<in> set (d_members d)" for c
    using ok that by (auto simp: identities_ok_def is_canonical_def plain_segment_def)
  have same: "c = m" if "c \<in> set (d_members d)" "m_path c = m_path m" for c
    using ok that member_for_path_SomeD(1) [OF m]
    by (auto simp: identities_ok_def distinct_map inj_on_def)
  show ?thesis
    using m member_for_path_SomeD [OF m] member_for_path_deepest [OF m nonempty] same by blast
qed

section \<open>A concrete workspace\<close>

text \<open>
  A workspace the witnesses evaluate on: a root member with a nested member, each versioned
  under a releasable of its own, the nested one also depended on by the root.
\<close>

definition no_hooks :: hooks where
  "no_hooks = \<lparr>pre_checks = [], pre_release = [], post_release = []\<rparr>"

definition sample_member :: "string \<Rightarrow> string \<Rightarrow> string \<Rightarrow> string list \<Rightarrow> member" where
  "sample_member path name rel deps =
     \<lparr>m_path = path, m_name = name, m_releasable = rel, m_dev_only = False, m_library = False,
      m_test_only = False, m_depends_on = deps, m_import_name = [], m_registry_name = [],
      m_description = [], m_lint_allow = [], m_internal_dep_floors = [],
      m_targets = Some [\<lparr>t_name = target_go, t_path = []\<rparr>], m_hooks = no_hooks,
      m_external_checks = [], m_test = \<lparr>ts_pypi_markers = [], ts_go_command = []\<rparr>,
      m_pipelines = []\<rparr>"

definition sample_releasable :: "string \<Rightarrow> string \<Rightarrow> releasable" where
  "sample_releasable name format =
     \<lparr>r_name = name, r_tag_format = format, r_publish_mode = PublishNone, r_check_pattern = [],
      r_deploy_command = [], r_hooks = no_hooks\<rparr>"

definition sample_workspace :: releasables where
  "sample_workspace =
     \<lparr>d_layout = LayoutWorkspace, d_release_branches = [''main''], d_github_repository = [],
      d_environment_file = [],
      d_timeouts = \<lparr>push_seconds = 0, ci_seconds = 0, check_seconds = 0, hook_seconds = 0\<rparr>,
      d_releasables = [sample_releasable ''app'' ''v{version}'', sample_releasable ''lib'' ''{name}@v{version}''],
      d_members = [sample_member ''.'' ''root'' ''app'' [''lib''], sample_member ''lib'' ''lib'' ''lib'' []]\<rparr>"

lemma sample_workspace_accepted: "check_declarations sample_workspace = []"
  by code_simp

theorem accepted_identities_witness:
  "identities_ok sample_workspace \<and> length (filter is_root (d_members sample_workspace)) \<le> 1"
  by (rule accepted_identities [OF sample_workspace_accepted])

theorem accepted_references_witness:
  "check_declarations sample_workspace = [] \<and> distinct (map releasable_pattern (d_releasables sample_workspace))"
  using accepted_references [OF sample_workspace_accepted] sample_workspace_accepted by blast

theorem accepted_ownership_witness:
  "\<exists>m \<in> set (d_members sample_workspace). member_for_path sample_workspace ''lib/a.go'' = Some m \<and>
     claims_path m ''lib/a.go''"
proof -
  have "d_members sample_workspace \<noteq> []" by (simp add: sample_workspace_def)
  from accepted_ownership [OF sample_workspace_accepted this, of "''lib/a.go''"] show ?thesis by blast
qed

end
