(* ===== verification/Semver.thy ===== *)
theory Semver
  imports Go_Strings "HOL-Library.Word"
begin

text \<open>
  internal/semver/semver.go: release versions, their parsing, printing, ordering and bumps.
  A component is a Go uint64, modelled as a \<open>64 word\<close>; a bump is a Go string type, kept as a
  string because an undeclared word is a case the code handles.
\<close>

section \<open>Versions\<close>

datatype version = Version (major: "64 word") (minor: "64 word") (patch: "64 word")

instantiation version :: linorder
begin

definition less_eq_version :: "version \<Rightarrow> version \<Rightarrow> bool" where
  "less_eq_version a b \<longleftrightarrow>
     major a < major b \<or>
     (major a = major b \<and> (minor a < minor b \<or> (minor a = minor b \<and> patch a \<le> patch b)))"

definition less_version :: "version \<Rightarrow> version \<Rightarrow> bool" where
  "less_version a b \<longleftrightarrow>
     major a < major b \<or>
     (major a = major b \<and> (minor a < minor b \<or> (minor a = minor b \<and> patch a < patch b)))"

instance
proof
  fix x y z :: version
  show "x < y \<longleftrightarrow> x \<le> y \<and> \<not> y \<le> x"
    by (auto simp: less_eq_version_def less_version_def)
  show "x \<le> x"
    by (simp add: less_eq_version_def)
  show "x \<le> z" if "x \<le> y" "y \<le> z"
    using that by (auto simp: less_eq_version_def)
  show "x = y" if "x \<le> y" "y \<le> x"
    using that by (auto simp: less_eq_version_def intro: version.expand)
  show "x \<le> y \<or> y \<le> x"
    by (auto simp: less_eq_version_def)
qed

end

text \<open>The number a component holds, as fmt's %d prints it.\<close>

definition word_dec :: "64 word \<Rightarrow> string" where
  "word_dec w = dec_of_nat (unat w)"

definition version_string :: "version \<Rightarrow> string" where
  "version_string v = join ''.'' [word_dec (major v), word_dec (minor v), word_dec (patch v)]"

section \<open>Parsing\<close>

datatype component_error =
    EmptyComponent
  | NotDecimal string
  | LeadingZero string
  | TooLarge string

datatype parse_error =
    PreReleaseSuffix string
  | BuildMetadata string
  | NotThreeComponents string
  | BadComponent string component_error

definition component :: "string \<Rightarrow> (component_error, 64 word) result" where
  "component p =
     (if p = [] then Inl EmptyComponent
      else if \<exists>r \<in> set p. r < CHR ''0'' \<or> r > CHR ''9'' then Inl (NotDecimal p)
      else if length p > 1 \<and> p ! 0 = CHR ''0'' then Inl (LeadingZero p)
      else if nat_of_dec p < 2 ^ 64 then Inr (of_nat (nat_of_dec p))
      else Inl (TooLarge p))"

fun parse_components :: "string \<Rightarrow> string list \<Rightarrow> (parse_error, 64 word list) result" where
  "parse_components s [] = Inr []"
| "parse_components s (p # ps) =
     (case component p of
        Inl e \<Rightarrow> Inl (BadComponent s e)
      | Inr n \<Rightarrow> rbind (parse_components s ps) (\<lambda>ns. Inr (n # ns)))"

definition parse_version :: "string \<Rightarrow> (parse_error, version) result" where
  "parse_version s =
     (case index_any s ''-+'' of
        Some i \<Rightarrow> Inl (if s ! i = CHR ''+'' then BuildMetadata s else PreReleaseSuffix s)
      | None \<Rightarrow>
          (let parts = split_on CHR ''.'' s
           in if length parts \<noteq> 3 then Inl (NotThreeComponents s)
              else rbind (parse_components s parts)
                     (\<lambda>nums. Inr (Version (nums ! 0) (nums ! 1) (nums ! 2)))))"

definition valid_version :: "string \<Rightarrow> bool" where
  "valid_version s \<longleftrightarrow> (case parse_version s of Inl _ \<Rightarrow> False | Inr _ \<Rightarrow> True)"

section \<open>Ordering\<close>

fun compare_pairs :: "(64 word \<times> 64 word) list \<Rightarrow> int" where
  "compare_pairs [] = 0"
| "compare_pairs ((x, y) # ps) = (if x < y then -1 else if x > y then 1 else compare_pairs ps)"

definition compare_versions :: "version \<Rightarrow> version \<Rightarrow> int" where
  "compare_versions a b =
     compare_pairs [(major a, major b), (minor a, minor b), (patch a, patch b)]"

definition sort_versions :: "version list \<Rightarrow> version list" where
  "sort_versions vs = sort_by (\<lambda>a b. compare_versions a b < 0) vs"

text \<open>The zero value a Go variable of the type starts with.\<close>

definition zero_version :: version where
  "zero_version = Version 0 0 0"

fun highest_loop :: "bool \<Rightarrow> version \<Rightarrow> version list \<Rightarrow> version" where
  "highest_loop first highest [] = highest"
| "highest_loop first highest (v # vs) =
     highest_loop False (if first \<or> compare_versions v highest > 0 then v else highest) vs"

definition highest_version :: "version list \<Rightarrow> version \<times> bool" where
  "highest_version vs = (highest_loop True zero_version vs, vs \<noteq> [])"

section \<open>Bumps\<close>

type_synonym bump = string

definition bump_patch :: bump where "bump_patch = ''patch''"
definition bump_minor :: bump where "bump_minor = ''minor''"
definition bump_major :: bump where "bump_major = ''major''"
definition bump_infra :: bump where "bump_infra = ''infra''"

definition all_bumps :: "bump list" where
  "all_bumps = [bump_patch, bump_minor, bump_major, bump_infra]"

lemmas bump_defs = bump_patch_def bump_minor_def bump_major_def bump_infra_def all_bumps_def

datatype bump_error =
    PreReleaseBump string
  | UnknownBump string
  | ComponentFull bump version string

definition parse_bump :: "string \<Rightarrow> (bump_error, bump) result" where
  "parse_bump s =
     (case List.find (\<lambda>b. s = b) all_bumps of
        Some b \<Rightarrow> Inr b
      | None \<Rightarrow> if s = ''prerelease'' then Inl (PreReleaseBump s) else Inl (UnknownBump s))"

definition increment :: "bump \<Rightarrow> version \<Rightarrow> 64 word \<Rightarrow> string \<Rightarrow> (bump_error, 64 word) result" where
  "increment b v n name = (if n = - 1 then Inl (ComponentFull b v name) else Inr (n + 1))"

definition bump_version :: "version \<Rightarrow> bump \<Rightarrow> (bump_error, version) result" where
  "bump_version v b =
     (if b = bump_major then
        rbind (increment b v (major v) ''major'') (\<lambda>n. Inr (Version n 0 0))
      else if b = bump_minor then
        rbind (increment b v (minor v) ''minor'') (\<lambda>n. Inr (Version (major v) n 0))
      else if b = bump_patch \<or> b = bump_infra then
        rbind (increment b v (patch v) ''patch'') (\<lambda>n. Inr (Version (major v) (minor v) n))
      else (case parse_bump b of Inl e \<Rightarrow> Inl e | Inr _ \<Rightarrow> Inr zero_version))"

section \<open>Printing and parsing agree\<close>

lemma digit_range_iff: "\<not> (r < CHR ''0'' \<or> r > CHR ''9'') \<longleftrightarrow> is_digit r"
  by (auto simp: less_char_def is_digit_def)

lemma component_iff: "component p = Inr n \<longleftrightarrow> p = word_dec n"
proof
  assume c: "component p = Inr n"
  then have p: "p \<noteq> []" "\<forall>r \<in> set p. is_digit r" "length p \<le> 1 \<or> p ! 0 \<noteq> CHR ''0''"
    "nat_of_dec p < 2 ^ 64" "n = of_nat (nat_of_dec p)"
    by (auto simp: component_def digit_range_iff [symmetric] split: if_splits)
  from p(1,3) have "length p = 1 \<or> hd p \<noteq> CHR ''0''"
    by (cases p) (auto simp: hd_conv_nth)
  with p(1,2) have "dec_of_nat (nat_of_dec p) = p"
    by (intro dec_of_nat_of_dec)
  moreover have "unat n = nat_of_dec p"
    using p(4,5) by (simp add: unat_of_nat take_bit_nat_eq_self)
  ultimately show "p = word_dec n"
    by (simp add: word_dec_def)
next
  assume p: "p = word_dec n"
  have "\<forall>r \<in> set p. \<not> (r < CHR ''0'' \<or> r > CHR ''9'')"
    unfolding digit_range_iff p word_dec_def by (rule dec_of_nat_digits)
  moreover have "p \<noteq> []" "nat_of_dec p = unat n"
    by (simp_all add: p word_dec_def)
  moreover have "\<not> (length p > 1 \<and> p ! 0 = CHR ''0'')"
    using dec_of_nat_no_leading_zero [of "unat n"]
    by (auto simp: p word_dec_def hd_conv_nth)
  moreover have "unat n < 2 ^ 64"
    using unsigned_less [of n, where 'a = nat] by simp
  ultimately show "component p = Inr n"
    by (simp add: component_def)
qed

lemma component_word_dec [simp]: "component (word_dec n) = Inr n"
  by (simp add: component_iff)

lemma parse_components_iff:
  "parse_components s ps = Inr ns \<longleftrightarrow> ps = map word_dec ns"
proof (induction ps arbitrary: ns)
  case Nil
  then show ?case by auto
next
  case (Cons p ps)
  show ?case
  proof (cases "component p")
    case (Inl e)
    then have "p \<noteq> word_dec n" for n by auto
    with Inl show ?thesis by (cases ns) auto
  next
    case (Inr n)
    then have "p = word_dec n" by (simp add: component_iff)
    moreover have "word_dec n = word_dec m \<longleftrightarrow> n = m" for m
      by (metis component_word_dec sum.inject(2))
    ultimately show ?thesis using Cons Inr
      by (cases ns) (auto simp: rbind_eq_Inr)
  qed
qed

lemma word_dec_no_special [simp]:
  "CHR ''.'' \<notin> set (word_dec w)" "CHR ''-'' \<notin> set (word_dec w)" "CHR ''+'' \<notin> set (word_dec w)"
  using dec_of_nat_digits [of "unat w"] by (auto simp: word_dec_def is_digit_def)

lemma split_version_string:
  "split_on CHR ''.'' (version_string v) = [word_dec (major v), word_dec (minor v), word_dec (patch v)]"
  unfolding version_string_def by (rule split_on_join) auto

lemma version_string_no_suffix: "index_any (version_string v) ''-+'' = None"
proof -
  have "\<not> contains_any (version_string v) ''-+''"
    by (auto simp: contains_any_def version_string_def)
  then show ?thesis by (simp add: index_any_None_iff)
qed

lemma parse_version_string [simp]: "parse_version (version_string v) = Inr v"
proof -
  have "parse_components s [word_dec (major v), word_dec (minor v), word_dec (patch v)]
      = Inr [major v, minor v, patch v]" for s
    by (simp add: parse_components_iff del: parse_components.simps)
  then show ?thesis
    by (simp add: parse_version_def version_string_no_suffix split_version_string
        del: parse_components.simps)
qed

lemma parse_version_InrD: "parse_version s = Inr v \<Longrightarrow> s = version_string v"
proof -
  let ?parts = "split_on CHR ''.'' s"
  assume "parse_version s = Inr v"
  then obtain nums where len: "length ?parts = 3" and
    ps: "parse_components s ?parts = Inr nums" and
    v: "v = Version (nums ! 0) (nums ! 1) (nums ! 2)"
    by (auto simp: parse_version_def Let_def rbind_eq_Inr split: option.splits if_splits)
  from ps have parts: "?parts = map word_dec nums"
    by (simp add: parse_components_iff)
  with len have "length nums = 3" by simp
  then obtain a b c where nums: "nums = [a, b, c]"
    by (auto simp: length_Suc_conv numeral_3_eq_3)
  have "s = join ''.'' ?parts"
    by (simp add: join_split_on)
  then show ?thesis
    unfolding parts by (simp add: nums v version_string_def)
qed

lemma version_string_inject [simp]: "version_string v = version_string w \<longleftrightarrow> v = w"
  by (metis parse_version_string sum.inject(2))

text \<open>
  A text parses as a version exactly when it is the version's own rendering: the parser
  accepts no second spelling (no prefix, leading zero, suffix or white space) and refuses no
  version the program prints.
\<close>

theorem parse_version_iff: "parse_version s = Inr v \<longleftrightarrow> s = version_string v"
  using parse_version_InrD by auto

section \<open>The order of versions\<close>

lemma compare_versions_spec:
  "compare_versions a b = (if a < b then -1 else if a = b then 0 else 1)"
  by (auto simp: compare_versions_def less_version_def version.expand
      intro: version.expand)

lemma compare_versions_less [simp]:
  "compare_versions a b < 0 \<longleftrightarrow> a < b" "0 < compare_versions a b \<longleftrightarrow> b < a"
  "compare_versions a b = 0 \<longleftrightarrow> a = b"
  by (auto simp: compare_versions_spec)

lemma sort_versions_eq: "sort_versions vs = sort vs"
  by (simp add: sort_versions_def sort_by_less_eq_sort)

lemma highest_loop_False:
  "highest_loop False h vs \<in> insert h (set vs) \<and> (\<forall>v \<in> insert h (set vs). v \<le> highest_loop False h vs)"
proof (induction vs arbitrary: h)
  case Nil
  then show ?case by simp
next
  case (Cons v vs)
  let ?h = "if compare_versions v h > 0 then v else h"
  have "?h \<in> {v, h}" "v \<le> ?h" "h \<le> ?h" by auto
  moreover have "highest_loop False h (v # vs) = highest_loop False ?h vs" by simp
  ultimately show ?case using Cons.IH [of ?h] by (auto intro: order.trans)
qed

lemma highest_version_Cons:
  "highest_version (v # vs) = (highest_loop False v vs, True)"
  by (simp add: highest_version_def)

text \<open>
  The highest of a list of versions: the answer is marked missing exactly for the empty
  list, and otherwise it is the maximum of the list's elements, whatever their order and
  whatever their components (the zero value the loop starts from never leaks).
\<close>

theorem highest_version_Max:
  "highest_version vs = (if vs = [] then (zero_version, False) else (Max (set vs), True))"
proof (cases vs)
  case Nil
  then show ?thesis by (simp add: highest_version_def)
next
  case (Cons w ws)
  have "highest_loop False w ws = Max (set vs)"
    by (rule Max_eqI [symmetric]) (use highest_loop_False [of w ws] Cons in auto)
  with Cons show ?thesis by (simp add: highest_version_Cons)
qed

section \<open>Bumps move the version up\<close>

lemma parse_bump_Inr_iff: "parse_bump s = Inr b \<longleftrightarrow> s \<in> set all_bumps \<and> b = s"
  by (auto simp: parse_bump_def bump_defs)

lemma all_bumps_set: "set all_bumps = {bump_patch, bump_minor, bump_major, bump_infra}"
  by (simp add: all_bumps_def)

lemma bump_distinct [simp]: "distinct all_bumps"
  by (simp add: bump_defs)

lemma word_Suc_greater: "n \<noteq> - 1 \<Longrightarrow> (n :: 64 word) < n + 1"
  using inc_less_eq_self_iff_eq [of n] by simp

lemma word_Suc_least: "n \<noteq> - 1 \<Longrightarrow> (n :: 64 word) < m \<Longrightarrow> n + 1 \<le> m"
  by (simp add: inc_le)

lemma bump_version_cases:
  assumes "bump_version v b = Inr w"
  obtains (Major) "b = bump_major" "major v \<noteq> - 1" "w = Version (major v + 1) 0 0"
  | (Minor) "b = bump_minor" "minor v \<noteq> - 1" "w = Version (major v) (minor v + 1) 0"
  | (Patch) "b = bump_patch \<or> b = bump_infra" "patch v \<noteq> - 1"
      "w = Version (major v) (minor v) (patch v + 1)"
  using assms
  by (auto simp: bump_version_def increment_def rbind_eq_Inr parse_bump_Inr_iff all_bumps_set
      split: if_splits sum.splits)

lemma bump_version_greater: "bump_version v b = Inr w \<Longrightarrow> v < w"
  by (erule bump_version_cases) (simp_all add: less_version_def word_Suc_greater)

lemma bump_version_known: "bump_version v b = Inr w \<Longrightarrow> b \<in> set all_bumps"
  by (erule bump_version_cases) (auto simp: all_bumps_set)

text \<open>
  The versions a bump of \<open>v\<close> skips over: those of the line the bump leaves (the same major
  version for a major bump, the same major and minor for a minor one, none for a patch).
\<close>

definition same_line :: "bump \<Rightarrow> version \<Rightarrow> version \<Rightarrow> bool" where
  "same_line b v u \<longleftrightarrow>
     (if b = bump_major then major u = major v
      else if b = bump_minor then major u = major v \<and> minor u = minor v
      else False)"

text \<open>
  A bump gives the least version above the current one that is off the line the bump
  leaves: it is higher, it is off the line, and every other version above is on the line or
  at least as high. In particular the lower components are reset and nothing wraps around.
\<close>

theorem bump_version_least:
  assumes "bump_version v b = Inr w"
  shows "v < w \<and> \<not> same_line b v w \<and> (\<forall>u. u \<le> v \<or> same_line b v u \<or> w \<le> u)"
proof -
  have "w \<le> u" if "v < u" "\<not> same_line b v u" for u
    using assms
  proof (cases rule: bump_version_cases)
    case Major
    with that have "major v < major u" by (auto simp: same_line_def less_version_def)
    then have "major v + 1 \<le> major u" by (rule word_Suc_least [OF Major(2)])
    with Major show ?thesis by (auto simp: less_eq_version_def le_less word_gt_0)
  next
    case Minor
    with that have "major v < major u \<or> (major v = major u \<and> minor v < minor u)"
      by (auto simp: same_line_def less_version_def bump_defs)
    then have "major v < major u \<or> (major v = major u \<and> minor v + 1 \<le> minor u)"
      using word_Suc_least [OF Minor(2)] by blast
    with Minor show ?thesis by (auto simp: less_eq_version_def le_less word_gt_0)
  next
    case Patch
    with that have "major v < major u \<or> (major v = major u \<and> (minor v < minor u \<or>
        (minor v = minor u \<and> patch v + 1 \<le> patch u)))"
      using word_Suc_least [OF Patch(2)] by (auto simp: less_version_def)
    with Patch show ?thesis by (auto simp: less_eq_version_def)
  qed
  moreover have "\<not> same_line b v w"
    using assms
    by (cases rule: bump_version_cases)
      (use inc_less_eq_self_iff_eq [of "major v"] inc_less_eq_self_iff_eq [of "minor v"] in
        \<open>auto simp: same_line_def bump_defs\<close>)
  ultimately show ?thesis
    using bump_version_greater [OF assms] by (meson not_le)
qed

theorem bump_version_least_witness:
  "bump_version (Version 1 2 3) bump_minor = Inr (Version 1 3 0) \<and>
   Version 1 2 3 < Version 1 3 0 \<and> \<not> same_line bump_minor (Version 1 2 3) (Version 1 3 0)"
proof -
  have "bump_version (Version 1 2 3) bump_minor = Inr (Version 1 3 0)"
    by (simp add: bump_version_def increment_def bump_defs)
  then show ?thesis using bump_version_least by blast
qed

text \<open>
  A bump is refused exactly for a word that declares no bump, with the reason the parser
  of declared bumps gives, and for a component already at the largest 64-bit value, naming it.
\<close>

theorem bump_version_refused_iff:
  "bump_version v b = Inl e \<longleftrightarrow>
     parse_bump b = Inl e \<or>
     (b = bump_major \<and> major v = - 1 \<and> e = ComponentFull b v ''major'') \<or>
     (b = bump_minor \<and> minor v = - 1 \<and> e = ComponentFull b v ''minor'') \<or>
     (b \<in> {bump_patch, bump_infra} \<and> patch v = - 1 \<and> e = ComponentFull b v ''patch'')"
proof (cases "b \<in> set all_bumps")
  case True
  then have "parse_bump b = Inr b" by (simp add: parse_bump_Inr_iff)
  with True show ?thesis
    by (auto simp: all_bumps_set bump_version_def increment_def bump_defs)
next
  case False
  then obtain d where d: "parse_bump b = Inl d"
    by (cases "parse_bump b") (auto simp: parse_bump_Inr_iff)
  with False show ?thesis
    by (auto simp: all_bumps_set bump_version_def)
qed

end
