(* ===== verification/Codecs.thy ===== *)
theory Codecs
  imports Semver
begin

text \<open>
  The contract between a value and its text: a reader that accepts exactly the renderings.
  Version numbers have it, and it passes to every text that holds a version between a fixed
  prefix and a fixed suffix: release tags, archive file names, changelog file names. The
  components that file versions under names prove their lemmas in the locale once.
\<close>

section \<open>The contract\<close>

locale text_codec =
  fixes enc :: "'v \<Rightarrow> string"
    and dec :: "string \<Rightarrow> 'v option"
  assumes dec_iff: "dec s = Some v \<longleftrightarrow> s = enc v"
begin

lemma dec_enc [simp]: "dec (enc v) = Some v"
  by (simp add: dec_iff)

lemma enc_inject: "enc v = enc w \<longleftrightarrow> v = w"
  by (metis dec_enc option.inject)

lemma dec_inject: "dec s = Some v \<Longrightarrow> dec t = Some v \<Longrightarrow> s = t"
  by (simp add: dec_iff)

lemma dec_None_iff: "dec s = None \<longleftrightarrow> s \<notin> range enc"
  by (metis dec_iff not_None_eq rangeE rangeI)

lemma map_filter_dec_map_enc: "List.map_filter dec (map enc vs) = vs"
  by (induction vs) (simp_all add: List.map_filter_simps)

lemma set_map_filter_dec: "set (List.map_filter dec ss) = {v. enc v \<in> set ss}"
  by (induction ss) (auto simp: List.map_filter_simps dec_iff enc_inject split: option.splits)

lemma length_map_filter_dec: "length (List.map_filter dec ss) = length (filter (\<lambda>s. s \<in> range enc) ss)"
proof (induction ss)
  case (Cons s ss)
  show ?case
  proof (cases "dec s")
    case None
    with Cons show ?thesis
      by (simp add: List.map_filter_simps dec_None_iff [symmetric] del: image_eqI)
  next
    case (Some v)
    with Cons show ?thesis by (simp add: List.map_filter_simps dec_iff)
  qed
qed (simp add: List.map_filter_simps)

lemma distinct_map_filter_dec: "distinct ss \<Longrightarrow> distinct (List.map_filter dec ss)"
  by (induction ss)
    (auto simp: List.map_filter_simps set_map_filter_dec dec_iff split: option.splits)

end

text \<open>A value between a fixed prefix and a fixed suffix, as Go's CutPrefix and CutSuffix read it.\<close>

definition affix_dec :: "string \<Rightarrow> string \<Rightarrow> (string \<Rightarrow> 'v option) \<Rightarrow> string \<Rightarrow> 'v option" where
  "affix_dec p q dec s =
     (if \<not> has_prefix s p \<or> \<not> has_suffix s q \<or> length s < length p + length q then None
      else dec (take (length s - length q - length p) (drop (length p) s)))"

lemma affix_split_iff:
  "has_prefix s p \<and> has_suffix s q \<and> length p + length q \<le> length s \<longleftrightarrow> (\<exists>t. s = p @ t @ q)"
proof (intro iffI conjI; (elim conjE exE)?)
  assume p: "has_prefix s p" and q: "has_suffix s q" and len: "length p + length q \<le> length s"
  obtain t where t: "s = p @ t" using p by (auto simp: has_prefix_iff)
  obtain u where "s = u @ q" using q by (auto simp: has_suffix_iff)
  with t len obtain v where "t = v @ q"
    by (auto simp: append_eq_append_conv2)
  with t show "\<exists>t. s = p @ t @ q" by auto
next
  fix t assume "s = p @ t @ q"
  then show "has_suffix s q" by (metis append_assoc has_suffix_append)
qed auto

lemma affix_dec_append [simp]: "affix_dec p q dec (p @ t @ q) = dec t"
proof -
  have "has_suffix (p @ t @ q) q"
    by (metis append_assoc has_suffix_append)
  then show ?thesis
    by (simp add: affix_dec_def)
qed

lemma affix_dec_None: "(\<nexists>t. s = p @ t @ q) \<Longrightarrow> affix_dec p q dec s = None"
  using affix_split_iff [of s p q] by (auto simp: affix_dec_def not_less)

locale affix_codec = text_codec +
  fixes pre suf :: string

sublocale affix_codec \<subseteq> wrapped: text_codec "\<lambda>v. pre @ enc v @ suf" "affix_dec pre suf dec"
proof
  fix s v
  show "affix_dec pre suf dec s = Some v \<longleftrightarrow> s = pre @ enc v @ suf"
  proof (cases "\<exists>t. s = pre @ t @ suf")
    case True
    then show ?thesis by (auto simp: dec_iff)
  next
    case False
    then show ?thesis by (auto simp: affix_dec_None)
  qed
qed

section \<open>Versions have it\<close>

definition read_version :: "string \<Rightarrow> version option" where
  "read_version s = (case parse_version s of Inl _ \<Rightarrow> None | Inr v \<Rightarrow> Some v)"

interpretation version_text: text_codec version_string read_version
proof
  show "read_version s = Some v \<longleftrightarrow> s = version_string v" for s v
    by (auto simp: read_version_def split: sum.splits dest: parse_version_InrD)
qed

interpretation version_affix: affix_codec version_string read_version pre suf for pre suf
  by unfold_locales

end
