(* ===== verification/Tags.thy ===== *)
theory Tags
  imports Codecs Rules
begin

text \<open>
  internal/workspace/tags.go: the tag namespace of a releasable and the one rule deciding what
  is in it, the listing globs made from it, the owner of a tag among the releasables and among
  the identities of the lifecycle record, and the three shapes of a version tag. The lifecycle
  record is a library's: an identity is any type, read through the functions of
  \<open>identity_reader\<close>.
\<close>

section \<open>Schemes\<close>

definition version_placeholder :: string where
  "version_placeholder = ''{version}''"

record tag_scheme =
  ts_prefix :: string
  ts_suffix :: string

datatype scheme_error =
    PlaceholderCount string nat
  | OtherPlaceholder string
  | GlobNamesNoScheme string

definition new_tag_scheme :: "string \<Rightarrow> (scheme_error, tag_scheme) result" where
  "new_tag_scheme pat =
     (let n = str_count pat version_placeholder
      in if n \<noteq> 1 then Inl (PlaceholderCount pat n)
         else (case str_cut pat version_placeholder of (p, q, _) \<Rightarrow>
                 if contains_any (p @ q) ''{}'' then Inl (OtherPlaceholder pat)
                 else Inr \<lparr>ts_prefix = p, ts_suffix = q\<rparr>))"

definition scheme_of :: "releasable \<Rightarrow> (scheme_error, tag_scheme) result" where
  "scheme_of r = new_tag_scheme (str_replace_all (r_tag_format r) ''{name}'' (r_name r))"

definition scheme_from_glob :: "string \<Rightarrow> (scheme_error, tag_scheme) result" where
  "scheme_from_glob glob =
     (if str_count glob ''*'' \<noteq> 1 \<or> contains_any glob ''?['' then Inl (GlobNamesNoScheme glob)
      else new_tag_scheme (str_replace_once glob ''*'' version_placeholder))"

definition scheme_pattern :: "tag_scheme \<Rightarrow> string" where
  "scheme_pattern s = ts_prefix s @ version_placeholder @ ts_suffix s"

definition render_tag :: "tag_scheme \<Rightarrow> version \<Rightarrow> string" where
  "render_tag s v = ts_prefix s @ version_string v @ ts_suffix s"

definition list_glob :: "tag_scheme \<Rightarrow> string" where
  "list_glob s = ts_prefix s @ ''*'' @ ts_suffix s"

definition version_of :: "tag_scheme \<Rightarrow> string \<Rightarrow> version option" where
  "version_of s tag =
     (if \<not> has_prefix tag (ts_prefix s) \<or> \<not> has_suffix tag (ts_suffix s) \<or>
         length tag < length (ts_prefix s) + length (ts_suffix s) then None
      else (case parse_version
                   (take (length tag - length (ts_suffix s) - length (ts_prefix s))
                     (drop (length (ts_prefix s)) tag)) of
              Inl _ \<Rightarrow> None
            | Inr v \<Rightarrow> Some v))"

definition owns_tag :: "tag_scheme \<Rightarrow> string \<Rightarrow> bool" where
  "owns_tag s tag \<longleftrightarrow> version_of s tag \<noteq> None"

text \<open>
  The regular expression of a scheme, for shell steps. The code ranges over the runes of the
  text; the quoted characters are ASCII, so on valid UTF-8 the bytes come out the same.
\<close>

definition ere_special :: "char \<Rightarrow> bool" where
  "ere_special c \<longleftrightarrow> c = CHR 0x5C \<or> c \<in> set ''.+*?()|[]{}^$''"

fun quote_ere :: "string \<Rightarrow> string" where
  "quote_ere [] = []"
| "quote_ere (c # cs) = (if ere_special c then CHR 0x5C # c # quote_ere cs else c # quote_ere cs)"

definition version_ere :: string where
  "version_ere = join [CHR 0x5C, CHR ''.''] (replicate 3 ''(0|[1-9][0-9]*)'')"

definition scheme_regexp :: "tag_scheme \<Rightarrow> string" where
  "scheme_regexp s = ''^'' @ quote_ere (ts_prefix s) @ version_ere @ quote_ere (ts_suffix s) @ ''$''"

section \<open>The three shapes of a version tag\<close>

datatype tag_style = TagStyleStandalone | TagStyleMonorepo | TagStylePath

fun parse_shapes :: "string \<Rightarrow> (string \<times> tag_style) list \<Rightarrow> (version \<times> tag_style) option" where
  "parse_shapes tag [] = None"
| "parse_shapes tag ((separator, style) # shapes) =
     (case str_last_index tag separator of
        None \<Rightarrow> parse_shapes tag shapes
      | Some i \<Rightarrow>
          if i = 0 then parse_shapes tag shapes
          else (case parse_version (drop (i + length separator) tag) of
                  Inr v \<Rightarrow> Some (v, style)
                | Inl _ \<Rightarrow> parse_shapes tag shapes))"

definition parse_version_tag :: "string \<Rightarrow> (version \<times> tag_style) option" where
  "parse_version_tag tag =
     (let shaped = parse_shapes tag [(''@v'', TagStyleMonorepo), (''/v'', TagStylePath)]
      in case cut_prefix tag ''v'' of
           Some rest \<Rightarrow>
             (case parse_version rest of Inr v \<Rightarrow> Some (v, TagStyleStandalone) | Inl _ \<Rightarrow> shaped)
         | None \<Rightarrow> shaped)"

section \<open>The owner of a tag\<close>

datatype tag_owner_error =
    OwnerScheme scheme_error
  | RenderedAlike string "string list"

fun tag_owners :: "string \<Rightarrow> releasable list \<Rightarrow> (tag_owner_error, releasable list) result" where
  "tag_owners tag [] = Inr []"
| "tag_owners tag (r # rs) =
     (case scheme_of r of
        Inl e \<Rightarrow> Inl (OwnerScheme e)
      | Inr s \<Rightarrow> 
          rbind (tag_owners tag rs) (\<lambda>owners. Inr (if owns_tag s tag then r # owners else owners)))"

definition tag_owner :: "releasables \<Rightarrow> string \<Rightarrow> (tag_owner_error, releasable option) result" where
  "tag_owner d tag =
     rbind (tag_owners tag (d_releasables d)) (\<lambda>owners.
       case owners of
         [] \<Rightarrow> Inr None
       | [r] \<Rightarrow> Inr (Some r)
       | _ \<Rightarrow> Inl (RenderedAlike tag (map r_name owners)))"

section \<open>The identities of the lifecycle record\<close>

record ('id, 'time) identity_reader =
  id_pending :: "'id \<Rightarrow> bool"
  id_contains :: "'id \<Rightarrow> 'time \<Rightarrow> bool"
  id_tag_patterns :: "'id \<Rightarrow> string list"
  id_subject :: "'id \<Rightarrow> string"

datatype 'id identity_error =
    IdentityScheme 'id scheme_error
  | AmbiguousOwner string 'id 'id

fun some_pattern_owns :: "string \<Rightarrow> string list \<Rightarrow> (scheme_error, bool) result" where
  "some_pattern_owns tag [] = Inr False"
| "some_pattern_owns tag (p # ps) =
     rbind (scheme_from_glob p) (\<lambda>s. if owns_tag s tag then Inr True else some_pattern_owns tag ps)"

fun identity_owners ::
  "('id, 'time) identity_reader \<Rightarrow> string \<Rightarrow> 'time \<Rightarrow> 'id list \<Rightarrow> ('id identity_error, 'id list) result" where
  "identity_owners R tag created [] = Inr []"
| "identity_owners R tag created (i # is) =
     (if id_pending R i \<or> \<not> id_contains R i created then identity_owners R tag created is
      else (case some_pattern_owns tag (id_tag_patterns R i) of
              Inl e \<Rightarrow> Inl (IdentityScheme i e)
            | Inr owned \<Rightarrow>
                rbind (identity_owners R tag created is)
                  (\<lambda>found. Inr (if owned then i # found else found))))"

definition identity_tag_owner ::
  "('id, 'time) identity_reader \<Rightarrow> 'id list \<Rightarrow> string \<Rightarrow> 'time \<Rightarrow> ('id identity_error, 'id option) result" where
  "identity_tag_owner R ids tag created =
     rbind (identity_owners R tag created ids) (\<lambda>found.
       case found of
         [] \<Rightarrow> Inr None
       | first # rest \<Rightarrow>
           (case List.find (\<lambda>i. id_subject R i \<noteq> id_subject R first) rest of
              Some i \<Rightarrow> Inl (AmbiguousOwner tag first i)
            | None \<Rightarrow> Inr (Some first)))"

section \<open>Schemes and their tags\<close>

definition brace_free :: "string \<Rightarrow> bool" where
  "brace_free s \<longleftrightarrow> \<not> contains_any s ''{}''"

lemma brace_free_append [simp]: "brace_free (s @ t) \<longleftrightarrow> brace_free s \<and> brace_free t"
  by (auto simp: brace_free_def contains_any_def)

lemma str_index_absent: "c \<notin> set s \<Longrightarrow> str_index s (c # u) = None"
  by (induction s) auto

lemma str_index_first:
  "c \<notin> set p \<Longrightarrow> has_prefix (c # t) (c # u) \<Longrightarrow> str_index (p @ c # t) (c # u) = Some (length p)"
  by (induction p) auto

lemma brace_free_no_open: "brace_free s \<Longrightarrow> CHR ''{'' \<notin> set s"
  by (auto simp: brace_free_def contains_any_def)

lemma index_placeholder:
  "brace_free p \<Longrightarrow> str_index (p @ version_placeholder @ q) version_placeholder = Some (length p)"
  using str_index_first [OF brace_free_no_open, of p "''version}'' @ q" "''version}''"]
  by (simp add: version_placeholder_def)

lemma index_placeholder_None: "brace_free q \<Longrightarrow> str_index q version_placeholder = None"
  by (simp add: version_placeholder_def str_index_absent brace_free_no_open)

lemma count_placeholder:
  assumes "brace_free p" "brace_free q"
  shows "str_count (p @ version_placeholder @ q) version_placeholder = 1"
proof -
  have ne: "version_placeholder \<noteq> []" by (simp add: version_placeholder_def)
  have "str_count q version_placeholder = 0"
    using ne by (simp add: str_count.simps index_placeholder_None assms)
  with ne show ?thesis
    by (subst str_count.simps) (simp add: index_placeholder assms)
qed

lemma new_tag_scheme_iff:
  "new_tag_scheme pat = Inr s \<longleftrightarrow>
     pat = scheme_pattern s \<and> brace_free (ts_prefix s) \<and> brace_free (ts_suffix s)"
proof
  assume new: "new_tag_scheme pat = Inr s"
  obtain p q f where cut: "str_cut pat version_placeholder = (p, q, f)"
    by (metis prod_cases3)
  from new cut have n: "str_count pat version_placeholder = 1" and b: "brace_free (p @ q)"
    and s: "s = \<lparr>ts_prefix = p, ts_suffix = q\<rparr>"
    by (auto simp: new_tag_scheme_def Let_def brace_free_def split: if_splits)
  have "str_index pat version_placeholder \<noteq> None"
  proof
    assume "str_index pat version_placeholder = None"
    with n show False
      by (simp add: str_count.simps version_placeholder_def)
  qed
  with cut have "f" by (auto simp: str_cut_def)
  with cut have "pat = p @ version_placeholder @ q"
    by (intro str_cut_True) simp
  with s b show "pat = scheme_pattern s \<and> brace_free (ts_prefix s) \<and> brace_free (ts_suffix s)"
    by (simp add: scheme_pattern_def)
next
  assume r: "pat = scheme_pattern s \<and> brace_free (ts_prefix s) \<and> brace_free (ts_suffix s)"
  then have "str_cut pat version_placeholder = (ts_prefix s, ts_suffix s, True)"
    by (simp add: str_cut_def scheme_pattern_def index_placeholder)
  with r show "new_tag_scheme pat = Inr s"
    by (simp add: new_tag_scheme_def Let_def scheme_pattern_def count_placeholder
        brace_free_append [unfolded brace_free_def] brace_free_def)
qed

lemma version_of_affix: "version_of s = affix_dec (ts_prefix s) (ts_suffix s) read_version"
  by (rule ext) (simp add: version_of_def affix_dec_def read_version_def)

lemma render_tag_affix: "render_tag s = (\<lambda>v. ts_prefix s @ version_string v @ ts_suffix s)"
  by (rule ext) (simp add: render_tag_def)

text \<open>The tags of a scheme read back: the scheme's own instance of the contract.\<close>

interpretation scheme_tags: text_codec "render_tag s" "version_of s" for s
  unfolding version_of_affix render_tag_affix by (rule version_affix.wrapped.text_codec_axioms)

lemma owns_tag_iff: "owns_tag s tag \<longleftrightarrow> tag \<in> range (render_tag s)"
  using scheme_tags.dec_None_iff by (auto simp: owns_tag_def)

text \<open>
  C2. A tag carries a version under a scheme exactly when it is the scheme's rendering of that
  version: ownership is the rendering and nothing else, so a scheme never claims a tag that only
  its listing glob matches.
\<close>

theorem version_of_iff: "version_of s tag = Some v \<longleftrightarrow> tag = render_tag s v"
  by (rule scheme_tags.dec_iff)

text \<open>A scheme is recovered from the glob that lists its tags.\<close>

definition glob_free :: "string \<Rightarrow> bool" where
  "glob_free s \<longleftrightarrow> \<not> contains_any s ''{}*?[''"

lemma glob_freeD:
  assumes "glob_free s"
  shows "brace_free s" "CHR ''*'' \<notin> set s" "\<not> contains_any s ''?[''"
  using assms by (auto simp: glob_free_def brace_free_def contains_any_def)

lemma count_star:
  assumes "CHR ''*'' \<notin> set p" "CHR ''*'' \<notin> set q"
  shows "str_count (p @ CHR ''*'' # q) ''*'' = 1"
proof -
  have "str_count q ''*'' = 0"
    by (simp add: str_count.simps str_index_absent assms)
  then show ?thesis
    using str_index_first [OF assms(1), of q "[]"] by (subst str_count.simps) simp
qed

text \<open>
  A glob made from a scheme names that scheme again: the listing glob and the scheme are
  interchangeable, for prefixes and suffixes without a placeholder brace or a glob character.
\<close>

theorem scheme_from_list_glob:
  assumes "glob_free (ts_prefix s)" and "glob_free (ts_suffix s)"
  shows "scheme_from_glob (list_glob s) = Inr s"
proof -
  note p = glob_freeD [OF assms(1)] and q = glob_freeD [OF assms(2)]
  have "str_replace_once (list_glob s) ''*'' version_placeholder = scheme_pattern s"
    using str_index_first [OF p(2), of "ts_suffix s" "[]"]
    by (simp add: str_replace_once_def list_glob_def scheme_pattern_def)
  moreover have "\<not> contains_any (list_glob s) ''?[''"
    using p(3) q(3) by (auto simp: contains_any_def list_glob_def)
  moreover have "new_tag_scheme (scheme_pattern s) = Inr s"
    using p(1) q(1) by (simp add: new_tag_scheme_iff)
  ultimately show ?thesis
    using count_star [OF p(2) q(2)] by (simp add: scheme_from_glob_def list_glob_def)
qed

theorem scheme_from_list_glob_witness:
  "scheme_from_glob ''cmd/portal/v*'' = Inr \<lparr>ts_prefix = ''cmd/portal/v'', ts_suffix = []\<rparr>"
  using scheme_from_list_glob [of "\<lparr>ts_prefix = ''cmd/portal/v'', ts_suffix = []\<rparr>"]
  by (simp add: glob_free_def contains_any_def list_glob_def)

section \<open>Owners\<close>

lemma tag_owners_Inr:
  "tag_owners tag rs = Inr os \<Longrightarrow>
     (\<forall>r \<in> set rs. \<exists>s. scheme_of r = Inr s) \<and>
     os = filter (\<lambda>r. \<exists>s. scheme_of r = Inr s \<and> owns_tag s tag) rs"
  by (induction rs arbitrary: os) (auto simp: rbind_eq_Inr split: sum.splits)

lemma tag_owners_Inl:
  "tag_owners tag rs = Inl e \<Longrightarrow> \<exists>r \<in> set rs. \<exists>x. scheme_of r = Inl x \<and> e = OwnerScheme x"
  by (induction rs) (auto simp: rbind_eq_Inl split: sum.splits)

definition owning :: "releasables \<Rightarrow> string \<Rightarrow> releasable list" where
  "owning d tag = filter (\<lambda>r. \<exists>s v. scheme_of r = Inr s \<and> tag = render_tag s v) (d_releasables d)"

text \<open>
  The owner of a tag is never guessed: an answer names the one releasable whose format
  renders the tag, no answer means none renders it, and a refusal means two render it or a
  format is no scheme.
\<close>

theorem tag_owner_spec:
  "case tag_owner d tag of
     Inr (Some r) \<Rightarrow> owning d tag = [r]
   | Inr None \<Rightarrow> owning d tag = []
   | Inl (RenderedAlike t names) \<Rightarrow> t = tag \<and> names = map r_name (owning d tag) \<and> 2 \<le> length names
   | Inl (OwnerScheme e) \<Rightarrow> (\<exists>r \<in> set (d_releasables d). scheme_of r = Inl e)"
proof (cases "tag_owners tag (d_releasables d)")
  case (Inl e)
  with tag_owners_Inl [OF Inl] show ?thesis by (auto simp: tag_owner_def)
next
  case (Inr os)
  have "os = owning d tag"
    using tag_owners_Inr [OF Inr] by (auto simp: owning_def owns_tag_iff intro!: filter_cong)
  with Inr show ?thesis by (auto simp: tag_owner_def split: list.splits)
qed

text \<open>A declaration the rules accept whose tag format is no scheme.\<close>

definition braced_name :: releasable where
  "braced_name = sample_releasable ''a{b'' ''{name}@v{version}''"


lemma identity_owners_set:
  "identity_owners R tag created ids = Inr os \<Longrightarrow>
     i \<in> set os \<longleftrightarrow> i \<in> set ids \<and> \<not> id_pending R i \<and> id_contains R i created \<and>
       some_pattern_owns tag (id_tag_patterns R i) = Inr True"
  by (induction ids arbitrary: os) (auto simp: rbind_eq_Inr split: sum.splits if_splits)

lemma some_pattern_ownsD:
  "some_pattern_owns tag ps = Inr True \<Longrightarrow>
     \<exists>p \<in> set ps. \<exists>s v. scheme_from_glob p = Inr s \<and> tag = render_tag s v"
  by (induction ps) (auto simp: rbind_eq_Inr owns_tag_iff split: if_splits)

text \<open>
  An identity the lifecycle record names as the owner of a tag is not pending, covers the
  tag's date and renders the tag by one of its patterns, and every identity that does so is of
  the same subject.
\<close>

theorem identity_tag_owner_unique:
  assumes "identity_tag_owner R ids tag created = Inr (Some i)"
  shows "i \<in> set ids \<and> \<not> id_pending R i \<and> id_contains R i created \<and>
         (\<exists>p \<in> set (id_tag_patterns R i). \<exists>s v. scheme_from_glob p = Inr s \<and> tag = render_tag s v) \<and>
         (\<forall>j \<in> set ids. \<not> id_pending R j \<longrightarrow> id_contains R j created \<longrightarrow>
            some_pattern_owns tag (id_tag_patterns R j) = Inr True \<longrightarrow> id_subject R j = id_subject R i)"
proof -
  obtain found where f: "identity_owners R tag created ids = Inr found"
    using assms by (auto simp: identity_tag_owner_def rbind_eq_Inr)
  with assms obtain rest where "found = i # rest"
    and same: "\<forall>j \<in> set rest. id_subject R j = id_subject R i"
    by (auto simp: identity_tag_owner_def find_None_iff_ball split: list.splits option.splits)
  with identity_owners_set [OF f, of i] have i: "i \<in> set ids" "\<not> id_pending R i"
    "id_contains R i created" "some_pattern_owns tag (id_tag_patterns R i) = Inr True"
    by simp_all
  have "id_subject R j = id_subject R i"
    if "j \<in> set ids" "\<not> id_pending R j" "id_contains R j created"
      "some_pattern_owns tag (id_tag_patterns R j) = Inr True" for j
    using identity_owners_set [OF f, of j] that same \<open>found = i # rest\<close> by auto
  with i some_pattern_ownsD [OF i(4)] show ?thesis by blast
qed

definition sample_identities :: "(nat, nat) identity_reader" where
  "sample_identities =
     \<lparr>id_pending = (\<lambda>i. i = 2), id_contains = (\<lambda>i t. i \<le> t), id_tag_patterns = (\<lambda>i. [''v*'']),
      id_subject = (\<lambda>i. if i = 0 then ''app'' else ''video'')\<rparr>"

lemma sample_owner: "identity_tag_owner sample_identities [9, 0, 2] ''v1.2.3'' 5 = Inr (Some 0)"
proof -
  have s: "scheme_from_glob ''v*'' = Inr \<lparr>ts_prefix = ''v'', ts_suffix = []\<rparr>"
    by code_simp
  have "''v1.2.3'' = render_tag \<lparr>ts_prefix = ''v'', ts_suffix = []\<rparr> (Version 1 2 3)"
    by (simp add: render_tag_def version_string_def word_dec_def dec_of_nat.simps digit_char_def
        char_of_def bit_iff_odd)
  then have "owns_tag \<lparr>ts_prefix = ''v'', ts_suffix = []\<rparr> ''v1.2.3''"
    by (metis owns_tag_iff rangeI)
  with s show ?thesis
    by (simp add: identity_tag_owner_def sample_identities_def)
qed

theorem identity_tag_owner_unique_witness:
  "id_contains sample_identities 0 5 \<and> id_subject sample_identities 0 = ''app''"
  using identity_tag_owner_unique [OF sample_owner] by (simp add: sample_identities_def)

end
