(* ===== verification/Ownership.thy ===== *)
theory Ownership
  imports Rules Semver
begin

text \<open>
  internal/workspace/ownership.go, attribution.go and the lookups of workspace.go: which paths
  are the tool's own bookkeeping, the member owning a path, the members a change affects, the
  state paths of a releasable, and the scopes commits are attributed by. Git and the file
  system are parameters: the files of a commit, and what reading a file gives.
\<close>

section \<open>Tool-owned paths\<close>

definition old_state_dir :: string where "old_state_dir = ''.rlsbl''"
definition old_workspace_dir :: string where "old_workspace_dir = ''.rlsbl-monorepo''"

definition root_only_trees :: "string list" where
  "root_only_trees =
     [changelog_root @ ''/'', releases_root @ ''/'', batch_releases_dir @ ''/'',
      trim_suffix transitions_file ''/transitions.jsonl'' @ ''/'',
      history_rewrites_dir @ ''/'', retired_histories_root @ ''/'',
      trim_suffix scaffold_state_file ''/scaffold-state.toml'' @ ''/'',
      scaffold_bases_dir @ ''/'', changelog_validation_dir @ ''/'', release_state_dir @ ''/'',
      old_workspace_dir @ ''/'']"

definition root_only_files :: "string list" where
  "root_only_files = [private_module_file, ''.github/workflows/ci-router.yml'']"

definition any_depth_trees :: "string list" where
  "any_depth_trees =
     [old_state_dir @ ''/changes/'', old_state_dir @ ''/releases/'', old_state_dir @ ''/bases/'',
      old_state_dir @ ''/lint/'']"

definition any_depth_files :: "string list" where
  "any_depth_files = [old_state_dir @ ''/version'', ''CHANGELOG.md'']"

definition clean_path :: "string \<Rightarrow> string" where
  "clean_path p =
     (let p = trim_prefix (trim_space (str_replace_all p [CHR 0x5C] ''/'')) ''./''
      in if p = ''.'' then [] else trim_right_char CHR ''/'' p)"

text \<open>A rule is the text that names it; none is the empty text of the code.\<close>

fun any_depth_rule :: "string list \<Rightarrow> string option" where
  "any_depth_rule [] = None"
| "any_depth_rule (part # parts) =
     (let tail = join ''/'' (part # parts)
      in case List.find (has_prefix tail) any_depth_trees of
           Some tree \<Rightarrow> Some (tree @ ''**'')
         | None \<Rightarrow>
             (case List.find ((=) tail) any_depth_files of
                Some file \<Rightarrow> Some file
              | None \<Rightarrow> any_depth_rule parts))"

definition tool_owned_rule :: "string \<Rightarrow> string option" where
  "tool_owned_rule p =
     (let p = clean_path p
      in if p = [] then None
         else (case List.find (has_prefix p) root_only_trees of
                 Some tree \<Rightarrow> Some (tree @ ''**'')
               | None \<Rightarrow>
                   (case List.find ((=) p) root_only_files of
                      Some file \<Rightarrow> Some file
                    | None \<Rightarrow> any_depth_rule (split_on CHR ''/'' p))))"

definition is_tool_owned :: "string \<Rightarrow> bool" where
  "is_tool_owned p \<longleftrightarrow> tool_owned_rule p \<noteq> None"

section \<open>Owners\<close>

definition owner_of :: "releasables \<Rightarrow> string \<Rightarrow> member option" where
  "owner_of w p =
     (let p = clean_path p
      in if p = [] \<or> is_tool_owned p then None else member_for_path w p)"

fun owner_names :: "releasables \<Rightarrow> string list \<Rightarrow> string set" where
  "owner_names w [] = {}"
| "owner_names w (f # fs) =
     (case owner_of w f of Some m \<Rightarrow> insert (m_name m) (owner_names w fs) | None \<Rightarrow> owner_names w fs)"

definition affected_members :: "releasables \<Rightarrow> string list \<Rightarrow> member list" where
  "affected_members w changed =
     (let owners = owner_names w changed in filter (\<lambda>m. m_name m \<in> owners) (d_members w))"

section \<open>State paths\<close>

definition state_dirs :: "string \<Rightarrow> string list" where
  "state_dirs r =
     [changelog_dir r, releases_dir r, changelog_validation_file r, run_state_dir r,
      old_workspace_dir @ ''/releasables/'' @ r]"

fun first_state_name :: "string \<Rightarrow> string list \<Rightarrow> string option" where
  "first_state_name p [] = None"
| "first_state_name p (root # roots) =
     (case cut_prefix p (root @ ''/'') of
        None \<Rightarrow> first_state_name p roots
      | Some rest \<Rightarrow>
          (case str_cut rest ''/'' of (name, _, _) \<Rightarrow>
             if name \<noteq> [] then Some name else first_state_name p roots))"

definition run_state_name :: "string \<Rightarrow> string option" where
  "run_state_name p =
     (case cut_prefix p (release_state_dir @ ''/'') of
        None \<Rightarrow> None
      | Some rest \<Rightarrow>
          (case str_cut rest ''/'' of (name, _, inside) \<Rightarrow>
             if inside \<and> name \<noteq> [] then Some name else None))"

definition validation_name :: "string \<Rightarrow> string option" where
  "validation_name p =
     (case cut_prefix p (changelog_validation_dir @ ''/'') of
        None \<Rightarrow> None
      | Some rest \<Rightarrow>
          (case cut_suffix rest ''.toml'' of
             None \<Rightarrow> None
           | Some name \<Rightarrow> if name \<noteq> [] \<and> \<not> str_contains name ''/'' then Some name else None))"

definition state_dir_releasable :: "string \<Rightarrow> string option" where
  "state_dir_releasable p =
     (let p = clean_path p
      in case first_state_name p [changelog_root, releases_root, old_workspace_dir @ ''/releasables''] of
           Some name \<Rightarrow> Some name
         | None \<Rightarrow>
             (case run_state_name p of Some name \<Rightarrow> Some name | None \<Rightarrow> validation_name p))"

section \<open>Scopes\<close>

record scope =
  sc_workspace :: releasables
  sc_owned :: "string list"
  sc_state_dirs :: "string list"

definition scope_of_members :: "releasables \<Rightarrow> member list \<Rightarrow> scope" where
  "scope_of_members w ms =
     \<lparr>sc_workspace = w, sc_owned = remdups (map m_name ms), sc_state_dirs = []\<rparr>"

definition scope_of_member :: "releasables \<Rightarrow> member \<Rightarrow> scope" where
  "scope_of_member w m = scope_of_members w [m]"

definition scope_of_releasable :: "releasables \<Rightarrow> string \<Rightarrow> scope" where
  "scope_of_releasable w r = (scope_of_members w (members_of w r))\<lparr>sc_state_dirs := state_dirs r\<rparr>"

definition in_dir :: "string \<Rightarrow> string \<Rightarrow> bool" where
  "in_dir p dir \<longleftrightarrow> p = dir \<or> has_prefix p (dir @ ''/'')"

definition claims_state_dir :: "scope \<Rightarrow> string \<Rightarrow> bool" where
  "claims_state_dir s p =
     (let p = clean_path p
      in if p = [] then False else list_ex (in_dir p) (sc_state_dirs s))"

definition scope_claims :: "scope \<Rightarrow> string \<Rightarrow> bool" where
  "scope_claims s p =
     (if claims_state_dir s p then True
      else (case owner_of (sc_workspace s) p of
              Some m \<Rightarrow> m_name m \<in> set (sc_owned s)
            | None \<Rightarrow> False))"

definition claims_any :: "scope \<Rightarrow> string list \<Rightarrow> bool" where
  "claims_any s files = list_ex (scope_claims s) files"

definition scope_members :: "scope \<Rightarrow> member list" where
  "scope_members s = filter (\<lambda>m. m_name m \<in> set (sc_owned s)) (d_members (sc_workspace s))"

definition describe_scope :: "scope \<Rightarrow> string" where
  "describe_scope s =
     (let names = sort (sc_owned s);
          described = (if names \<noteq> [] then join '', '' names else ''(no members)'')
      in if sc_state_dirs s \<noteq> []
         then described @ '' (and '' @ join '', '' (sort (sc_state_dirs s)) @ '')''
         else described)"

section \<open>Attribution of commits\<close>

definition commit_owner_names ::
  "releasables \<Rightarrow> (string \<Rightarrow> ('e, string list) result) \<Rightarrow> string \<Rightarrow> ('e, string set) result" where
  "commit_owner_names w commit_files sha =
     rbind (commit_files sha) (\<lambda>files. Inr (owner_names w files))"

fun filter_commits ::
  "(string \<Rightarrow> ('e, string list) result) \<Rightarrow> string list \<Rightarrow> scope \<Rightarrow> ('e, string list) result" where
  "filter_commits commit_files [] s = Inr []"
| "filter_commits commit_files (sha # shas) s =
     rbind (commit_files sha) (\<lambda>files.
       rbind (filter_commits commit_files shas s) (\<lambda>kept.
         Inr (if claims_any s files then sha # kept else kept)))"

section \<open>Lookups of the workspace\<close>

definition releasable_of :: "releasables \<Rightarrow> member \<Rightarrow> releasable option" where
  "releasable_of w m = (if \<not> versioned m then None else find_releasable w (m_releasable m))"

definition publish_mode_of :: "releasables \<Rightarrow> member \<Rightarrow> publish_mode" where
  "publish_mode_of w m =
     (case releasable_of w m of None \<Rightarrow> PublishNone | Some r \<Rightarrow> r_publish_mode r)"

definition member_for_directory :: "releasables \<Rightarrow> string \<Rightarrow> bool \<Rightarrow> member option" where
  "member_for_directory w dir include_root =
     (case member_for_path w dir of
        None \<Rightarrow> None
      | Some m \<Rightarrow> if is_root m \<and> \<not> include_root then None else Some m)"

definition nested_member_paths :: "releasables \<Rightarrow> member \<Rightarrow> string list" where
  "nested_member_paths w m =
     sort (map m_path (filter (\<lambda>c. \<not> (m_path c = m_path m \<or> is_root c) \<and> is_inside (m_path c) (m_path m))
       (d_members w)))"

datatype 'e file_read = FileMissing | FileUnreadable 'e | FileData string

datatype 'e version_file_error =
    VersionFileMissing string string
  | VersionFileUnreadable string 'e
  | VersionFileEmpty string string
  | VersionFileNotVersion string parse_error

definition read_releasable_version ::
  "(string \<Rightarrow> 'e file_read) \<Rightarrow> string \<Rightarrow> ('e version_file_error, version) result" where
  "read_releasable_version read_file r =
     (let rel = version_file r
      in case read_file rel of
           FileMissing \<Rightarrow> Inl (VersionFileMissing r rel)
         | FileUnreadable e \<Rightarrow> Inl (VersionFileUnreadable rel e)
         | FileData data \<Rightarrow>
             (let text = trim_space data
              in if text = [] then Inl (VersionFileEmpty r rel)
                 else (case parse_version text of
                         Inl e \<Rightarrow> Inl (VersionFileNotVersion rel e)
                       | Inr v \<Rightarrow> Inr v)))"

text \<open>
  The write goes through the effects handle, whose file system is a parameter: the directory,
  then a temporary file, then its rename over the version file. A failure stops the sequence.
\<close>

datatype effect = EffMkdir string | EffWrite string string | EffRename string string

datatype 'e version_write_error =
    NoSuchReleasable string
  | VersionDirFailed string 'e
  | VersionWriteFailed string 'e

definition write_releasable_version ::
  "('s \<Rightarrow> effect \<Rightarrow> ('e, 's) result) \<Rightarrow> releasables \<Rightarrow> string \<Rightarrow> version \<Rightarrow> 's \<Rightarrow>
     ('e version_write_error, 's) result" where
  "write_releasable_version exec w r v st =
     (if find_releasable w r = None then Inl (NoSuchReleasable r)
      else (let target = version_file r; temporary = target @ ''.tmp''
            in rbind (with_error (VersionDirFailed target) (exec st (EffMkdir (releases_dir r)))) (\<lambda>st.
               rbind (with_error (VersionWriteFailed target)
                       (exec st (EffWrite temporary (version_string v @ [CHR 0x0A])))) (\<lambda>st.
               with_error (VersionWriteFailed target) (exec st (EffRename temporary target))))))"

section \<open>Properties of state paths\<close>

lemma in_dir_slash: "in_dir p dir \<longleftrightarrow> has_prefix (p @ ''/'') (dir @ ''/'')"
proof
  assume "has_prefix (p @ ''/'') (dir @ ''/'')"
  then obtain t where t: "p @ ''/'' = dir @ ''/'' @ t" by (auto simp: has_prefix_iff)
  show "in_dir p dir"
  proof (cases t rule: rev_cases)
    case Nil
    with t show ?thesis by (simp add: in_dir_def)
  next
    case (snoc u c)
    with t have "p = dir @ ''/'' @ u" by (metis append_assoc butlast_snoc)
    then show ?thesis by (auto simp: in_dir_def has_prefix_iff)
  qed
qed (auto simp: in_dir_def has_prefix_iff)

lemma one_segment_unique:
  assumes "a @ ''/'' @ t = b @ ''/'' @ u" "CHR ''/'' \<notin> set a" "CHR ''/'' \<notin> set b"
  shows "a = b"
  using assms
proof (induction a arbitrary: b)
  case Nil
  then show ?case by (cases b) auto
next
  case (Cons c a)
  then show ?case by (cases b) auto
qed

lemma name_problem_NoneD:
  assumes "name_problem n = None"
  shows "n \<noteq> []" "CHR ''/'' \<notin> set n"
  using assms by (auto simp: name_problem_def contains_any_def split: if_splits)

text \<open>The roots the state paths stand under, with what follows the releasable's name.\<close>

definition state_roots :: "(string \<times> string) list" where
  "state_roots =
     [(''.strictmetadata/changelog/'', []), (''.strictmetadata/releases/'', []),
      (''.strictmetadata/.changelog-validation/'', ''.toml''),
      (''.strictmetadata/.release-state/'', []), (''.rlsbl-monorepo/releasables/'', [])]"

lemmas state_dirs_defs = state_dirs_def changelog_dir_def releases_dir_def
  changelog_validation_file_def run_state_dir_def old_workspace_dir_def layout_defs

lemma in_state_dir_cases:
  assumes "d \<in> set (state_dirs r)" "in_dir p d"
  obtains root suf where "(root, suf) \<in> set state_roots" "in_dir p (root @ r @ suf)"
proof -
  have "d \<in> (\<lambda>(root, suf). root @ r @ suf) ` set state_roots"
    using assms(1) by (simp add: state_dirs_defs state_roots_def)
  with assms(2) that show thesis by auto
qed

lemma state_roots_unique:
  assumes "(root, suf) \<in> set state_roots" "(root', suf') \<in> set state_roots" "root @ x = root' @ y"
  shows "root = root' \<and> suf = suf'"
proof -
  have "\<forall>(a, s) \<in> set state_roots. \<forall>(b, t) \<in> set state_roots. has_prefix a b \<longrightarrow> a = b \<and> s = t"
    by (simp add: state_roots_def)
  then have u: "a = b \<and> s = t"
    if "(a, s) \<in> set state_roots" "(b, t) \<in> set state_roots" "has_prefix a b" for a s b t
    using that by blast
  have "has_prefix (root @ x) root" "has_prefix (root @ x) root'"
    using assms(3) by (metis has_prefix_append)+
  then have "has_prefix root root' \<or> has_prefix root' root"
    using has_prefix_comparable nat_le_linear by blast
  with u [OF assms(1,2)] u [OF assms(2,1)] show ?thesis by auto
qed

lemma claims_state_dir_releasable:
  "claims_state_dir (scope_of_releasable w r) p \<longleftrightarrow>
     clean_path p \<noteq> [] \<and> (\<exists>d \<in> set (state_dirs r). in_dir (clean_path p) d)"
  by (auto simp: claims_state_dir_def scope_of_releasable_def Let_def list_ex_iff)

lemma state_path_tool_owned:
  assumes "clean_path p = p" "d \<in> set (state_dirs r)" "in_dir p d"
  shows "is_tool_owned p"
proof -
  from in_state_dir_cases [OF assms(2,3)] obtain root suf where
    rs: "(root, suf) \<in> set state_roots" and "in_dir p (root @ r @ suf)" .
  then have "has_prefix p root"
    by (auto simp: in_dir_def dest: has_prefix_appendD)
  then obtain u where u: "p = root @ u" by (auto simp: has_prefix_iff)
  have "\<exists>tree \<in> set root_only_trees. has_prefix p tree"
    using rs u by (auto simp: state_roots_def root_only_trees_def state_dirs_defs)
  then have "List.find (has_prefix p) root_only_trees \<noteq> None"
    by (auto simp: find_None_iff_ball)
  moreover have "p \<noteq> []" using rs u by (auto simp: state_roots_def)
  ultimately show ?thesis
    using assms(1) by (auto simp: is_tool_owned_def tool_owned_rule_def Let_def)
qed

text \<open>
  The two sides of a scope never disagree: a path in a releasable's state, as git spells
  it, is the tool's own and no member owns it.
\<close>

theorem state_path_has_no_owner:
  assumes "clean_path p = p" and "claims_state_dir (scope_of_releasable w r) p"
  shows "is_tool_owned p \<and> owner_of w p = None"
proof -
  from assms have "is_tool_owned p"
    by (auto simp: claims_state_dir_releasable intro: state_path_tool_owned)
  with assms(1) show ?thesis by (simp add: owner_of_def)
qed

theorem state_path_has_no_owner_witness:
  "owner_of sample_workspace ''.strictmetadata/changelog/app/1.0.0.jsonl'' = None"
proof -
  have "clean_path ''.strictmetadata/changelog/app/1.0.0.jsonl'' = ''.strictmetadata/changelog/app/1.0.0.jsonl''"
    by code_simp
  moreover have "claims_state_dir (scope_of_releasable sample_workspace ''app'')
      ''.strictmetadata/changelog/app/1.0.0.jsonl''"
    by code_simp
  ultimately show ?thesis using state_path_has_no_owner by blast
qed

text \<open>
  No path belongs to the state of two releasables: distinct names the rules accept claim
  disjoint state paths, the old layout's included.
\<close>

theorem state_paths_disjoint:
  assumes "name_problem r = None" "name_problem r' = None"
    and "claims_state_dir (scope_of_releasable w r) p"
    and "claims_state_dir (scope_of_releasable w r') p"
  shows "r = r'"
proof -
  note n = name_problem_NoneD [OF assms(1)] and n' = name_problem_NoneD [OF assms(2)]
  from assms(3) obtain root suf where rs: "(root, suf) \<in> set state_roots"
    "in_dir (clean_path p) (root @ r @ suf)"
    by (auto simp: claims_state_dir_releasable elim: in_state_dir_cases)
  from assms(4) obtain root' suf' where rs': "(root', suf') \<in> set state_roots"
    "in_dir (clean_path p) (root' @ r' @ suf')"
    by (auto simp: claims_state_dir_releasable elim: in_state_dir_cases)
  from rs(2) rs'(2) obtain t t' where
    eq: "root @ r @ suf @ ''/'' @ t = root' @ r' @ suf' @ ''/'' @ t'"
    unfolding in_dir_slash has_prefix_iff by (metis append_assoc)
  from state_roots_unique [OF rs(1) rs'(1) eq] have "root = root' \<and> suf = suf'" .
  with eq have "(r @ suf) @ ''/'' @ t = (r' @ suf) @ ''/'' @ t'" by simp
  moreover have "CHR ''/'' \<notin> set suf" using rs(1) by (auto simp: state_roots_def)
  ultimately have "r @ suf = r' @ suf" using n(2) n'(2)
    by (intro one_segment_unique [of "r @ suf" t "r' @ suf" t']) simp_all
  then show ?thesis by simp
qed

theorem state_paths_disjoint_witness:
  "\<not> claims_state_dir (scope_of_releasable sample_workspace ''ap'') ''.strictmetadata/.release-state/app/run.toml''"
proof
  assume a: "claims_state_dir (scope_of_releasable sample_workspace ''ap'') ''.strictmetadata/.release-state/app/run.toml''"
  have c: "claims_state_dir (scope_of_releasable sample_workspace ''app'') ''.strictmetadata/.release-state/app/run.toml''"
    by code_simp
  have n: "name_problem ''ap'' = None" "name_problem ''app'' = None" by code_simp+
  from state_paths_disjoint [OF n a c] show False by simp
qed

section \<open>Properties of attribution\<close>

lemma owner_names_iff: "n \<in> owner_names w fs \<longleftrightarrow> (\<exists>f \<in> set fs. \<exists>m. owner_of w f = Some m \<and> m_name m = n)"
  by (induction fs) (auto split: option.splits)

lemma owner_of_member: "owner_of w p = Some m \<Longrightarrow> m \<in> set (d_members w)"
  using member_for_path_SomeD(1) by (auto simp: owner_of_def Let_def split: if_splits)

text \<open>
  The members a change affects are exactly the owners of the changed files, each listed
  once and in declaration order: a change under a nested member does not affect its parent.
\<close>

theorem affected_members_owners:
  assumes "check_declarations w = []"
  shows "set (affected_members w files) = {m. \<exists>f \<in> set files. owner_of w f = Some m} \<and>
         subseq (affected_members w files) (d_members w) \<and> distinct (affected_members w files)"
proof -
  have "identities_ok w"
    using check_members_identities check_declarations_parts [OF assms] by blast
  then have d: "distinct (map m_name (d_members w))" by (simp add: identities_ok_def)
  then have same: "m = m'" if "m \<in> set (d_members w)" "m' \<in> set (d_members w)" "m_name m = m_name m'" for m m'
    using that by (auto simp: distinct_map inj_on_def)
  have "m \<in> set (affected_members w files) \<longleftrightarrow> (\<exists>f \<in> set files. owner_of w f = Some m)" for m
    using same owner_of_member
    by (auto simp: affected_members_def Let_def owner_names_iff) metis
  then show ?thesis
    using d by (auto simp: affected_members_def Let_def subseq_filter_left distinct_map)
qed

theorem affected_members_owners_witness:
  "set (affected_members sample_workspace [''lib/a.go'', ''CHANGELOG.md'']) =
     {m. \<exists>f \<in> set [''lib/a.go'', ''CHANGELOG.md'']. owner_of sample_workspace f = Some m}"
  using affected_members_owners [OF sample_workspace_accepted] by blast

lemma filter_commits_Inr:
  "filter_commits cf shas s = Inr kept \<Longrightarrow>
     kept = filter (\<lambda>c. \<exists>fs. cf c = Inr fs \<and> claims_any s fs) shas \<and> (\<forall>c \<in> set shas. \<exists>fs. cf c = Inr fs)"
  by (induction shas arbitrary: kept) (auto simp: rbind_eq_Inr)

lemma digit_graph: "is_digit c \<Longrightarrow> graph_char c"
  by (auto simp: is_digit_def graph_char_def)

lemma version_line: "trim_space (version_string v @ [CHR 0x0A]) = version_string v"
proof (rule trim_space_line)
  have ends: "word_dec w \<noteq> []" "graph_char (hd (word_dec w))" "graph_char (last (word_dec w))" for w
    using dec_of_nat_digits [of "unat w"] by (auto simp: word_dec_def digit_graph)
  then show "version_string v \<noteq> []" "graph_char (hd (version_string v))" "graph_char (last (version_string v))"
    by (simp_all add: version_string_def)
qed

lemma version_string_not_Nil [simp]: "version_string v \<noteq> []"
  by (simp add: version_string_def)

text \<open>
  What is written to a version file is what is read back, whatever was there before: after
  a write that reports success the reader returns the written version. The file system is any
  whose write and rename do what they report.
\<close>

theorem version_file_roundtrip:
  assumes write_ok: "\<And>s p data s'. exec s (EffWrite p data) = Inr s' \<Longrightarrow> content s' p = FileData data"
    and rename_ok: "\<And>s a b s'. exec s (EffRename a b) = Inr s' \<Longrightarrow> a \<noteq> b \<Longrightarrow> content s' b = content s a"
    and wrote: "write_releasable_version exec w r v st = Inr st'"
  shows "read_releasable_version (content st') r = Inr v"
proof -
  from wrote obtain s1 s2 where
    w: "exec s1 (EffWrite (version_file r @ ''.tmp'') (version_string v @ [CHR 0x0A])) = Inr s2"
    and r: "exec s2 (EffRename (version_file r @ ''.tmp'') (version_file r)) = Inr st'"
    by (auto simp: write_releasable_version_def Let_def rbind_eq_Inr split: if_splits)
  from rename_ok [OF r] write_ok [OF w]
  have "content st' (version_file r) = FileData (version_string v @ [CHR 0x0A])" by simp
  then show ?thesis
    by (simp add: read_releasable_version_def Let_def version_line)
qed

text \<open>A file system that holds what it is told, for the witness.\<close>

definition map_exec :: "(string \<Rightarrow> string option) \<Rightarrow> effect \<Rightarrow> (string, string \<Rightarrow> string option) result" where
  "map_exec fs e =
     (case e of
        EffMkdir d \<Rightarrow> Inr fs
      | EffWrite p data \<Rightarrow> Inr (fs(p := Some data))
      | EffRename a b \<Rightarrow> (case fs a of None \<Rightarrow> Inl a | Some data \<Rightarrow> Inr (fs(a := None, b := Some data))))"

definition map_content :: "(string \<Rightarrow> string option) \<Rightarrow> string \<Rightarrow> string file_read" where
  "map_content fs p = (case fs p of None \<Rightarrow> FileMissing | Some data \<Rightarrow> FileData data)"

theorem version_file_roundtrip_witness:
  "\<exists>fs. write_releasable_version map_exec sample_workspace ''app'' (Version 1 2 3) (\<lambda>_. None) = Inr fs \<and>
     read_releasable_version (map_content fs) ''app'' = Inr (Version 1 2 3)"
proof -
  have "find_releasable sample_workspace ''app'' \<noteq> None" by code_simp
  then obtain fs where fs:
    "write_releasable_version map_exec sample_workspace ''app'' (Version 1 2 3) (\<lambda>_. None) = Inr fs"
    by (auto simp: write_releasable_version_def Let_def map_exec_def with_error_def)
  have "map_content t p = FileData data" if "map_exec s (EffWrite p data) = Inr t" for s p data t
    using that by (auto simp: map_exec_def map_content_def)
  moreover have "map_content t b = map_content s a"
    if "map_exec s (EffRename a b) = Inr t" "a \<noteq> b" for s a b t
    using that by (auto simp: map_exec_def map_content_def split: option.splits)
  ultimately show ?thesis
    using fs version_file_roundtrip [of map_exec map_content] by blast
qed

end
