(* ===== verification/Archive.thy ===== *)
theory Archive
  imports Codecs Paths
begin

text \<open>
  internal/releaserecord: the release file and the release archives (releasefile.go,
  archive.go, files.go). An archive states what became of one version number: its fate. The
  TOML library and the generated schema validator are not modelled: a document is what they
  decode, or a document they refuse together with the two fields the pristine test looks at.
  Setting or deleting a field of a TOML document is setting or deleting it in what decodes.
\<close>

section \<open>Release commits\<close>

record release_commit =
  rc_commit :: string
  rc_trees :: "(string \<times> string) list"

datatype commit_problem =
    BadCommitId string
  | NoTrees
  | BadReleasedPath string
  | BadTreeId string string

definition hex_char :: "char \<Rightarrow> bool" where
  "hex_char c \<longleftrightarrow> is_digit c \<or> c \<in> set ''abcdef''"

definition object_id :: "string \<Rightarrow> bool" where
  "object_id s \<longleftrightarrow> 7 \<le> length s \<and> length s \<le> 64 \<and> list_all hex_char s"

definition path_start_char :: "char \<Rightarrow> bool" where
  "path_start_char c \<longleftrightarrow>
     (CHR ''A'' \<le> c \<and> c \<le> CHR ''Z'') \<or> (CHR ''a'' \<le> c \<and> c \<le> CHR ''z'') \<or> is_digit c \<or>
     c = CHR ''.'' \<or> c = CHR ''_''"

definition released_path :: "string \<Rightarrow> bool" where
  "released_path s \<longleftrightarrow>
     s = ''.'' \<or>
     (case s of [] \<Rightarrow> False
      | c # cs \<Rightarrow> path_start_char c \<and>
          list_all (\<lambda>d. path_start_char d \<or> d = CHR ''/'' \<or> d = CHR ''-'') cs)"

fun check_trees :: "(string \<times> string) list \<Rightarrow> commit_problem option" where
  "check_trees [] = None"
| "check_trees ((p, tree) # rest) =
     (if \<not> released_path p then Some (BadReleasedPath p)
      else if \<not> object_id tree then Some (BadTreeId p tree)
      else check_trees rest)"

text \<open>The trees are a Go map; the model's list has its entries in some order, which a refusal shows.\<close>

definition check_release_commit :: "release_commit \<Rightarrow> commit_problem option" where
  "check_release_commit c =
     (if \<not> object_id (rc_commit c) then Some (BadCommitId (rc_commit c))
      else if rc_trees c = [] then Some NoTrees
      else check_trees (rc_trees c))"

section \<open>Documents\<close>

record raw_hit =
  rh_hit :: string
  rh_location :: string
  rh_resolution :: string
  rh_certainty :: "int option"
  rh_reason :: string
  rh_recorded :: "nat \<times> nat \<times> nat"

record raw_release =
  rr_bump :: string
  rr_include :: "string list"
  rr_exclude :: "string list"
  rr_description :: string
  rr_context :: "string option"
  rr_release_commit :: "string option"
  rr_released_trees :: "(string \<times> string) list option"
  rr_unrecoverable :: "bool option"
  rr_never_released :: "bool option"
  rr_shipped_as :: "string option"
  rr_notices :: "string list option"
  rr_hits :: "raw_hit list option"
  rr_retracted_by :: "string option"
  rr_retracts :: "string list option"

record release_file =
  rf_bump :: bump
  rf_include :: "string list"
  rf_exclude :: "string list"
  rf_description :: string
  rf_context :: string

record resolution =
  re_hit :: string
  re_location :: string
  re_decision :: string
  re_reason :: string
  re_recorded :: string
  re_certainty :: int

record document =
  doc_file :: release_file
  doc_release_commit :: "string option"
  doc_trees :: "(string \<times> string) list option"
  doc_unrecoverable :: "bool option"
  doc_never_released :: "bool option"
  doc_shipped_as :: "string option"
  doc_notices :: "string list option"
  doc_hits :: "resolution list option"
  doc_retracted_by :: "version option"
  doc_retracts :: "version list option"

datatype fate = FateAbsent | FateUnstated | FateRecorded | FateUnrecoverable | FateNeverReleased

definition fate_released :: "fate \<Rightarrow> bool" where
  "fate_released f \<longleftrightarrow> f = FateRecorded \<or> f = FateUnrecoverable"

definition document_fate :: "document \<Rightarrow> fate" where
  "document_fate d =
     (if doc_never_released d \<noteq> None then FateNeverReleased
      else if doc_unrecoverable d \<noteq> None then FateUnrecoverable
      else if doc_release_commit d \<noteq> None then FateRecorded
      else FateUnstated)"

definition flow_owned_present :: "document \<Rightarrow> string list" where
  "flow_owned_present d =
     map fst (filter snd
       [(''release_commit'', doc_release_commit d \<noteq> None),
        (''released_trees'', doc_trees d \<noteq> None),
        (''unrecoverable'', doc_unrecoverable d \<noteq> None),
        (''never_released'', doc_never_released d \<noteq> None),
        (''shipped_as'', doc_shipped_as d \<noteq> None),
        (''release_notices'', doc_notices d \<noteq> None),
        (''confidential_hits'', doc_hits d \<noteq> None),
        (''retracted_by'', doc_retracted_by d \<noteq> None),
        (''retracts'', doc_retracts d \<noteq> None)])"

section \<open>Conversion\<close>

datatype convert_problem =
    BumpProblem bump_error
  | DescriptionEmpty
  | TargetsOverlap "string list"
  | CertaintyMismatch nat
  | RetractedByProblem parse_error
  | RetractsProblem parse_error

definition intersection :: "string list \<Rightarrow> string list \<Rightarrow> string list" where
  "intersection a b = sort (remdups (filter (\<lambda>x. x \<in> set a) b))"

fun pad_left :: "nat \<Rightarrow> string \<Rightarrow> string" where
  "pad_left n s = replicate (n - length s) CHR ''0'' @ s"

definition date_text :: "nat \<times> nat \<times> nat \<Rightarrow> string" where
  "date_text ymd =
     (case ymd of (y, m, d) \<Rightarrow>
        pad_left 4 (dec_of_nat y) @ ''-'' @ pad_left 2 (dec_of_nat m) @ ''-'' @ pad_left 2 (dec_of_nat d))"

definition convert_hit :: "raw_hit \<Rightarrow> resolution" where
  "convert_hit h =
     \<lparr>re_hit = rh_hit h, re_location = rh_location h, re_decision = rh_resolution h,
      re_reason = rh_reason h, re_recorded = date_text (rh_recorded h),
      re_certainty = (case rh_certainty h of Some c \<Rightarrow> c | None \<Rightarrow> 0)\<rparr>"

text \<open>The decision that needs a certainty is the confidential library's constant, a parameter.\<close>

fun hit_problems :: "string \<Rightarrow> nat \<Rightarrow> raw_hit list \<Rightarrow> convert_problem list" where
  "hit_problems fp i [] = []"
| "hit_problems fp i (h # hs) =
     (if (rh_resolution h = fp) \<noteq> (rh_certainty h \<noteq> None) then [CertaintyMismatch (i + 1)] else []) @
     hit_problems fp (i + 1) hs"

fun convert_retracts :: "string list \<Rightarrow> version list \<times> convert_problem list" where
  "convert_retracts [] = ([], [])"
| "convert_retracts (text # texts) =
     (case convert_retracts texts of (vs, ps) \<Rightarrow>
        (case parse_version text of
           Inl e \<Rightarrow> (vs, RetractsProblem e # ps)
         | Inr v \<Rightarrow> (v # vs, ps)))"

definition convert :: "string \<Rightarrow> raw_release \<Rightarrow> document \<times> convert_problem list" where
  "convert fp r =
     (let bump = parse_bump (rr_bump r);
          description = trim_space (rr_description r);
          ctx = (case rr_context r of None \<Rightarrow> [] | Some c \<Rightarrow> trim_space c);
          overlap = intersection (rr_include r) (rr_exclude r);
          retracted = map_option parse_version (rr_retracted_by r);
          retracts = map_option convert_retracts (rr_retracts r)
      in (\<lparr>doc_file =
             \<lparr>rf_bump = (case bump of Inl _ \<Rightarrow> [] | Inr b \<Rightarrow> b), rf_include = rr_include r,
              rf_exclude = rr_exclude r, rf_description = description, rf_context = ctx\<rparr>,
           doc_release_commit = rr_release_commit r, doc_trees = rr_released_trees r,
           doc_unrecoverable = rr_unrecoverable r, doc_never_released = rr_never_released r,
           doc_shipped_as = rr_shipped_as r, doc_notices = rr_notices r,
           doc_hits = map_option (map convert_hit) (rr_hits r),
           doc_retracted_by = (case retracted of Some (Inr v) \<Rightarrow> Some v | _ \<Rightarrow> None),
           doc_retracts = map_option fst retracts\<rparr>,
          (case bump of Inl e \<Rightarrow> [BumpProblem e] | Inr _ \<Rightarrow> []) @
          (if description = [] then [DescriptionEmpty] else []) @
          (if overlap \<noteq> [] then [TargetsOverlap overlap] else []) @
          (case rr_hits r of None \<Rightarrow> [] | Some hs \<Rightarrow> hit_problems fp 0 hs) @
          (case retracted of Some (Inl e) \<Rightarrow> [RetractedByProblem e] | _ \<Rightarrow> []) @
          (case retracts of None \<Rightarrow> [] | Some (_, ps) \<Rightarrow> ps)))"

section \<open>Reading\<close>

datatype retraction_problem =
    RetractedNotShipped fate
  | RetractionListsNone version
  | RetractsElsewhere version
  | RetractsNotBelow version version

definition retraction_problems :: "document \<Rightarrow> version \<Rightarrow> fate \<Rightarrow> retraction_problem list" where
  "retraction_problems d v f =
     (let self = (case doc_retracted_by d of Some w \<Rightarrow> compare_versions w v = 0 | None \<Rightarrow> False)
      in (if doc_retracted_by d \<noteq> None \<and> \<not> fate_released f then [RetractedNotShipped f] else []) @
         (if self \<and> (doc_retracts d = None \<or> doc_retracts d = Some []) then [RetractionListsNone v]
          else if doc_retracts d \<noteq> None \<and> \<not> self then [RetractsElsewhere v]
          else (case doc_retracts d of
                  None \<Rightarrow> []
                | Some rs \<Rightarrow> map (\<lambda>r. RetractsNotBelow r v)
                              (filter (\<lambda>r. 0 \<le> compare_versions r v) rs))))"

datatype toml_value = TomlString string | TomlOther

datatype toml_view = BlankText | NotToml | TomlFields "string \<Rightarrow> toml_value option"

datatype 'e doc_file =
    Refused 'e toml_view
  | Decoded raw_release

datatype 'e file_error =
    DecodeRefused 'e
  | ConvertRefused "convert_problem list"
  | RetractionRefused "retraction_problem list"
  | FlowOwned "string list"

record archive =
  a_file :: release_file
  a_version :: version
  a_fate :: fate
  a_release_commit :: release_commit
  a_shipped_as :: string
  a_notices :: "string list"
  a_hits :: "resolution list"
  a_retracted_by :: string
  a_retracts :: "version list"

definition archive_retracted :: "archive \<Rightarrow> bool" where
  "archive_retracted a \<longleftrightarrow> a_retracted_by a \<noteq> []"

definition parse_document :: "string \<Rightarrow> 'e doc_file \<Rightarrow> ('e file_error, document) result" where
  "parse_document fp file =
     (case file of
        Refused e _ \<Rightarrow> Inl (DecodeRefused e)
      | Decoded r \<Rightarrow>
          (case convert fp r of (d, problems) \<Rightarrow>
             if problems \<noteq> [] then Inl (ConvertRefused problems) else Inr d))"

definition parse_release_file :: "string \<Rightarrow> 'e doc_file \<Rightarrow> ('e file_error, release_file) result" where
  "parse_release_file fp file =
     rbind (parse_document fp file) (\<lambda>d.
       if flow_owned_present d \<noteq> [] then Inl (FlowOwned (flow_owned_present d)) else Inr (doc_file d))"

definition opt_list :: "'a list option \<Rightarrow> 'a list" where
  "opt_list x = (case x of None \<Rightarrow> [] | Some xs \<Rightarrow> xs)"

definition parse_archive :: "string \<Rightarrow> version \<Rightarrow> 'e doc_file \<Rightarrow> ('e file_error, archive) result" where
  "parse_archive fp v file =
     rbind (parse_document fp file) (\<lambda>d.
       let f = document_fate d;
           commit = (if f = FateRecorded
                     then \<lparr>rc_commit = opt_list (doc_release_commit d), rc_trees = opt_list (doc_trees d)\<rparr>
                     else \<lparr>rc_commit = [], rc_trees = []\<rparr>);
           problems = retraction_problems d v f
       in if problems \<noteq> [] then Inl (RetractionRefused problems)
          else Inr \<lparr>a_file = doc_file d, a_version = v, a_fate = f, a_release_commit = commit,
                    a_shipped_as = opt_list (doc_shipped_as d), a_notices = opt_list (doc_notices d),
                    a_hits = opt_list (doc_hits d),
                    a_retracted_by = (case doc_retracted_by d of None \<Rightarrow> [] | Some w \<Rightarrow> version_string w),
                    a_retracts = opt_list (doc_retracts d)\<rparr>)"

definition blank_field :: "toml_value option \<Rightarrow> bool" where
  "blank_field v = (case v of None \<Rightarrow> True | Some (TomlString s) \<Rightarrow> trim_space s = [] | Some TomlOther \<Rightarrow> False)"

definition toml_view_of :: "'e doc_file \<Rightarrow> toml_view" where
  "toml_view_of file =
     (case file of
        Refused _ view \<Rightarrow> view
      | Decoded r \<Rightarrow> TomlFields [''bump'' \<mapsto> TomlString (rr_bump r), ''description'' \<mapsto> TomlString (rr_description r)])"

definition is_pristine_release_file :: "'e doc_file \<Rightarrow> bool" where
  "is_pristine_release_file file =
     (case toml_view_of file of
        BlankText \<Rightarrow> True
      | NotToml \<Rightarrow> False
      | TomlFields m \<Rightarrow> blank_field (m ''bump'') \<and> blank_field (m ''description''))"

section \<open>File names\<close>

definition release_file_name :: string where "release_file_name = ''unreleased.toml''"

definition archive_dir :: "string \<Rightarrow> string" where "archive_dir r = releases_dir r"

definition retired_archive_dir :: "string \<Rightarrow> string" where
  "retired_archive_dir subject = retired_history_dir subject @ ''/releases''"

definition release_file_path :: "string \<Rightarrow> string" where
  "release_file_path r = archive_dir r @ ''/'' @ release_file_name"

definition archive_name :: "version \<Rightarrow> string" where
  "archive_name v = ''v'' @ version_string v @ ''.toml''"

definition archive_path :: "string \<Rightarrow> version \<Rightarrow> string" where
  "archive_path dir v =
     path_clean (if dir = [] then archive_name v else dir @ ''/'' @ archive_name v)"

text \<open>A file name: no archive's, an archive's, or refused for a version that cannot be read.\<close>

definition archive_version :: "string \<Rightarrow> (string \<times> parse_error, version option) result" where
  "archive_version name =
     (if \<not> has_prefix name ''v'' \<or> \<not> has_suffix name ''.toml'' then Inr None
      else (case parse_version (trim_suffix (trim_prefix name ''v'') ''.toml'') of
              Inl e \<Rightarrow> Inl (name, e)
            | Inr v \<Rightarrow> Inr (Some v)))"

fun read_entries :: "(string \<times> bool) list \<Rightarrow> (string \<times> parse_error, version list) result" where
  "read_entries [] = Inr []"
| "read_entries ((name, is_dir) # entries) =
     (if is_dir then read_entries entries
      else rbind (archive_version name) (\<lambda>v.
             rbind (read_entries entries) (\<lambda>vs. Inr (case v of None \<Rightarrow> vs | Some v \<Rightarrow> v # vs))))"

text \<open>A directory listing is absent, or the names with whether each is a directory.\<close>

definition archived_versions ::
  "(string \<times> bool) list option \<Rightarrow> (string \<times> parse_error, version list) result" where
  "archived_versions listing =
     (case listing of
        None \<Rightarrow> Inr []
      | Some entries \<Rightarrow>
          rbind (read_entries entries) (\<lambda>vs. Inr (sort_by (\<lambda>a b. compare_versions a b > 0) vs)))"

definition top_directory :: "string \<Rightarrow> string" where
  "top_directory rel =
     (case str_cut (trim_prefix rel (metadata_dir @ ''/'')) ''/'' of
        (first, _, _) \<Rightarrow> metadata_dir @ ''/'' @ first)"

section \<open>Writing\<close>

text \<open>
  The release documents of one releasable: its archives by version, and its editable release
  file. A writer returns the documents it leaves; the writes themselves are atomic renames.
\<close>

record 'e release_docs =
  archives :: "version \<Rightarrow> 'e doc_file option"
  editable :: "'e doc_file option"

datatype 'e write_error =
    BadReleaseCommit commit_problem
  | CommitBesideFate fate
  | FateNotWritten fate
  | NeverReleasedShipped
  | ShippedAsSpace string
  | ArchiveExists version
  | NoArchive version
  | ReadRefused "'e file_error"
  | ResultRefused "'e file_error"
  | ArchivedNeverReleased version
  | ArchivedElsewhere version fate
  | ReleaseFileStillThere version
  | NoReleaseFile
  | SettledFate fate
  | UnrecoverableCommit string
  | UnrecoverableNeverReleased version
  | BadShippedAs string
  | ShippedNever string
  | ShippedUnder string string
  | RetractUnshipped version fate
  | RetractedAlready version string
  | EmptyNotice
  | ReleaseFileInUse

record archive_spec =
  sp_file :: release_file
  sp_fate :: fate
  sp_release_commit :: release_commit
  sp_shipped_as :: string
  sp_hits :: "raw_hit list"
  sp_retracted_by :: version
  sp_retracts :: "version list"

text \<open>What the rendering of a spec decodes to: absent fields are not written.\<close>

definition spec_raw :: "archive_spec \<Rightarrow> raw_release" where
  "spec_raw s =
     (let f = sp_file s; retraction = sp_retracted_by s \<noteq> zero_version
      in \<lparr>rr_bump = rf_bump f, rr_include = rf_include f, rr_exclude = rf_exclude f,
          rr_description = rf_description f,
          rr_context = (if rf_context f \<noteq> [] then Some (rf_context f) else None),
          rr_release_commit = (if sp_fate s = FateRecorded then Some (rc_commit (sp_release_commit s)) else None),
          rr_released_trees = (if sp_fate s = FateRecorded then Some (rc_trees (sp_release_commit s)) else None),
          rr_unrecoverable = (if sp_fate s = FateUnrecoverable then Some True else None),
          rr_never_released = (if sp_fate s = FateNeverReleased then Some True else None),
          rr_shipped_as = (if sp_shipped_as s \<noteq> [] then Some (sp_shipped_as s) else None),
          rr_notices = None,
          rr_hits = (if sp_hits s \<noteq> [] then Some (sp_hits s) else None),
          rr_retracted_by = (if retraction then Some (version_string (sp_retracted_by s)) else None),
          rr_retracts = (if retraction then Some (map version_string (sp_retracts s)) else None)\<rparr>)"

definition check_spec_fate :: "archive_spec \<Rightarrow> 'e write_error option" where
  "check_spec_fate s =
     (case sp_fate s of
        FateRecorded \<Rightarrow> map_option BadReleaseCommit (check_release_commit (sp_release_commit s))
      | FateUnrecoverable \<Rightarrow>
          if rc_commit (sp_release_commit s) \<noteq> [] \<or> rc_trees (sp_release_commit s) \<noteq> []
          then Some (CommitBesideFate FateUnrecoverable) else None
      | FateNeverReleased \<Rightarrow>
          if rc_commit (sp_release_commit s) \<noteq> [] \<or> rc_trees (sp_release_commit s) \<noteq> []
          then Some (CommitBesideFate FateNeverReleased) else None
      | f \<Rightarrow> Some (FateNotWritten f))"

definition put_archive :: "version \<Rightarrow> raw_release \<Rightarrow> 'e release_docs \<Rightarrow> 'e release_docs" where
  "put_archive v r st = st\<lparr>archives := (archives st)(v \<mapsto> Decoded r)\<rparr>"

definition write_archive ::
  "string \<Rightarrow> version \<Rightarrow> archive_spec \<Rightarrow> 'e release_docs \<Rightarrow> ('e write_error, 'e release_docs) result" where
  "write_archive fp v s st =
     (case check_spec_fate s of
        Some e \<Rightarrow> Inl e
      | None \<Rightarrow>
          if sp_shipped_as s \<noteq> [] \<and> sp_fate s = FateNeverReleased then Inl NeverReleasedShipped
          else if sp_shipped_as s \<noteq> trim_space (sp_shipped_as s) then Inl (ShippedAsSpace (sp_shipped_as s))
          else if archives st v \<noteq> None then Inl (ArchiveExists v)
          else (case parse_archive fp v (Decoded (spec_raw s) :: 'e doc_file) of
                  Inl e \<Rightarrow> Inl (ResultRefused e)
                | Inr _ \<Rightarrow> Inr (put_archive v (spec_raw s) st)))"

definition set_release_commit :: "release_commit \<Rightarrow> raw_release \<Rightarrow> raw_release" where
  "set_release_commit c r =
     r\<lparr>rr_released_trees := Some (rc_trees c), rr_release_commit := Some (rc_commit c)\<rparr>"

definition edit_document ::
  "string \<Rightarrow> version \<Rightarrow> raw_release \<Rightarrow> ('e write_error, raw_release) result \<Rightarrow> ('e write_error, raw_release) result" where
  "edit_document fp v r edited =
     rbind edited (\<lambda>out.
       case parse_archive fp v (Decoded out :: 'e doc_file) of
         Inl e \<Rightarrow> Inl (ResultRefused e)
       | Inr _ \<Rightarrow> Inr out)"

text \<open>
  The archive and whether it was there. An edit sees the archive as parsed and the document; it
  refuses, or gives whether it changed anything and the document it leaves.
\<close>

definition rewrite_archive ::
  "string \<Rightarrow> version \<Rightarrow> (archive \<Rightarrow> raw_release \<Rightarrow> ('e write_error, bool \<times> raw_release) result) \<Rightarrow>
     'e release_docs \<Rightarrow> ('e write_error, bool \<times> 'e release_docs) result" where
  "rewrite_archive fp v edit st =
     (case archives st v of
        None \<Rightarrow> Inl (NoArchive v)
      | Some file \<Rightarrow>
          (case parse_archive fp v file of
             Inl e \<Rightarrow> Inl (ReadRefused e)
           | Inr a \<Rightarrow>
               (case file of
                  Refused e _ \<Rightarrow> Inl (ReadRefused (DecodeRefused e))
                | Decoded r \<Rightarrow>
                    rbind (edit a r) (\<lambda>(changed, out).
                      rbind (edit_document fp v r (Inr out)) (\<lambda>out.
                        Inr (if changed then (True, put_archive v out st) else (False, st)))))))"

definition write_release_commit ::
  "string \<Rightarrow> version \<Rightarrow> release_commit \<Rightarrow> 'e release_docs \<Rightarrow> ('e write_error, 'e release_docs) result" where
  "write_release_commit fp v c st =
     (case check_release_commit c of
        Some p \<Rightarrow> Inl (BadReleaseCommit p)
      | None \<Rightarrow>
          rbind (rewrite_archive fp v (\<lambda>a r.
            if a_fate a = FateUnrecoverable \<or> a_fate a = FateNeverReleased then Inl (SettledFate (a_fate a))
            else Inr (True, set_release_commit c r)) st) (\<lambda>(_, st). Inr st))"


definition mark_unrecoverable ::
  "string \<Rightarrow> version \<Rightarrow> 'e release_docs \<Rightarrow> ('e write_error, 'e release_docs) result" where
  "mark_unrecoverable fp v st =
     rbind (rewrite_archive fp v (\<lambda>a r.
       case a_fate a of
         FateRecorded \<Rightarrow> Inl (UnrecoverableCommit (rc_commit (a_release_commit a)))
       | FateNeverReleased \<Rightarrow> Inl (UnrecoverableNeverReleased v)
       | FateUnrecoverable \<Rightarrow> Inr (False, r)
       | _ \<Rightarrow> Inr (True, r\<lparr>rr_unrecoverable := Some True\<rparr>)) st) (\<lambda>(_, st). Inr st)"

definition record_shipped_as ::
  "string \<Rightarrow> version \<Rightarrow> string \<Rightarrow> 'e release_docs \<Rightarrow> ('e write_error, bool \<times> 'e release_docs) result" where
  "record_shipped_as fp v tag st =
     (if trim_space tag = [] \<or> tag \<noteq> trim_space tag then Inl (BadShippedAs tag)
      else rewrite_archive fp v (\<lambda>a r.
        if a_fate a = FateNeverReleased then Inl (ShippedNever tag)
        else if a_shipped_as a = tag then Inr (False, r)
        else if a_shipped_as a \<noteq> [] then Inl (ShippedUnder tag (a_shipped_as a))
        else Inr (True, r\<lparr>rr_shipped_as := Some tag\<rparr>)) st)"

definition mark_retracted ::
  "string \<Rightarrow> version \<Rightarrow> version \<Rightarrow> 'e release_docs \<Rightarrow> ('e write_error, bool \<times> 'e release_docs) result" where
  "mark_retracted fp v w st =
     rewrite_archive fp v (\<lambda>a r.
       if \<not> fate_released (a_fate a) then Inl (RetractUnshipped v (a_fate a))
       else if a_retracted_by a = version_string w then Inr (False, r)
       else if archive_retracted a then Inl (RetractedAlready v (a_retracted_by a))
       else Inr (True, r\<lparr>rr_retracted_by := Some (version_string w)\<rparr>)) st"

definition record_release_notice ::
  "string \<Rightarrow> version \<Rightarrow> string \<Rightarrow> 'e release_docs \<Rightarrow> ('e write_error, 'e release_docs) result" where
  "record_release_notice fp v notice st =
     (if trim_space notice = [] then Inl EmptyNotice
      else rbind (rewrite_archive fp v (\<lambda>a r.
             Inr (True, r\<lparr>rr_notices := Some (notice # a_notices a)\<rparr>)) st) (\<lambda>(_, st). Inr st))"

definition append_hits :: "raw_hit list \<Rightarrow> raw_release \<Rightarrow> raw_release" where
  "append_hits hits r = (if hits = [] then r else r\<lparr>rr_hits := Some (opt_list (rr_hits r) @ hits)\<rparr>)"

definition archive_release_file ::
  "string \<Rightarrow> version \<Rightarrow> release_commit \<Rightarrow> raw_hit list \<Rightarrow> 'e release_docs \<Rightarrow>
     ('e write_error, 'e release_docs) result" where
  "archive_release_file fp v c hits st =
     (case check_release_commit c of
        Some p \<Rightarrow> Inl (BadReleaseCommit p)
      | None \<Rightarrow>
          (case archives st v of
             Some existing \<Rightarrow>
               (case parse_archive fp v existing of
                  Inl e \<Rightarrow> Inl (ReadRefused e)
                | Inr a \<Rightarrow>
                    if a_fate a = FateNeverReleased then Inl (ArchivedNeverReleased v)
                    else if a_fate a \<noteq> FateRecorded \<or> rc_commit (a_release_commit a) \<noteq> rc_commit c
                    then Inl (ArchivedElsewhere v (a_fate a))
                    else if editable st \<noteq> None then Inl (ReleaseFileStillThere v)
                    else Inr st)
           | None \<Rightarrow>
               (case editable st of
                  None \<Rightarrow> Inl NoReleaseFile
                | Some file \<Rightarrow>
                    (case parse_release_file fp file of
                       Inl e \<Rightarrow> Inl (ReadRefused e)
                     | Inr _ \<Rightarrow>
                         (case file of
                            Refused e _ \<Rightarrow> Inl (ReadRefused (DecodeRefused e))
                          | Decoded r \<Rightarrow>
                              rbind (edit_document fp v r (Inr (set_release_commit c r))) (\<lambda>out.
                              rbind (edit_document fp v out (Inr (append_hits hits out))) (\<lambda>out.
                                Inr ((put_archive v out st)\<lparr>editable := None\<rparr>))))))))"

definition strip_flow_owned :: "raw_release \<Rightarrow> raw_release" where
  "strip_flow_owned r =
     r\<lparr>rr_release_commit := None, rr_released_trees := None, rr_unrecoverable := None,
       rr_never_released := None, rr_shipped_as := None, rr_notices := None, rr_hits := None,
       rr_retracted_by := None, rr_retracts := None\<rparr>"

definition unfinalize ::
  "string \<Rightarrow> version \<Rightarrow> 'e release_docs \<Rightarrow> ('e write_error, bool \<times> 'e release_docs) result" where
  "unfinalize fp v st =
     (case archives st v of
        None \<Rightarrow> Inr (False, st)
      | Some file \<Rightarrow>
          if (case editable st of None \<Rightarrow> False | Some existing \<Rightarrow> \<not> is_pristine_release_file existing)
          then Inl ReleaseFileInUse
          else (case parse_archive fp v file of
                  Inl e \<Rightarrow> Inl (ReadRefused e)
                | Inr _ \<Rightarrow>
                    (case file of
                       Refused e _ \<Rightarrow> Inl (ReadRefused (DecodeRefused e))
                     | Decoded r \<Rightarrow>
                         (let out = strip_flow_owned r
                          in case parse_release_file fp (Decoded out :: 'e doc_file) of
                               Inl e \<Rightarrow> Inl (ResultRefused e)
                             | Inr _ \<Rightarrow>
                                 Inr (True, \<lparr>archives = (archives st)(v := None),
                                             editable = Some (Decoded out)\<rparr>)))))"

section \<open>Archive names\<close>

lemma archive_version_dec:
  "archive_version name = Inr (Some v) \<longleftrightarrow> affix_dec ''v'' ''.toml'' read_version name = Some v"
proof (cases "has_prefix name ''v'' \<and> has_suffix name ''.toml''")
  case True
  then obtain t where t: "name = ''v'' @ t" by (auto simp: has_prefix_iff)
  from True obtain u where "name = u @ ''.toml''" by (auto simp: has_suffix_iff)
  with t obtain m where n: "name = ''v'' @ m @ ''.toml''"
    by (cases u) auto
  then have "trim_suffix (trim_prefix name ''v'') ''.toml'' = m"
    by (simp add: trim_prefix_def trim_suffix_def)
  with True n show ?thesis
    using affix_dec_append [of "''v''" "''.toml''" read_version m]
    by (auto simp: archive_version_def read_version_def split: sum.splits)
next
  case False
  then show ?thesis by (auto simp: archive_version_def affix_dec_def)
qed

interpretation archive_names: text_codec archive_name "affix_dec ''v'' ''.toml'' read_version"
  using version_affix.wrapped.text_codec_axioms [of "''v''" "''.toml''"]
  by (simp add: archive_name_def [abs_def])

lemma archive_version_iff: "archive_version name = Inr (Some v) \<longleftrightarrow> name = archive_name v"
  by (simp add: archive_version_dec archive_names.dec_iff)

lemma read_entries_Inr:
  "read_entries entries = Inr vs \<Longrightarrow>
     vs = List.map_filter (affix_dec ''v'' ''.toml'' read_version) (map fst (filter (\<lambda>e. \<not> snd e) entries))"
proof (induction entries arbitrary: vs)
  case Nil
  then show ?case by (simp add: List.map_filter_simps)
next
  case (Cons e entries)
  obtain name d where e: "e = (name, d)" by force
  show ?case
  proof (cases d)
    case True
    with Cons e show ?thesis by simp
  next
    case False
    with Cons.prems e obtain v ws where v: "archive_version name = Inr v"
      and ws: "read_entries entries = Inr ws" and vs: "vs = (case v of None \<Rightarrow> ws | Some v \<Rightarrow> v # ws)"
      by (auto simp: rbind_eq_Inr)
    have "affix_dec ''v'' ''.toml'' read_version name = v"
    proof (cases v)
      case None
      with v have "archive_version name \<noteq> Inr (Some x)" for x by simp
      with None show ?thesis
        by (metis archive_version_dec not_None_eq)
    next
      case (Some x)
      with v show ?thesis by (simp add: archive_version_dec)
    qed
    with vs Cons.IH [OF ws] e False show ?thesis
      by (cases v) (simp_all add: List.map_filter_simps)
  qed
qed

lemma archived_versions_Inr:
  assumes "archived_versions (Some entries) = Inr vs"
  obtains ws where "read_entries entries = Inr ws" "vs = sort_by (\<lambda>a b. b < a) ws"
proof -
  have "(\<lambda>a b :: version. compare_versions a b > 0) = (\<lambda>a b. b < a)"
    by (auto simp: fun_eq_iff compare_versions_spec)
  with assms that show thesis
    by (auto simp: archived_versions_def rbind_eq_Inr)
qed

lemma archived_versions_sorted:
  assumes "archived_versions (Some entries) = Inr vs"
  shows "sorted_wrt (\<lambda>a b. b \<le> a) vs"
proof -
  from assms obtain ws where "vs = sort_by (\<lambda>a b. b < a) ws" by (rule archived_versions_Inr)
  moreover have "sorted_wrt (\<lambda>a b :: version. \<not> b > a) (sort_by (\<lambda>a b. b < a) ws)"
    by (rule sorted_sort_by) auto
  ultimately show ?thesis by (simp add: not_less)
qed

lemma archived_versions_set:
  assumes "archived_versions (Some entries) = Inr vs"
  shows "set vs = {v. (archive_name v, False) \<in> set entries}"
proof -
  from assms obtain ws where "read_entries entries = Inr ws" "vs = sort_by (\<lambda>a b. b < a) ws"
    by (rule archived_versions_Inr)
  then show ?thesis
    by (force simp: archive_names.set_map_filter_dec image_iff dest: read_entries_Inr)
qed

text \<open>
  The versions a release directory archives are exactly those an archive is named for,
  listed highest first, one version for each archive; a name that looks like an archive's and is not readable
  makes the listing an error instead of hiding a release.
\<close>

theorem archived_versions_listing:
  "case archived_versions (Some entries) of
     Inr vs \<Rightarrow> set vs = {v. (archive_name v, False) \<in> set entries} \<and>
        sorted_wrt (\<lambda>a b. b \<le> a) vs \<and>
        length vs = length (filter (\<lambda>e. \<not> snd e \<and> fst e \<in> range archive_name) entries)
   | Inl (name, e) \<Rightarrow> (name, False) \<in> set entries \<and> has_prefix name ''v'' \<and> has_suffix name ''.toml'' \<and>
        name \<notin> range archive_name"
proof (cases "read_entries entries")
  case (Inr ws)
  let ?names = "map fst (filter (\<lambda>e. \<not> snd e) entries)"
  have ws: "ws = List.map_filter (affix_dec ''v'' ''.toml'' read_version) ?names"
    by (rule read_entries_Inr [OF Inr])
  let ?lt = "\<lambda>a b :: version. compare_versions a b > 0"
  have "archived_versions (Some entries) = Inr (sort_by ?lt ws)"
    using Inr by (simp add: archived_versions_def)
  note archived_versions_sorted [OF this] archived_versions_set [OF this]
  moreover have "length (sort_by ?lt ws) = length (filter (\<lambda>e. \<not> snd e \<and> fst e \<in> range archive_name) entries)"
    by (simp add: ws archive_names.length_map_filter_dec filter_map comp_def conj_commute)
  ultimately show ?thesis
    using Inr by (simp add: archived_versions_def)
next
  case (Inl e)
  obtain name pe where e: "e = (name, pe)" by force
  have "\<exists>entry \<in> set entries. \<not> snd entry \<and> archive_version (fst entry) = Inl e"
    using Inl by (induction entries) (auto simp: rbind_eq_Inl split: if_splits)
  then obtain entry where en: "entry \<in> set entries" "\<not> snd entry" "archive_version (fst entry) = Inl e"
    by blast
  then have "fst entry = name" using e by (auto simp: archive_version_def split: if_splits sum.splits)
  moreover have "name \<notin> range archive_name"
  proof
    assume "name \<in> range archive_name"
    then obtain v where "name = archive_name v" by blast
    with en \<open>fst entry = name\<close> show False
      using archive_version_iff [of name v] by simp
  qed
  ultimately show ?thesis
    using Inl e en by (auto simp: archived_versions_def archive_version_def split: if_splits)
      (metis prod.collapse)
qed

section \<open>The fate of a version\<close>

definition raw_fate :: "raw_release \<Rightarrow> fate" where
  "raw_fate r =
     (if rr_never_released r \<noteq> None then FateNeverReleased
      else if rr_unrecoverable r \<noteq> None then FateUnrecoverable
      else if rr_release_commit r \<noteq> None then FateRecorded
      else FateUnstated)"

lemma convert_fields [simp]:
  "doc_release_commit (fst (convert fp r)) = rr_release_commit r"
  "doc_trees (fst (convert fp r)) = rr_released_trees r"
  "doc_unrecoverable (fst (convert fp r)) = rr_unrecoverable r"
  "doc_never_released (fst (convert fp r)) = rr_never_released r"
  "doc_shipped_as (fst (convert fp r)) = rr_shipped_as r"
  "doc_notices (fst (convert fp r)) = rr_notices r"
  "document_fate (fst (convert fp r)) = raw_fate r"
  by (simp_all add: convert_def Let_def document_fate_def raw_fate_def)

lemma parse_document_Inr:
  "parse_document fp file = Inr d \<longleftrightarrow> (\<exists>r. file = Decoded r \<and> convert fp r = (d, []))"
  by (cases "file") (auto simp: parse_document_def split: prod.splits)

lemma parse_archive_Decoded:
  assumes "parse_archive fp v file = Inr a"
  obtains r where "file = Decoded r" "snd (convert fp r) = []" "a_fate a = raw_fate r" "a_version a = v"
    "a_shipped_as a = opt_list (rr_shipped_as r)" "a_notices a = opt_list (rr_notices r)"
    "a_fate a = FateRecorded \<Longrightarrow> rr_release_commit r = Some (rc_commit (a_release_commit a))"
proof -
  from assms obtain d where pd: "parse_document fp file = Inr d"
    by (auto simp: parse_archive_def rbind_eq_Inr)
  then obtain r where d: "file = Decoded r" "convert fp r = (d, [])"
    by (auto simp: parse_document_Inr)
  from assms pd have a: "a_fate a = document_fate d" "a_version a = v"
    "a_shipped_as a = opt_list (doc_shipped_as d)" "a_notices a = opt_list (doc_notices d)"
    "document_fate d = FateRecorded \<Longrightarrow> rc_commit (a_release_commit a) = opt_list (doc_release_commit d)"
    by (auto simp: parse_archive_def Let_def split: if_splits)
  from d(2) have df: "d = fst (convert fp r)" by simp
  have "rr_release_commit r = Some (rc_commit (a_release_commit a))" if "a_fate a = FateRecorded"
    using that a(1,5) by (auto simp: df raw_fate_def opt_list_def split: if_splits option.splits)
  moreover have "snd (convert fp r) = []" using d(2) by simp
  ultimately show thesis
    using d(1) a by (intro that [of r]) (simp_all add: df)
qed

definition fate_at :: "string \<Rightarrow> 'e release_docs \<Rightarrow> version \<Rightarrow> fate" where
  "fate_at fp st v =
     (case archives st v of
        None \<Rightarrow> FateAbsent
      | Some file \<Rightarrow> (case parse_archive fp v file of Inl _ \<Rightarrow> FateUnstated | Inr a \<Rightarrow> a_fate a))"

definition readable :: "string \<Rightarrow> 'e release_docs \<Rightarrow> bool" where
  "readable fp st \<longleftrightarrow> (\<forall>v file. archives st v = Some file \<longrightarrow> (\<exists>a. parse_archive fp v file = Inr a))"

lemma put_archive_simps [simp]:
  "archives (put_archive v r st) = (archives st)(v \<mapsto> Decoded r)"
  "editable (put_archive v r st) = editable st"
  by (simp_all add: put_archive_def)

text \<open>What the commands may do to a releasable's release documents, one write at a time.\<close>

inductive doc_step :: "string \<Rightarrow> 'e release_docs \<Rightarrow> 'e release_docs \<Rightarrow> bool" for fp where
  edit_file: "doc_step fp st (st\<lparr>editable := f\<rparr>)"
| archive_spec: "write_archive fp v s st = Inr st' \<Longrightarrow> doc_step fp st st'"
| archive_file: "archive_release_file fp v c hits st = Inr st' \<Longrightarrow> doc_step fp st st'"
| commit: "write_release_commit fp v c st = Inr st' \<Longrightarrow> doc_step fp st st'"
| unrecoverable: "mark_unrecoverable fp v st = Inr st' \<Longrightarrow> doc_step fp st st'"
| shipped_as: "record_shipped_as fp v tag st = Inr (b, st') \<Longrightarrow> doc_step fp st st'"
| retract: "mark_retracted fp v w st = Inr (b, st') \<Longrightarrow> doc_step fp st st'"
| notice: "record_release_notice fp v notice st = Inr st' \<Longrightarrow> doc_step fp st st'"
| undo: "unfinalize fp v st = Inr (b, st') \<Longrightarrow> doc_step fp st st'"

inductive_cases doc_stepE: "doc_step fp st st'"

text \<open>
  One write touches one archive: it leaves the store, removes an archive, or puts a readable
  document in place of none, of one stating no fate, or of one stating the same fate.
\<close>

definition one_write :: "string \<Rightarrow> 'e release_docs \<Rightarrow> 'e release_docs \<Rightarrow> bool" where
  "one_write fp st st' \<longleftrightarrow>
     archives st' = archives st \<or>
     (\<exists>v. archives st' = (archives st)(v := None)) \<or>
     (\<exists>v r a. archives st' = (archives st)(v \<mapsto> Decoded r) \<and>
        parse_archive fp v (Decoded r :: 'e doc_file) = Inr a \<and>
        (fate_at fp st v \<in> {FateAbsent, FateUnstated} \<or> a_fate a = fate_at fp st v))"

lemma edit_document_Inr:
  fixes edited :: "('e write_error, raw_release) result"
  shows "edit_document fp v r edited = Inr out \<longleftrightarrow>
    edited = Inr out \<and> (\<exists>a. parse_archive fp v (Decoded out :: 'e doc_file) = Inr a)"
  by (cases edited; cases "parse_archive fp v (Decoded (projr edited) :: 'e doc_file)")
    (auto simp: edit_document_def)

lemma rewrite_archive_Inr:
  fixes st :: "'e release_docs"
  assumes "rewrite_archive fp v edit st = Inr (b, st')"
  obtains a r where "archives st v = Some (Decoded r)" "parse_archive fp v (Decoded r :: 'e doc_file) = Inr a"
    "(b = False \<and> st' = st) \<or>
     (\<exists>out a'. b \<and> edit a r = Inr (True, out) \<and> st' = put_archive v out st \<and>
        parse_archive fp v (Decoded out :: 'e doc_file) = Inr a')"
proof -
  from assms obtain fl where f: "archives st v = Some fl"
    by (auto simp: rewrite_archive_def split: option.splits)
  with assms obtain a where a: "parse_archive fp v fl = Inr a"
    by (auto simp: rewrite_archive_def split: sum.splits)
  then obtain r where r: "fl = Decoded r" by (rule parse_archive_Decoded)
  show thesis
    using assms f a r
    by (intro that [of r a])
      (auto simp: rewrite_archive_def edit_document_Inr rbind_eq_Inr split: if_splits)
qed

lemma rewrite_one_write:
  fixes st :: "'e release_docs"
  assumes "rewrite_archive fp v edit st = Inr (b, st')"
    and keeps: "\<And>a r out. a_fate a = raw_fate r \<Longrightarrow> edit a r = Inr (True, out) \<Longrightarrow>
      a_fate a \<in> {FateAbsent, FateUnstated} \<or> raw_fate out = raw_fate r"
  shows "one_write fp st st'"
  using assms(1)
proof (rule rewrite_archive_Inr)
  fix a r
  assume st: "archives st v = Some (Decoded r)" "parse_archive fp v (Decoded r :: 'e doc_file) = Inr a"
    and res: "(b = False \<and> st' = st) \<or> (\<exists>out a'. b \<and> edit a r = Inr (True, out) \<and>
      st' = put_archive v out st \<and> parse_archive fp v (Decoded out :: 'e doc_file) = Inr a')"
  have fr: "a_fate a = raw_fate r"
    using st(2) by (auto elim: parse_archive_Decoded)
  have fa: "fate_at fp st v = a_fate a" using st by (simp add: fate_at_def)
  from res show ?thesis
  proof (elim disjE exE conjE)
    fix out a'
    assume e: "edit a r = Inr (True, out)" and st': "st' = put_archive v out st"
      and a': "parse_archive fp v (Decoded out :: 'e doc_file) = Inr a'"
    have "a_fate a' = raw_fate out" using a' by (auto elim: parse_archive_Decoded)
    with keeps [OF fr e] fa fr st' a'
    have "archives st' = (archives st)(v \<mapsto> Decoded out) \<and>
      parse_archive fp v (Decoded out :: 'e doc_file) = Inr a' \<and>
      (fate_at fp st v \<in> {FateAbsent, FateUnstated} \<or> a_fate a' = fate_at fp st v)" by auto
    then show ?thesis unfolding one_write_def by blast
  qed (simp add: one_write_def)
qed

lemma raw_fate_simps [simp]:
  "raw_fate (r\<lparr>rr_shipped_as := x\<rparr>) = raw_fate r"
  "raw_fate (r\<lparr>rr_retracted_by := y\<rparr>) = raw_fate r"
  "raw_fate (r\<lparr>rr_notices := n\<rparr>) = raw_fate r"
  "raw_fate (append_hits hits r) = raw_fate r"
  by (simp_all add: raw_fate_def append_hits_def)

lemma raw_fate_set_commit:
  "raw_fate r \<noteq> FateUnrecoverable \<Longrightarrow> raw_fate r \<noteq> FateNeverReleased \<Longrightarrow>
     raw_fate (set_release_commit c r) = FateRecorded"
  by (auto simp: raw_fate_def set_release_commit_def split: if_splits)

lemma write_archive_Inr:
  fixes st :: "'e release_docs"
  assumes "write_archive fp v s st = Inr st'"
  obtains a where "archives st v = None" "st' = put_archive v (spec_raw s) st"
    "parse_archive fp v (Decoded (spec_raw s) :: 'e doc_file) = Inr a" "check_spec_fate s = (None :: 'e write_error option)"
  using assms by (auto simp: write_archive_def split: option.splits if_splits sum.splits)

lemma archive_release_file_Inr:
  fixes st :: "'e release_docs"
  assumes "archive_release_file fp v c hits st = Inr st'"
  obtains (again) "st' = st" "editable st = None" "archives st v \<noteq> None"
  | (archived) r f a where "archives st v = None" "editable st = Some (Decoded r)" "check_release_commit c = None"
      "parse_release_file fp (Decoded r :: 'e doc_file) = Inr f"
      "parse_archive fp v (Decoded (append_hits hits (set_release_commit c r)) :: 'e doc_file) = Inr a"
      "st' = (put_archive v (append_hits hits (set_release_commit c r)) st)\<lparr>editable := None\<rparr>"
proof (cases "archives st v")
  case (Some existing)
  with assms have "st' = st \<and> editable st = None"
    by (auto simp: archive_release_file_def split: option.splits sum.splits if_splits)
  with Some again show thesis by simp
next
  case None
  with assms obtain fl f where e: "editable st = Some fl" "parse_release_file fp fl = Inr f"
    "check_release_commit c = None"
    by (auto simp: archive_release_file_def split: option.splits sum.splits)
  then obtain r where r: "fl = Decoded r"
    by (auto simp: parse_release_file_def rbind_eq_Inr parse_document_Inr)
  with assms None e have "st' = (put_archive v (append_hits hits (set_release_commit c r)) st)\<lparr>editable := None\<rparr> \<and>
      (\<exists>a. parse_archive fp v (Decoded (append_hits hits (set_release_commit c r)) :: 'e doc_file) = Inr a)"
    by (auto simp: archive_release_file_def edit_document_Inr rbind_eq_Inr)
  with None e r archived show thesis by blast
qed

lemma one_write_new:
  fixes st st' :: "'e release_docs"
  assumes "archives st v = None" "archives st' = (archives st)(v \<mapsto> Decoded r)"
    and "parse_archive fp v (Decoded r :: 'e doc_file) = Inr a"
  shows "one_write fp st st'"
proof -
  from assms(1) have "fate_at fp st v = FateAbsent" by (simp add: fate_at_def)
  with assms(2,3) show ?thesis unfolding one_write_def by blast
qed

lemma unfinalize_archives:
  "unfinalize fp v st = Inr (b, st') \<Longrightarrow>
     archives st' = archives st \<or> archives st' = (archives st)(v := None)"
  by (auto simp: unfinalize_def Let_def split: option.splits if_splits sum.splits doc_file.splits)

lemma doc_step_one_write: "doc_step fp st st' \<Longrightarrow> one_write fp st st'"
proof (induction rule: doc_step.induct)
  case (edit_file st f)
  then show ?case by (simp add: one_write_def)
next
  case (archive_spec v s st st')
  then show ?case by (auto elim!: write_archive_Inr intro: one_write_new)
next
  case (archive_file v c hits st st')
  then show ?case
  proof (cases rule: archive_release_file_Inr)
    case again
    then show ?thesis by (simp add: one_write_def)
  next
    case (archived r f a)
    then show ?thesis
      by (intro one_write_new [of st v st' "append_hits hits (set_release_commit c r)" fp a]) simp_all
  qed
next
  case (commit v c st st')
  then obtain b where "rewrite_archive fp v (\<lambda>a r.
      if a_fate a = FateUnrecoverable \<or> a_fate a = FateNeverReleased then Inl (SettledFate (a_fate a))
      else Inr (True, set_release_commit c r)) st = Inr (b, st')"
    by (auto simp: write_release_commit_def rbind_eq_Inr split: option.splits)
  then show ?case
    by (rule rewrite_one_write) (auto simp: raw_fate_def set_release_commit_def split: if_splits)
next
  case (unrecoverable v st st')
  then obtain b where "rewrite_archive fp v (\<lambda>a r. case a_fate a of
         FateRecorded \<Rightarrow> Inl (UnrecoverableCommit (rc_commit (a_release_commit a)))
       | FateNeverReleased \<Rightarrow> Inl (UnrecoverableNeverReleased v)
       | FateUnrecoverable \<Rightarrow> Inr (False, r)
       | _ \<Rightarrow> Inr (True, r\<lparr>rr_unrecoverable := Some True\<rparr>)) st = Inr (b, st')"
    by (auto simp: mark_unrecoverable_def rbind_eq_Inr)
  then show ?case
    by (rule rewrite_one_write) (auto split: fate.splits)
next
  case (shipped_as v tag st b st')
  then show ?case
    by (auto simp: record_shipped_as_def split: if_splits elim!: rewrite_one_write)
next
  case (retract v w st b st')
  then show ?case
    by (auto simp: mark_retracted_def split: if_splits elim!: rewrite_one_write)
next
  case (notice v notice st st')
  then show ?case
    by (auto simp: record_release_notice_def rbind_eq_Inr split: if_splits elim!: rewrite_one_write)
next
  case (undo v st b st')
  then show ?case using unfinalize_archives unfolding one_write_def by blast
qed

text \<open>
  C4. A settled fate stays settled: no command turns a recorded, an unrecoverable or a
  never-released version into one of the others. The only other change is the undo of a
  release, which removes the archive.
\<close>

theorem settled_fate_stays:
  fixes st :: "'e release_docs"
  assumes "doc_step fp st st'" and "fate_at fp st v \<in> {FateRecorded, FateUnrecoverable, FateNeverReleased}"
  shows "fate_at fp st' v \<in> {fate_at fp st v, FateAbsent}"
proof -
  from doc_step_one_write [OF assms(1)] show ?thesis
  proof (unfold one_write_def, elim disjE exE conjE)
    fix w r a
    assume w: "archives st' = (archives st)(w \<mapsto> Decoded r)" "parse_archive fp w (Decoded r) = Inr a"
      and "fate_at fp st w \<in> {FateAbsent, FateUnstated}"
    then show ?thesis using assms(2) by (cases "v = w") (auto simp: fate_at_def)
  next
    fix w r a
    assume w: "archives st' = (archives st)(w \<mapsto> Decoded r)"
        "parse_archive fp w (Decoded r :: 'e doc_file) = Inr a"
      and f: "a_fate a = fate_at fp st w"
    show ?thesis
    proof (cases "v = w")
      case True
      with w have "fate_at fp st' v = a_fate a" by (simp add: fate_at_def)
      with f True show ?thesis by simp
    next
      case False
      with w show ?thesis by (simp add: fate_at_def)
    qed
  qed (auto simp: fate_at_def)
qed

lemma readable_step: "doc_step fp st st' \<Longrightarrow> readable fp st \<Longrightarrow> readable fp st'"
  by (drule doc_step_one_write) (auto simp: one_write_def readable_def split: if_splits)

text \<open>
  C5. Whatever the commands do from a repository with no archive, every archive they leave is
  one their own reader accepts: none is written that the record could not be read from.
\<close>

theorem archives_stay_readable:
  assumes "(doc_step fp)\<^sup>*\<^sup>* st st'" and "archives st = (\<lambda>_. None)"
  shows "readable fp st'"
proof -
  have "readable fp st" using assms(2) by (simp add: readable_def)
  with assms(1) show ?thesis by (induction rule: rtranclp_induct) (auto intro: readable_step)
qed

section \<open>Releasing and undoing\<close>

lemma strip_owned_set_commit [simp]:
  "strip_flow_owned (append_hits hits (set_release_commit c r)) = strip_flow_owned r"
  by (simp add: strip_flow_owned_def append_hits_def set_release_commit_def)

lemma release_file_owned_fields:
  assumes "parse_release_file fp (Decoded r :: 'e doc_file) = Inr f"
  shows "strip_flow_owned r = r"
proof -
  from assms have "flow_owned_present (fst (convert fp r)) = []"
    by (auto simp: parse_release_file_def rbind_eq_Inr parse_document_Inr split: if_splits)
  then have "rr_release_commit r = None" "rr_released_trees r = None" "rr_unrecoverable r = None"
    "rr_never_released r = None" "rr_shipped_as r = None" "rr_notices r = None"
    "rr_hits r = None" "rr_retracted_by r = None \<or> (\<exists>e t. rr_retracted_by r = Some t \<and> parse_version t = Inl e)"
    "rr_retracts r = None"
    by (auto simp: flow_owned_present_def convert_def Let_def split: if_splits option.splits sum.splits)
  moreover have "\<not> (\<exists>e t. rr_retracted_by r = Some t \<and> parse_version t = Inl e)"
    using assms by (auto simp: parse_release_file_def rbind_eq_Inr parse_document_Inr convert_def Let_def)
  ultimately show ?thesis by (simp add: strip_flow_owned_def)
qed

text \<open>
  C6. Undoing a release restores the release file: archiving a release file and undoing it
  gives back the release documents there were, the operator's fields included, whatever commit
  and confidential resolutions the release recorded in between. Archiving the same release
  again, as a resumed release does, changes nothing.
\<close>

theorem archive_then_undo:
  fixes st :: "'e release_docs"
  assumes "archive_release_file fp v c hits st = Inr st1" and "archives st v = None"
  shows "unfinalize fp v st1 = Inr (True, st) \<and> archive_release_file fp v c hits' st1 = Inr st1"
  using assms(1)
proof (cases rule: archive_release_file_Inr)
  case again
  with assms(2) show ?thesis by simp
next
  case (archived r f a)
  let ?r = "append_hits hits (set_release_commit c r)"
  have strip: "strip_flow_owned r = r" by (rule release_file_owned_fields [OF archived(4)])
  have st1: "archives st1 v = Some (Decoded ?r)" "editable st1 = None"
    "archives st1 = (archives st)(v \<mapsto> Decoded ?r)"
    using archived(6) by simp_all
  have "(archives st1)(v := None) = archives st"
    using st1(3) assms(2) by (auto simp: fun_eq_iff)
  then have undo: "unfinalize fp v st1 = Inr (True, st)"
    using st1 archived(2,4,5) strip
    by (simp add: unfinalize_def Let_def)
  have "raw_fate (strip_flow_owned r) = FateUnstated"
    by (simp add: raw_fate_def strip_flow_owned_def)
  with strip have fr: "raw_fate r = FateUnstated" by simp
  then have fate: "a_fate a = FateRecorded"
    using archived(5) by (auto elim!: parse_archive_Decoded simp: raw_fate_set_commit)
  moreover have "rc_commit (a_release_commit a) = rc_commit c"
    using archived(5) fate
    by (auto elim!: parse_archive_Decoded simp: append_hits_def set_release_commit_def split: if_splits)
  ultimately have "archive_release_file fp v c hits' st1 = Inr st1"
    using st1 archived(3,5) by (simp add: archive_release_file_def)
  with undo show ?thesis by blast
qed

section \<open>A concrete release\<close>

definition sample_raw :: raw_release where
  "sample_raw =
     \<lparr>rr_bump = ''patch'', rr_include = [], rr_exclude = [], rr_description = ''fixes'',
      rr_context = None, rr_release_commit = None, rr_released_trees = None, rr_unrecoverable = None,
      rr_never_released = None, rr_shipped_as = None, rr_notices = None, rr_hits = None,
      rr_retracted_by = None, rr_retracts = None\<rparr>"

definition sample_commit :: release_commit where
  "sample_commit = \<lparr>rc_commit = ''0123abc'', rc_trees = [(''.'', ''4567def'')]\<rparr>"

definition sample_docs :: "string release_docs" where
  "sample_docs = \<lparr>archives = (\<lambda>_. None), editable = Some (Decoded sample_raw)\<rparr>"

definition sample_released :: "version \<Rightarrow> string release_docs" where
  "sample_released v =
     \<lparr>archives = [v \<mapsto> Decoded (set_release_commit sample_commit sample_raw)], editable = None\<rparr>"

lemma sample_convert:
  "snd (convert [] sample_raw) = []"
  "snd (convert [] (set_release_commit sample_commit sample_raw)) = []"
  "check_release_commit sample_commit = None"
  by code_simp+

lemma sample_parse_archive:
  "\<exists>a. parse_archive [] v (Decoded (set_release_commit sample_commit sample_raw) :: string doc_file) = Inr a \<and>
     a_fate a = FateRecorded \<and> rc_commit (a_release_commit a) = ''0123abc'' \<and> a_shipped_as a = [] \<and>
     a_retracted_by a = [] \<and> a_retracts a = []"
proof -
  let ?r = "set_release_commit sample_commit sample_raw"
  have "doc_retracted_by (fst (convert [] ?r)) = None" "doc_retracts (fst (convert [] ?r)) = None"
    by (simp_all add: convert_def Let_def set_release_commit_def sample_raw_def)
  moreover have "raw_fate ?r = FateRecorded" "rr_release_commit ?r = Some ''0123abc''" "rr_shipped_as ?r = None"
    by (simp_all add: raw_fate_def set_release_commit_def sample_raw_def sample_commit_def)
  moreover have "convert [] ?r = (fst (convert [] ?r), [])"
    by (rule prod_eqI) (simp_all add: sample_convert)
  then have "parse_document [] (Decoded ?r :: string doc_file) = Inr (fst (convert [] ?r))"
    by (auto simp: parse_document_Inr)
  ultimately show ?thesis
    by (simp add: parse_archive_def Let_def retraction_problems_def opt_list_def)
qed

lemma sample_archived: "archive_release_file [] v sample_commit [] sample_docs = Inr (sample_released v)"
proof -
  have "convert [] sample_raw = (fst (convert [] sample_raw), [])"
    by (rule prod_eqI) (simp_all add: sample_convert)
  then have "parse_document [] (Decoded sample_raw :: string doc_file) = Inr (fst (convert [] sample_raw))"
    by (auto simp: parse_document_Inr)
  moreover have "flow_owned_present (fst (convert [] sample_raw)) = []" by code_simp
  ultimately have "\<exists>f. parse_release_file [] (Decoded sample_raw :: string doc_file) = Inr f"
    by (simp add: parse_release_file_def)
  moreover obtain a where
    "parse_archive [] v (Decoded (set_release_commit sample_commit sample_raw) :: string doc_file) = Inr a"
    using sample_parse_archive by blast
  ultimately show ?thesis
    by (auto simp: archive_release_file_def sample_docs_def sample_released_def sample_convert
        edit_document_def append_hits_def put_archive_def)
qed

theorem archive_then_undo_witness:
  "unfinalize [] (Version 1 2 3) (sample_released (Version 1 2 3)) = Inr (True, sample_docs)"
proof -
  have "archives sample_docs (Version 1 2 3) = None" by (simp add: sample_docs_def)
  from archive_then_undo [OF sample_archived this] show ?thesis by blast
qed

theorem archives_stay_readable_witness:
  "readable [] (sample_released (Version 1 2 3)) \<and> archives (sample_released (Version 1 2 3)) (Version 1 2 3) \<noteq> None"
proof -
  have "(doc_step [])\<^sup>*\<^sup>* sample_docs (sample_released (Version 1 2 3))"
    using sample_archived by (intro r_into_rtranclp doc_step.archive_file)
  moreover have "archives sample_docs = (\<lambda>_. None)" by (simp add: sample_docs_def)
  ultimately have "readable [] (sample_released (Version 1 2 3))" by (rule archives_stay_readable)
  then show ?thesis by (simp add: sample_released_def)
qed

text \<open>The witness below edits the release file of a released version.\<close>

theorem settled_fate_stays_witness:
  "fate_at [] (sample_released (Version 1 2 3)\<lparr>editable := editable sample_docs\<rparr>) (Version 1 2 3)
     \<in> {FateRecorded, FateAbsent}"
proof -
  let ?v = "Version 1 2 3"
  have f: "fate_at [] (sample_released ?v) ?v = FateRecorded"
    using sample_parse_archive [of ?v] by (auto simp: fate_at_def sample_released_def)
  have "doc_step [] (sample_released ?v) (sample_released ?v\<lparr>editable := editable sample_docs\<rparr>)"
    by (rule doc_step.edit_file)
  from settled_fate_stays [OF this, of ?v] f show ?thesis by simp
qed

end
