(* ===== verification/Release_Record.thy ===== *)
theory Release_Record
  imports Archive Tags
begin

text \<open>
  internal/releaserecord/record.go and decide.go: the questions asked of a releasable's release
  record (the fate of a version, the nearest and the latest release, what a checkout must
  contain) and what the next release ships. Git is a parameter: the commit a tag points at, the
  ancestry of two commits with "git cannot tell" as an answer of its own, and the local tags.
\<close>

section \<open>The record\<close>

datatype ancestry = IsAncestor | NotAncestor | AncestryIndeterminable

record ('e, 'g) rec =
  rec_releasable :: string
  rec_scheme :: tag_scheme
  rec_upstream :: string
  rec_false_positive :: string
  rec_listing :: "(string \<times> bool) list option"
  rec_docs :: "version \<Rightarrow> 'e doc_file option"
  rec_tag_commit :: "string \<Rightarrow> ('g, string option) result"
  rec_ancestry :: "string \<Rightarrow> string \<Rightarrow> ('g, ancestry) result"
  rec_tags :: "('g, string list) result"
  rec_finalized :: "string \<Rightarrow> bool"

datatype ('e, 'g) read_error =
    GitFailed 'g
  | ListingFailed string parse_error
  | MissingArchive version
  | ArchiveRefused version "'e file_error"
  | Disagreement version string string string
  | Indeterminable version string string
  | NoFate version string "string option"
  | UnstatedFate version
  | Unbackfilled string "string list" bool string
  | LatestNotInCheckout version string string
  | DecisionBump bump_error
  | DestroyedTag version string fate string
  | FinalizedChangelog version string string
  | BehindLatest version version
  | AbandonedAttempt version version string
  | NumberTaken bump version version string version version

record entry =
  e_version :: version
  e_fate :: fate
  e_release_commit :: string
  e_shipped_as :: string
  e_retracted_by :: string
  e_retraction :: bool

definition entry_tag :: "entry \<Rightarrow> tag_scheme \<Rightarrow> string" where
  "entry_tag e s = (if e_shipped_as e \<noteq> [] then e_shipped_as e else render_tag s (e_version e))"

definition same_commit :: "string \<Rightarrow> string \<Rightarrow> bool" where
  "same_commit a b =
     (let n = (if length b < length a then length b else length a)
      in n > 0 \<and> take n a = take n b)"

definition git_result :: "('g, 'a) result \<Rightarrow> (('e, 'g) read_error, 'a) result" where
  "git_result r = (case r of Inl g \<Rightarrow> Inl (GitFailed g) | Inr x \<Rightarrow> Inr x)"

definition rec_versions :: "('e, 'g) rec \<Rightarrow> (('e, 'g) read_error, version list) result" where
  "rec_versions R =
     (case archived_versions (rec_listing R) of
        Inl (name, e) \<Rightarrow> Inl (ListingFailed name e)
      | Inr vs \<Rightarrow> Inr vs)"

definition read_archive :: "('e, 'g) rec \<Rightarrow> version \<Rightarrow> (('e, 'g) read_error, archive) result" where
  "read_archive R v =
     (case rec_docs R v of
        None \<Rightarrow> Inl (MissingArchive v)
      | Some doc \<Rightarrow>
          (case parse_archive (rec_false_positive R) v doc of
             Inl e \<Rightarrow> Inl (ArchiveRefused v e)
           | Inr a \<Rightarrow> Inr a))"

definition no_fate_error :: "('e, 'g) rec \<Rightarrow> archive \<Rightarrow> ('e, 'g) read_error" where
  "no_fate_error R a =
     (let tag = (if a_shipped_as a \<noteq> [] then a_shipped_as a else render_tag (rec_scheme R) (a_version a))
      in case rec_tag_commit R tag of
           Inl g \<Rightarrow> GitFailed g
         | Inr found \<Rightarrow> NoFate (a_version a) tag found)"

definition rec_fate :: "('e, 'g) rec \<Rightarrow> version \<Rightarrow> (('e, 'g) read_error, fate) result" where
  "rec_fate R v =
     (if rec_docs R v = None then Inr FateAbsent
      else rbind (read_archive R v) (\<lambda>a.
             if a_fate a = FateUnstated then Inl (no_fate_error R a) else Inr (a_fate a)))"

definition rec_entry :: "('e, 'g) rec \<Rightarrow> version \<Rightarrow> (('e, 'g) read_error, entry) result" where
  "rec_entry R v =
     rbind (read_archive R v) (\<lambda>a.
       case a_fate a of
         FateUnstated \<Rightarrow> Inl (no_fate_error R a)
       | FateNeverReleased \<Rightarrow>
           Inr \<lparr>e_version = v, e_fate = FateNeverReleased, e_release_commit = [], e_shipped_as = [],
                e_retracted_by = [], e_retraction = False\<rparr>
       | FateUnrecoverable \<Rightarrow>
           Inr \<lparr>e_version = v, e_fate = FateUnrecoverable, e_release_commit = [],
                e_shipped_as = a_shipped_as a, e_retracted_by = a_retracted_by a,
                e_retraction = (a_retracts a \<noteq> [])\<rparr>
       | _ \<Rightarrow>
           (let e = \<lparr>e_version = v, e_fate = FateRecorded, e_release_commit = rc_commit (a_release_commit a),
                     e_shipped_as = a_shipped_as a, e_retracted_by = a_retracted_by a,
                     e_retraction = (a_retracts a \<noteq> [])\<rparr>;
                tag = entry_tag e (rec_scheme R)
            in rbind (git_result (rec_tag_commit R tag)) (\<lambda>found.
                 case found of
                   None \<Rightarrow> Inr e
                 | Some commit \<Rightarrow>
                     if \<not> same_commit commit (e_release_commit e)
                     then Inl (Disagreement v tag commit (e_release_commit e)) else Inr e)))"

definition scheme_tags_of :: "('e, 'g) rec \<Rightarrow> (('e, 'g) read_error, string list) result" where
  "scheme_tags_of R =
     rbind (git_result (rec_tags R)) (\<lambda>tags.
       Inr (map fst (sort_by (\<lambda>a b. compare_versions (snd a) (snd b) > 0)
              (List.map_filter (\<lambda>tag. map_option (Pair tag) (version_of (rec_scheme R) tag)) tags))))"

definition tag_evidence :: nat where "tag_evidence = 3"

definition require_backfilled :: "('e, 'g) rec \<Rightarrow> version list \<Rightarrow> (('e, 'g) read_error, unit) result" where
  "require_backfilled R versions =
     (if versions \<noteq> [] then Inr ()
      else rbind (scheme_tags_of R) (\<lambda>tags.
             if tags = [] then Inr ()
             else Inl (Unbackfilled (rec_releasable R) (take tag_evidence tags)
                        (length tags > tag_evidence) (rec_upstream R))))"

section \<open>The nearest and the latest release\<close>

fun nearest_loop :: "('e, 'g) rec \<Rightarrow> string \<Rightarrow> version list \<Rightarrow> (('e, 'g) read_error, entry option) result" where
  "nearest_loop R head [] = Inr None"
| "nearest_loop R head (v # vs) =
     rbind (rec_entry R v) (\<lambda>e.
       if e_fate e \<noteq> FateRecorded \<or> e_retraction e then nearest_loop R head vs
       else rbind (git_result (rec_ancestry R (e_release_commit e) head)) (\<lambda>verdict.
              case verdict of
                IsAncestor \<Rightarrow> Inr (Some e)
              | AncestryIndeterminable \<Rightarrow> Inl (Indeterminable v (e_release_commit e) head)
              | NotAncestor \<Rightarrow> nearest_loop R head vs))"

definition nearest :: "('e, 'g) rec \<Rightarrow> string \<Rightarrow> (('e, 'g) read_error, entry option) result" where
  "nearest R head =
     rbind (rec_versions R) (\<lambda>versions.
     rbind (require_backfilled R versions) (\<lambda>_.
       nearest_loop R head versions))"

definition at_commit :: "('e, 'g) rec \<Rightarrow> string \<Rightarrow> (('e, 'g) read_error, entry option) result" where
  "at_commit R sha =
     rbind (nearest R sha) (\<lambda>found.
       case found of
         None \<Rightarrow> Inr None
       | Some e \<Rightarrow> if \<not> same_commit (e_release_commit e) sha then Inr None else Inr (Some e))"

record latest_fact =
  l_released :: bool
  l_version :: version
  l_unrecoverable :: bool
  l_in_checkout :: bool
  l_never_released_above :: "version list"
  l_retracted_above :: "version list"

definition latest_state :: "latest_fact \<Rightarrow> string" where
  "latest_state f =
     (if \<not> l_released f then [] else if l_unrecoverable f then ''unrecoverable'' else ''recorded'')"

definition version_list :: "version list \<Rightarrow> string" where
  "version_list vs = join '', '' (map version_string vs)"

definition latest_label :: "latest_fact \<Rightarrow> string" where
  "latest_label f =
     (let base = (if l_released f then version_string (l_version f) else ''(none)'');
          notes = (if l_released f
                   then (if l_unrecoverable f then [''commit not recoverable'']
                         else if \<not> l_in_checkout f then [''not in this checkout'' @ CHR 0x27 # ''s history''] else [])
                   else []) @
                  (if l_never_released_above f \<noteq> []
                   then [version_list (l_never_released_above f) @ '' archived but never released''] else []) @
                  (if l_retracted_above f \<noteq> [] then [version_list (l_retracted_above f) @ '' retracted''] else [])
      in if notes = [] then base else base @ '' ('' @ join ''; '' notes @ '')'')"

definition found_latest :: "version \<Rightarrow> bool \<Rightarrow> bool \<Rightarrow> version list \<Rightarrow> version list \<Rightarrow> latest_fact" where
  "found_latest v unrecoverable in_checkout phantoms retracted =
     \<lparr>l_released = True, l_version = v, l_unrecoverable = unrecoverable, l_in_checkout = in_checkout,
      l_never_released_above = phantoms, l_retracted_above = retracted\<rparr>"

definition no_latest :: "version list \<Rightarrow> version list \<Rightarrow> latest_fact" where
  "no_latest phantoms retracted =
     \<lparr>l_released = False, l_version = zero_version, l_unrecoverable = False, l_in_checkout = False,
      l_never_released_above = phantoms, l_retracted_above = retracted\<rparr>"

fun latest_loop ::
  "('e, 'g) rec \<Rightarrow> string \<Rightarrow> version list \<Rightarrow> version list \<Rightarrow> version list \<Rightarrow>
     (('e, 'g) read_error, latest_fact) result" where
  "latest_loop R head phantoms retracted [] = Inr (no_latest phantoms retracted)"
| "latest_loop R head phantoms retracted (v # vs) =
     rbind (rec_entry R v) (\<lambda>e.
       if e_fate e = FateNeverReleased then latest_loop R head (phantoms @ [v]) retracted vs
       else if e_retracted_by e \<noteq> [] then latest_loop R head phantoms (retracted @ [v]) vs
       else if e_fate e = FateUnrecoverable then Inr (found_latest v True False phantoms retracted)
       else rbind (git_result (rec_ancestry R (e_release_commit e) head)) (\<lambda>verdict.
              if verdict = AncestryIndeterminable then Inl (Indeterminable v (e_release_commit e) head)
              else Inr (found_latest v False (verdict = IsAncestor) phantoms retracted)))"

definition latest :: "('e, 'g) rec \<Rightarrow> string \<Rightarrow> (('e, 'g) read_error, latest_fact) result" where
  "latest R head =
     rbind (rec_versions R) (\<lambda>versions.
     rbind (require_backfilled R versions) (\<lambda>_.
       latest_loop R head [] [] versions))"

definition require_checkout_contains_latest ::
  "('e, 'g) rec \<Rightarrow> string \<Rightarrow> (('e, 'g) read_error, latest_fact) result" where
  "require_checkout_contains_latest R head =
     rbind (latest R head) (\<lambda>f.
       if \<not> l_released f \<or> l_unrecoverable f \<or> l_in_checkout f then Inr f
       else rbind (rec_entry R (l_version f)) (\<lambda>e.
              Inl (LatestNotInCheckout (l_version f) (e_release_commit e) head)))"

fun latest_released_loop ::
  "('e, 'g) rec \<Rightarrow> version list \<Rightarrow> (('e, 'g) read_error, version option) result" where
  "latest_released_loop R [] = Inr None"
| "latest_released_loop R (v # vs) =
     rbind (read_archive R v) (\<lambda>a.
       if a_fate a = FateNeverReleased then latest_released_loop R vs
       else if a_fate a = FateUnstated then Inl (UnstatedFate v)
       else if archive_retracted a then latest_released_loop R vs
       else Inr (Some v))"

definition latest_released_version :: "('e, 'g) rec \<Rightarrow> (('e, 'g) read_error, version option) result" where
  "latest_released_version R = rbind (rec_versions R) (latest_released_loop R)"

definition has_release :: "('e, 'g) rec \<Rightarrow> (('e, 'g) read_error, bool) result" where
  "has_release R = rbind (latest_released_version R) (\<lambda>v. Inr (v \<noteq> None))"

section \<open>What the next release ships\<close>

record decision =
  dc_first_release :: bool
  dc_version :: version
  dc_bump :: bump
  dc_tag :: string

datatype taken = TakenNever | TakenRetracted string

definition taken_number :: "('e, 'g) rec \<Rightarrow> version \<Rightarrow> (('e, 'g) read_error, taken option) result" where
  "taken_number R v =
     rbind (rec_fate R v) (\<lambda>f.
       if f = FateAbsent then Inr None
       else if f = FateNeverReleased then Inr (Some TakenNever)
       else if f = FateUnstated then Inr None
       else rbind (read_archive R v) (\<lambda>a.
              if archive_retracted a then Inr (Some (TakenRetracted (a_retracted_by a))) else Inr None))"

definition bump_rec :: "version \<Rightarrow> bump \<Rightarrow> (('e, 'g) read_error, version) result" where
  "bump_rec v b = (case bump_version v b of Inl e \<Rightarrow> Inl (DecisionBump e) | Inr w \<Rightarrow> Inr w)"

text \<open>
  The search for the number to bump past to. A bump raises one component, which a 64-bit word
  bounds, so the search ends; what is left of that component is its measure.
\<close>

definition room :: "64 word \<Rightarrow> nat" where
  "room n = 2 ^ 64 - unat n"

definition bump_room :: "bump \<Rightarrow> version \<Rightarrow> nat" where
  "bump_room b v = room (if b = bump_major then major v else if b = bump_minor then minor v else patch v)"

lemma room_decreases:
  assumes "n \<noteq> - 1"
  shows "room (n + 1) < room n"
proof -
  have "1 + n \<noteq> 0"
    using assms by (metis add.commute add_eq_0_iff)
  then have s: "unat (n + 1) = Suc (unat n)"
    by (metis add.commute unatSuc)
  have "unat n < 2 ^ LENGTH(64)" by (rule unsigned_less)
  then have "unat n < 2 ^ 64" by simp
  then show ?thesis unfolding room_def s by (rule diff_less_mono2 [OF lessI])
qed

lemma bump_room_decreases: "bump_version v b = Inr w \<Longrightarrow> bump_room b w < bump_room b v"
  by (cases rule: bump_version_cases)
    (auto simp: bump_room_def bump_defs intro: room_decreases)

function bump_past ::
  "('e, 'g) rec \<Rightarrow> bump \<Rightarrow> version \<Rightarrow> (('e, 'g) read_error, version \<times> version) result" where
  "bump_past R b candidate =
     (case bump_version candidate b of
        Inl e \<Rightarrow> Inl (DecisionBump e)
      | Inr c \<Rightarrow>
          rbind (taken_number R c) (\<lambda>again.
            if again = None then Inr (candidate, c) else bump_past R b c))"
  by pat_completeness auto
termination
  by (relation "measure (\<lambda>(R, b, v). bump_room b v)") (auto intro: bump_room_decreases)

declare bump_past.simps [simp del]

definition taken_text :: "taken \<Rightarrow> string" where
  "taken_text t = (case t of TakenNever \<Rightarrow> ''never released'' | TakenRetracted w \<Rightarrow> ''retracted (by '' @ w @ '')'')"

definition bumped_version ::
  "('e, 'g) rec \<Rightarrow> version \<Rightarrow> bump \<Rightarrow> (('e, 'g) read_error, decision) result" where
  "bumped_version R current b =
     rbind (bump_rec current b) (\<lambda>next.
     rbind (taken_number R next) (\<lambda>why.
       case why of
         Some t \<Rightarrow>
           rbind (bump_past R b next) (\<lambda>(base, candidate).
             Inl (NumberTaken b current next (taken_text t) base candidate))
       | None \<Rightarrow>
           Inr \<lparr>dc_first_release = False, dc_version = next, dc_bump = b,
                dc_tag = render_tag (rec_scheme R) next\<rparr>))"

definition destroyed_tag_error :: "('e, 'g) rec \<Rightarrow> version \<Rightarrow> string \<Rightarrow> fate \<Rightarrow> ('e, 'g) read_error" where
  "destroyed_tag_error R v tag f =
     (case f of
        FateRecorded \<Rightarrow>
          (case read_archive R v of
             Inl e \<Rightarrow> e
           | Inr a \<Rightarrow> DestroyedTag v tag f (rc_commit (a_release_commit a)))
      | _ \<Rightarrow> DestroyedTag v tag f ''<release-commit>'')"

definition refuse_finalized_changelog ::
  "('e, 'g) rec \<Rightarrow> version \<Rightarrow> string \<Rightarrow> (('e, 'g) read_error, unit) result" where
  "refuse_finalized_changelog R v tag =
     (let finalized = path_clean (changelog_dir (rec_releasable R) @ ''/'' @ version_string v @ ''.jsonl'')
      in if \<not> rec_finalized R finalized then Inr () else Inl (FinalizedChangelog v tag finalized))"

definition decide_version ::
  "('e, 'g) rec \<Rightarrow> version \<Rightarrow> bump \<Rightarrow> latest_fact \<Rightarrow> (('e, 'g) read_error, decision) result" where
  "decide_version R current b lat =
     (case parse_bump b of
        Inl e \<Rightarrow> Inl (DecisionBump e)
      | Inr _ \<Rightarrow>
          rbind (rec_fate R current) (\<lambda>f.
          let current_tag = render_tag (rec_scheme R) current in
          rbind (git_result (rec_tag_commit R current_tag)) (\<lambda>found.
            let tagged = (found \<noteq> None) in
            if fate_released f \<and> \<not> tagged then Inl (destroyed_tag_error R current current_tag f)
            else if f = FateAbsent \<and> \<not> tagged then
              (if l_released lat \<and> compare_versions current (l_version lat) < 0
               then Inl (BehindLatest current (l_version lat))
               else if l_released lat then Inl (AbandonedAttempt current (l_version lat) current_tag)
               else rbind (refuse_finalized_changelog R current current_tag) (\<lambda>_.
                      Inr \<lparr>dc_first_release = True, dc_version = current, dc_bump = [],
                           dc_tag = current_tag\<rparr>))
            else bumped_version R current b)))"

section \<open>Reading the listing\<close>

lemma git_result_simps [simp]: "git_result (Inr x) = Inr x" "git_result (Inl g) = Inl (GitFailed g)"
  by (simp_all add: git_result_def)

lemma git_result_Inr [simp, result_simps]: "git_result r = Inr x \<longleftrightarrow> r = Inr x"
  by (cases r) (simp_all add: git_result_def)

lemma git_result_Inl [result_simps]: "git_result r = Inl e \<longleftrightarrow> (\<exists>g. r = Inl g \<and> e = GitFailed g)"
  by (cases r) (auto simp: git_result_def)

text \<open>An entry says what its archive says, and a recorded one agrees with its tag.\<close>

lemma rec_entry_Inr:
  assumes "rec_entry R v = Inr e"
  obtains a where "read_archive R v = Inr a" "a_fate a \<noteq> FateUnstated" "e_version e = v"
    "e_fate e = (if a_fate a = FateAbsent then FateRecorded else a_fate a)"
    "a_fate a \<noteq> FateNeverReleased \<Longrightarrow> e_retracted_by e = a_retracted_by a"
    "\<And>c. e_fate e = FateRecorded \<Longrightarrow>
       rec_tag_commit R (entry_tag e (rec_scheme R)) = Inr (Some c) \<Longrightarrow> same_commit c (e_release_commit e)"
proof -
  from assms obtain a where a: "read_archive R v = Inr a"
    by (auto simp: rec_entry_def rbind_eq_Inr)
  show thesis
    using assms a
    by (cases "a_fate a"; intro that [OF a])
      (auto simp: rec_entry_def rbind_eq_Inr Let_def split: option.splits if_splits)
qed

lemma rec_entry_version: "rec_entry R v = Inr e \<Longrightarrow> e_version e = v"
  by (rule rec_entry_Inr)

text \<open>A release a checkout of head contains and that bounds a range.\<close>

definition bounds_at :: "('e, 'g) rec \<Rightarrow> string \<Rightarrow> version \<Rightarrow> entry \<Rightarrow> bool" where
  "bounds_at R head v e \<longleftrightarrow>
     rec_entry R v = Inr e \<and> e_fate e = FateRecorded \<and> \<not> e_retraction e \<and>
     rec_ancestry R (e_release_commit e) head = Inr IsAncestor"

text \<open>A version passed over: another fate, a retraction, or certainly not in the history.\<close>

definition passed_over :: "('e, 'g) rec \<Rightarrow> string \<Rightarrow> version \<Rightarrow> bool" where
  "passed_over R head v \<longleftrightarrow>
     (\<exists>e. rec_entry R v = Inr e \<and>
        (e_fate e \<noteq> FateRecorded \<or> e_retraction e \<or> rec_ancestry R (e_release_commit e) head = Inr NotAncestor))"

lemma nearest_loop_Inr:
  "nearest_loop R head vs = Inr res \<Longrightarrow>
     (case res of
        Some e \<Rightarrow> \<exists>as bs. vs = as @ e_version e # bs \<and> (\<forall>v \<in> set as. passed_over R head v) \<and>
                   bounds_at R head (e_version e) e
      | None \<Rightarrow> \<forall>v \<in> set vs. passed_over R head v)"
proof (induction vs)
  case Nil
  then show ?case by simp
next
  case (Cons v vs)
  from Cons.prems obtain e where e: "rec_entry R v = Inr e" by (auto simp: rbind_eq_Inr)
  show ?case
  proof (cases "nearest_loop R head vs = Inr res \<and> passed_over R head v")
    case True
    with Cons.IH show ?thesis
      by (auto split: option.splits) (metis append_Cons set_ConsD)
  next
    case False
    from False Cons.prems e have f: "e_fate e = FateRecorded" "\<not> e_retraction e"
      by (auto simp: passed_over_def split: if_splits)
    with Cons.prems e obtain verdict where "rec_ancestry R (e_release_commit e) head = Inr verdict"
      by (auto simp: rbind_eq_Inr)
    with False Cons.prems e f have "res = Some e \<and> bounds_at R head v e"
      by (cases verdict) (auto simp: passed_over_def bounds_at_def)
    with rec_entry_version [OF e] show ?thesis by (auto intro: exI [of _ "[]"])
  qed
qed

lemma rec_versions_Inr:
  assumes "rec_versions R = Inr vs"
  shows "sorted_wrt (\<lambda>a b. b \<le> a) vs"
    and "rec_listing R = Some entries \<Longrightarrow> set vs = {v. (archive_name v, False) \<in> set entries}"
    and "rec_listing R = None \<Longrightarrow> vs = []"
proof -
  from assms have a: "archived_versions (rec_listing R) = Inr vs"
    by (auto simp: rec_versions_def split: sum.splits)
  show "sorted_wrt (\<lambda>a b. b \<le> a) vs"
    using a archived_versions_sorted by (cases "rec_listing R") (auto simp: archived_versions_def)
  show "rec_listing R = Some entries \<Longrightarrow> set vs = {v. (archive_name v, False) \<in> set entries}"
    using a archived_versions_set by simp
  show "rec_listing R = None \<Longrightarrow> vs = []"
    using a by (simp add: archived_versions_def)
qed

lemma sorted_desc_split:
  assumes "sorted_wrt (\<lambda>a b. b \<le> a) (as @ v # bs)" "w \<in> set (as @ v # bs)" "(v :: version) < w"
  shows "w \<in> set as"
  using assms by (auto simp: sorted_wrt_append)

text \<open>
  C7. The nearest release of a commit is the highest one that bounds it: it is recorded, ships
  more than a retraction, agrees with its tag and is in the commit's history, and every archived
  version above it was read and certainly does not bound. Only an ancestry git answers is ever
  used: an answer git cannot give is an error and never a no.
\<close>

theorem nearest_is_highest:
  assumes "nearest R head = Inr res" and "rec_listing R = Some entries"
  shows "case res of
      Some e \<Rightarrow> bounds_at R head (e_version e) e \<and>
        (\<forall>v. e_version e < v \<and> (archive_name v, False) \<in> set entries \<longrightarrow> passed_over R head v)
    | None \<Rightarrow> (\<forall>v. (archive_name v, False) \<in> set entries \<longrightarrow> passed_over R head v)"
proof -
  from assms(1) obtain vs where vs: "rec_versions R = Inr vs" "nearest_loop R head vs = Inr res"
    by (auto simp: nearest_def rbind_eq_Inr)
  note set = rec_versions_Inr(2) [OF vs(1) assms(2)]
  show ?thesis
  proof (cases res)
    case None
    with nearest_loop_Inr [OF vs(2)] set show ?thesis by auto
  next
    case (Some e)
    with nearest_loop_Inr [OF vs(2)] obtain as bs where
      s: "vs = as @ e_version e # bs" "\<forall>v \<in> set as. passed_over R head v" "bounds_at R head (e_version e) e"
      by auto
    have "passed_over R head v" if "e_version e < v" "(archive_name v, False) \<in> set entries" for v
      using sorted_desc_split [of as "e_version e" bs v] rec_versions_Inr(1) [OF vs(1)] that set s by auto
    with Some s(3) show ?thesis by simp
  qed
qed

text \<open>A recorded release its tag disagrees with bounds nothing: the range is refused.\<close>

lemma latest_loop_Inr:
  "latest_loop R head ph re vs = Inr f \<Longrightarrow>
     latest_released_loop R vs = Inr (if l_released f then Some (l_version f) else None)"
proof (induction R head ph re vs rule: latest_loop.induct)
  case (1 R head ph re)
  then show ?case by (auto simp: no_latest_def)
next
  case (2 R head ph re v vs)
  from "2.prems" obtain e where e: "rec_entry R v = Inr e" by (auto simp: rbind_eq_Inr)
  then obtain a where a: "read_archive R v = Inr a" "a_fate a \<noteq> FateUnstated"
    "e_fate e = (if a_fate a = FateAbsent then FateRecorded else a_fate a)"
    "a_fate a \<noteq> FateNeverReleased \<Longrightarrow> e_retracted_by e = a_retracted_by a"
    by (rule rec_entry_Inr) blast
  consider "a_fate a = FateNeverReleased" | "a_fate a \<noteq> FateNeverReleased" "archive_retracted a"
    | "a_fate a \<noteq> FateNeverReleased" "\<not> archive_retracted a" by blast
  then show ?case
  proof cases
    case 1
    with "2.IH"(1) [OF e] "2.prems" e a show ?thesis by simp
  next
    case 2
    with a have "e_fate e \<noteq> FateNeverReleased" "e_retracted_by e \<noteq> []"
      by (auto simp: archive_retracted_def)
    with "2.IH"(2) [OF e] "2.prems" e a 2 show ?thesis by simp
  next
    case 3
    with a have "e_fate e \<noteq> FateNeverReleased" "e_retracted_by e = []"
      by (auto simp: archive_retracted_def)
    with "2.prems" e a 3 show ?thesis
      by (auto simp: found_latest_def rbind_eq_Inr split: if_splits)
  qed
qed

text \<open>
  C8. The two readings of the latest release agree: the one that asks git where the release is
  and the one that reads the archives alone name the same version, or both none.
\<close>

theorem latest_agrees:
  assumes "latest R head = Inr f"
  shows "latest_released_version R = Inr (if l_released f then Some (l_version f) else None) \<and>
         has_release R = Inr (l_released f)"
proof -
  from assms obtain vs where "rec_versions R = Inr vs" "latest_loop R head [] [] vs = Inr f"
    by (auto simp: latest_def rbind_eq_Inr)
  then have "latest_released_version R = Inr (if l_released f then Some (l_version f) else None)"
    by (simp only: latest_released_version_def rbind_simps latest_loop_Inr)
  then show ?thesis by (simp add: has_release_def)
qed

section \<open>Properties of the decision\<close>

lemma latest_loop_found:
  "latest_loop R head ph re vs = Inr f \<Longrightarrow> l_released f \<Longrightarrow>
     \<exists>e. rec_entry R (l_version f) = Inr e \<and> e_fate e \<noteq> FateNeverReleased \<and> e_retracted_by e = [] \<and>
       (l_unrecoverable f \<longleftrightarrow> e_fate e = FateUnrecoverable) \<and>
       (l_in_checkout f \<longrightarrow> rec_ancestry R (e_release_commit e) head = Inr IsAncestor)"
proof (induction R head ph re vs rule: latest_loop.induct)
  case (1 R head ph re)
  then show ?case by (auto simp: no_latest_def)
next
  case (2 R head ph re v vs)
  from "2.prems" obtain e where e: "rec_entry R v = Inr e" by (auto simp: rbind_eq_Inr)
  show ?case
  proof (cases "e_fate e = FateNeverReleased \<or> e_retracted_by e \<noteq> []")
    case True
    with "2.IH"(1) [OF e] "2.IH"(2) [OF e] "2.prems" e show ?thesis by (auto split: if_splits)
  next
    case False
    with "2.prems" e show ?thesis
      by (auto simp: found_latest_def rbind_eq_Inr split: if_splits)
  qed
qed

text \<open>
  A release is prepared only on a history that contains the latest release: when the check
  passes with a recorded latest release, git answered that its release commit is an ancestor of
  the checkout.
\<close>

theorem checkout_contains_latest:
  assumes "require_checkout_contains_latest R head = Inr f" and "l_released f" "\<not> l_unrecoverable f"
  shows "\<exists>e. rec_entry R (l_version f) = Inr e \<and> e_fate e = FateRecorded \<and>
           rec_ancestry R (e_release_commit e) head = Inr IsAncestor"
proof -
  from assms obtain vs where "latest_loop R head [] [] vs = Inr f" "l_in_checkout f"
    by (auto simp: require_checkout_contains_latest_def latest_def rbind_eq_Inr split: if_splits)
  from latest_loop_found [OF this(1) assms(2)] this(2) assms(3) obtain e where
    e: "rec_entry R (l_version f) = Inr e" "e_fate e \<noteq> FateNeverReleased" "e_fate e \<noteq> FateUnrecoverable"
    "rec_ancestry R (e_release_commit e) head = Inr IsAncestor" by auto
  have "e_fate e = FateRecorded"
    using e(1)
  proof (rule rec_entry_Inr)
    fix a
    assume "a_fate a \<noteq> FateUnstated" "e_fate e = (if a_fate a = FateAbsent then FateRecorded else a_fate a)"
    with e(2,3) show ?thesis by (cases "a_fate a") auto
  qed
  with e show ?thesis by blast
qed

lemma bump_past_Inr:
  "bump_past R b c0 = Inr (base, candidate) \<Longrightarrow>
     bump_version base b = Inr candidate \<and> taken_number R candidate = Inr None \<and>
     (base = c0 \<or> (c0 < base \<and> (\<exists>t. taken_number R base = Inr (Some t))))"
proof (induction R b c0 rule: bump_past.induct)
  case (1 R b c0)
  from "1.prems" obtain c where c: "bump_version c0 b = Inr c"
    by (auto simp: bump_past.simps [of R b c0] split: sum.splits)
  with "1.prems" obtain again where again: "taken_number R c = Inr again"
    by (auto simp: bump_past.simps [of R b c0] rbind_eq_Inr)
  show ?case
  proof (cases again)
    case None
    with "1.prems" c again show ?thesis by (simp add: bump_past.simps [of R b c0])
  next
    case (Some t)
    with "1.prems" c again have "bump_past R b c = Inr (base, candidate)"
      by (simp add: bump_past.simps [of R b c0])
    with "1.IH" [OF c again] Some have "bump_version base b = Inr candidate \<and> taken_number R candidate = Inr None \<and>
      (base = c \<or> (c < base \<and> (\<exists>t. taken_number R base = Inr (Some t))))" by simp
    moreover have "c0 < c" by (rule bump_version_greater [OF c])
    ultimately show ?thesis using again Some by (auto intro: less_trans)
  qed
qed

lemma taken_number_error: "taken_number R v \<noteq> Inl (NumberTaken b c w t x y)"
  by (auto simp: taken_number_def rbind_eq_Inl rec_fate_def read_archive_def no_fate_error_def Let_def
      split: if_splits option.splits sum.splits)

lemma bump_past_error: "bump_past R b c0 \<noteq> Inl (NumberTaken b c w t x y)"
proof (induction R b c0 rule: bump_past.induct)
  case (1 R b c0)
  then show ?case
    by (auto simp: bump_past.simps [of R b c0] rbind_eq_Inl taken_number_error
        split: sum.splits if_splits)
qed

lemma bumped_version_free:
  "bump_version v b = Inr w \<Longrightarrow> taken_number R w = Inr None \<Longrightarrow>
     bumped_version R v b =
       Inr \<lparr>dc_first_release = False, dc_version = w, dc_bump = b, dc_tag = render_tag (rec_scheme R) w\<rparr>"
  by (simp add: bumped_version_def bump_rec_def)

text \<open>
  C9. The refusal of a taken number gives advice that works: the number to set the version
  files to is one the record holds, at or above the refused one, and the same bump from it
  ships the number the refusal names. The search for it always ends.
\<close>

theorem bump_past_advice:
  assumes "bumped_version R current b = Inl (NumberTaken b current refused why base candidate)"
  shows "bumped_version R base b = Inr \<lparr>dc_first_release = False, dc_version = candidate, dc_bump = b,
           dc_tag = render_tag (rec_scheme R) candidate\<rparr> \<and>
         current < refused \<and> refused \<le> base \<and> base < candidate \<and>
         (\<exists>t. taken_number R base = Inr (Some t))"
proof -
  obtain n where n: "bump_version current b = Inr n"
    using assms by (auto simp: bumped_version_def bump_rec_def split: sum.splits)
  then obtain w where w: "taken_number R n = Inr w"
    using assms by (cases "taken_number R n") (auto simp: bumped_version_def bump_rec_def taken_number_error)
  with n assms obtain t where "w = Some t"
    by (cases w) (auto simp: bumped_version_def bump_rec_def)
  moreover obtain p where "bump_past R b n = Inr p"
    using assms n w calculation
    by (cases "bump_past R b n") (auto simp: bumped_version_def bump_rec_def bump_past_error)
  ultimately have t: "bump_version current b = Inr refused"
    "taken_number R refused = Inr (Some t)" "bump_past R b refused = Inr (base, candidate)"
    using assms n w by (cases p; auto simp: bumped_version_def bump_rec_def)+
  from bump_past_Inr [OF t(3)] t(2) bump_version_greater [OF t(1)] show ?thesis
    using bumped_version_free [of base b candidate R] bump_version_greater [of base b candidate]
    by auto
qed

text \<open>
  C10. A decided version is a bump of the current one whose number the record leaves free, or the
  current one itself for a first release, when nothing was released, no archive and no tag of it
  exist and no finalized changelog contradicts it.
\<close>

theorem decided_version:
  assumes "decide_version R current b lat = Inr d"
  shows "dc_tag d = render_tag (rec_scheme R) (dc_version d) \<and>
    (if dc_first_release d
     then dc_version d = current \<and> \<not> l_released lat \<and> rec_docs R current = None \<and>
       rec_tag_commit R (dc_tag d) = Inr None
     else bump_version current b = Inr (dc_version d) \<and> current < dc_version d \<and>
       taken_number R (dc_version d) = Inr None)"
proof -
  from assms obtain f found where f: "rec_fate R current = Inr f"
    and found: "rec_tag_commit R (render_tag (rec_scheme R) current) = Inr found"
    by (auto simp: decide_version_def Let_def rbind_eq_Inr split: sum.splits)
  show ?thesis
  proof (cases "f = FateAbsent \<and> found = None")
    case True
    have "rec_docs R current = None"
    proof (rule ccontr)
      assume "rec_docs R current \<noteq> None"
      with f obtain a where "read_archive R current = Inr a" "a_fate a = f"
        by (auto simp: rec_fate_def rbind_eq_Inr split: if_splits)
      then obtain fl where "rec_docs R current = Some fl"
        "parse_archive (rec_false_positive R) current fl = Inr a"
        by (auto simp: read_archive_def split: option.splits sum.splits)
      from this(2) have "a_fate a \<noteq> FateAbsent"
        by (rule parse_archive_Decoded) (simp add: raw_fate_def)
      with True \<open>a_fate a = f\<close> show False by simp
    qed
    with assms f found True show ?thesis
      by (auto simp: decide_version_def Let_def rbind_eq_Inr fate_released_def split: sum.splits if_splits)
  next
    case False
    with assms f found have "bumped_version R current b = Inr d"
      by (auto simp: decide_version_def Let_def split: sum.splits if_splits)
    then show ?thesis
      by (auto simp: bumped_version_def bump_rec_def rbind_eq_Inr bump_version_greater
          split: option.splits sum.splits)
  qed
qed

section \<open>A concrete record\<close>

text \<open>Two recorded releases on one line of history, and the same with a number given up in between.\<close>

definition sample_record :: "(string, string) rec" where
  "sample_record =
     \<lparr>rec_releasable = ''app'', rec_scheme = \<lparr>ts_prefix = ''v'', ts_suffix = []\<rparr>, rec_upstream = [],
      rec_false_positive = [],
      rec_listing = Some [(archive_name (Version 1 0 0), False), (archive_name (Version 2 0 0), False)],
      rec_docs = (\<lambda>v. if v = Version 1 0 0 \<or> v = Version 2 0 0
                      then Some (Decoded (set_release_commit sample_commit sample_raw)) else None),
      rec_tag_commit = (\<lambda>_. Inr (Some ''0123abc'')), rec_ancestry = (\<lambda>_ _. Inr IsAncestor),
      rec_tags = Inr [], rec_finalized = (\<lambda>_. False)\<rparr>"

definition sample_entry :: "version \<Rightarrow> entry" where
  "sample_entry v =
     \<lparr>e_version = v, e_fate = FateRecorded, e_release_commit = ''0123abc'', e_shipped_as = [],
      e_retracted_by = [], e_retraction = False\<rparr>"

lemma sample_rec_entry:
  assumes "v = Version 1 0 0 \<or> v = Version 2 0 0"
  shows "rec_entry sample_record v = Inr (sample_entry v)" "rec_fate sample_record v = Inr FateRecorded"
proof -
  obtain a where a: "parse_archive [] v (Decoded (set_release_commit sample_commit sample_raw) :: string doc_file) = Inr a"
    "a_fate a = FateRecorded" "rc_commit (a_release_commit a) = ''0123abc''" "a_shipped_as a = []"
    "a_retracted_by a = []" "a_retracts a = []"
    using sample_parse_archive by blast
  have r: "read_archive sample_record v = Inr a"
    using assms a(1) by (auto simp: read_archive_def sample_record_def)
  then show "rec_entry sample_record v = Inr (sample_entry v)"
    using a by (simp add: rec_entry_def Let_def sample_record_def sample_entry_def same_commit_def)
  show "rec_fate sample_record v = Inr FateRecorded"
    using r a(2) assms by (auto simp: rec_fate_def sample_record_def)
qed

lemma archive_version_name [simp]: "archive_version (archive_name v) = Inr (Some v)"
  by (simp add: archive_version_iff)

lemma sample_versions: "rec_versions sample_record = Inr [Version 2 0 0, Version 1 0 0]"
  by (simp add: rec_versions_def archived_versions_def sample_record_def compare_versions_def)

lemma sample_nearest: "nearest sample_record ''HEAD'' = Inr (Some (sample_entry (Version 2 0 0)))"
proof -
  have "rec_ancestry sample_record a b = Inr IsAncestor" for a b by (simp add: sample_record_def)
  then show ?thesis
    by (simp add: nearest_def sample_versions require_backfilled_def sample_rec_entry)
      (simp add: sample_entry_def)
qed

lemma sample_latest:
  "latest sample_record ''HEAD'' = Inr (found_latest (Version 2 0 0) False True [] [])"
proof -
  have "rec_ancestry sample_record a b = Inr IsAncestor" for a b by (simp add: sample_record_def)
  then show ?thesis
    by (simp add: latest_def sample_versions require_backfilled_def sample_rec_entry)
      (simp add: sample_entry_def)
qed

theorem nearest_is_highest_witness:
  "bounds_at sample_record ''HEAD'' (Version 2 0 0) (sample_entry (Version 2 0 0))"
proof -
  have "rec_listing sample_record = Some (the (rec_listing sample_record))"
    by (simp add: sample_record_def)
  from nearest_is_highest [OF sample_nearest this] show ?thesis by (auto simp: sample_entry_def)
qed

theorem latest_agrees_witness:
  "latest_released_version sample_record = Inr (Some (Version 2 0 0))"
  using latest_agrees [OF sample_latest] by (simp add: found_latest_def)

theorem checkout_contains_latest_witness:
  "\<exists>e. rec_entry sample_record (Version 2 0 0) = Inr e \<and>
     rec_ancestry sample_record (e_release_commit e) ''HEAD'' = Inr IsAncestor"
proof -
  let ?f = "found_latest (Version 2 0 0) False True [] []"
  have "require_checkout_contains_latest sample_record ''HEAD'' = Inr ?f"
    by (simp add: require_checkout_contains_latest_def sample_latest found_latest_def)
  from checkout_contains_latest [OF this] show ?thesis by (auto simp: found_latest_def)
qed

lemma sample_below:
  "decide_version sample_record (Version 1 0 0) bump_patch (found_latest (Version 2 0 0) False True [] []) =
     Inr \<lparr>dc_first_release = False, dc_version = Version 1 0 1, dc_bump = bump_patch,
          dc_tag = render_tag (rec_scheme sample_record) (Version 1 0 1)\<rparr>"
proof -
  have "parse_bump bump_patch = Inr bump_patch" by (simp add: parse_bump_Inr_iff all_bumps_set)
  moreover have "rec_tag_commit sample_record t = Inr (Some ''0123abc'')" for t by (simp add: sample_record_def)
  moreover have "taken_number sample_record (Version 1 0 1) = Inr None"
    by (simp add: taken_number_def rec_fate_def sample_record_def)
  moreover have "bump_version (Version 1 0 0) bump_patch = Inr (Version 1 0 1)"
    by (simp add: bump_version_def increment_def bump_defs)
  ultimately show ?thesis
    by (simp add: decide_version_def Let_def sample_rec_entry fate_released_def bumped_version_free)
qed

theorem decided_version_witness:
  "taken_number sample_record (Version 1 0 1) = Inr None"
  using decided_version [OF sample_below] by simp

text \<open>
  C11. The decision may ship a version below the latest release: version files that name an older
  release which is still tagged are bumped from, without a look at the latest release, although
  the checkout contains it and the refusals promise that no release goes below it.
\<close>

theorem decided_below_latest:
  "\<exists>f d. require_checkout_contains_latest sample_record ''HEAD'' = Inr f \<and>
     decide_version sample_record (Version 1 0 0) bump_patch f = Inr d \<and>
     l_released f \<and> dc_version d < l_version f"
proof -
  let ?f = "found_latest (Version 2 0 0) False True [] []"
  have "require_checkout_contains_latest sample_record ''HEAD'' = Inr ?f"
    by (simp add: require_checkout_contains_latest_def sample_latest found_latest_def)
  moreover note sample_below
  moreover have "l_released ?f" "Version 1 0 1 < l_version ?f"
    by (simp_all add: found_latest_def less_version_def)
  ultimately show ?thesis by fastforce
qed

definition sample_gap :: "(string, string) rec" where
  "sample_gap = sample_record\<lparr>rec_docs :=
     [Version 1 0 1 \<mapsto> Decoded (sample_raw\<lparr>rr_never_released := Some True\<rparr>)]\<rparr>"

lemma sample_gap_taken:
  "taken_number sample_gap (Version 1 0 1) = Inr (Some TakenNever)"
  "taken_number sample_gap (Version 1 0 2) = Inr None"
proof -
  let ?r = "sample_raw\<lparr>rr_never_released := Some True\<rparr>"
  have "snd (convert [] ?r) = []" by code_simp
  then have "convert [] ?r = (fst (convert [] ?r), [])" by (simp add: prod_eq_iff)
  then have "parse_document [] (Decoded ?r :: string doc_file) = Inr (fst (convert [] ?r))"
    by (auto simp: parse_document_Inr)
  moreover have "doc_retracted_by (fst (convert [] ?r)) = None" "doc_retracts (fst (convert [] ?r)) = None"
    by (simp_all add: convert_def Let_def sample_raw_def)
  moreover have "raw_fate ?r = FateNeverReleased" by (simp add: raw_fate_def)
  ultimately have "\<exists>a. parse_archive [] (Version 1 0 1) (Decoded ?r :: string doc_file) = Inr a \<and> a_fate a = FateNeverReleased"
    by (simp add: parse_archive_def Let_def retraction_problems_def)
  then show "taken_number sample_gap (Version 1 0 1) = Inr (Some TakenNever)"
    by (auto simp: taken_number_def rec_fate_def read_archive_def sample_gap_def sample_record_def)
  show "taken_number sample_gap (Version 1 0 2) = Inr None"
    by (simp add: taken_number_def rec_fate_def sample_gap_def)
qed

theorem bump_past_advice_witness:
  "\<exists>d. bumped_version sample_gap (Version 1 0 1) bump_patch = Inr d \<and> dc_version d = Version 1 0 2"
proof -
  have b: "bump_version (Version 1 0 0) bump_patch = Inr (Version 1 0 1)"
    "bump_version (Version 1 0 1) bump_patch = Inr (Version 1 0 2)"
    by (simp_all add: bump_version_def increment_def bump_defs)
  then have "bump_past sample_gap bump_patch (Version 1 0 1) = Inr (Version 1 0 1, Version 1 0 2)"
    by (simp add: bump_past.simps [of sample_gap] sample_gap_taken)
  with b have "bumped_version sample_gap (Version 1 0 0) bump_patch =
      Inl (NumberTaken bump_patch (Version 1 0 0) (Version 1 0 1) (taken_text TakenNever) (Version 1 0 1) (Version 1 0 2))"
    by (simp add: bumped_version_def bump_rec_def sample_gap_taken)
  from bump_past_advice [OF this] show ?thesis by simp
qed

end
