(* ===== verification/Member_Graph.thy ===== *)
theory Member_Graph
  imports Rules
begin

text \<open>
  internal/workspace/graph.go and internal/batchrelease/order.go: the dependency graph of a
  workspace's members, read from their manifests and their depends_on, its topological order,
  the walks along it, and the order a batch releases releasables in. Decoding TOML and JSON is
  a library's: a manifest is absent, refused, or the table it decodes to.
\<close>

section \<open>Manifests\<close>

datatype json = JString string | JArray "json list" | JTable "(string \<times> json) list" | JOther

datatype 'e manifest = NoManifest | BadManifest 'e | Manifest "(string \<times> json) list"

definition table_get :: "(string \<times> json) list \<Rightarrow> string \<Rightarrow> json option" where
  "table_get t k = map_of t k"

definition as_table :: "json option \<Rightarrow> (string \<times> json) list option" where
  "as_table j = (case j of Some (JTable t) \<Rightarrow> Some t | _ \<Rightarrow> None)"

definition as_array :: "json option \<Rightarrow> json list" where
  "as_array j = (case j of Some (JArray xs) \<Rightarrow> xs | _ \<Rightarrow> [])"

definition as_string :: "json option \<Rightarrow> string option" where
  "as_string j = (case j of Some (JString s) \<Rightarrow> Some s | _ \<Rightarrow> None)"

section \<open>Dependencies\<close>

datatype dep_form = FormVersioned | FormPath | FormWorkspace | FormExplicit
datatype dep_scope = ScopeRuntime | ScopeDev | ScopePeer | ScopeExplicit

record dependency =
  dp_name :: string
  dp_form :: dep_form
  dp_constraint :: string
  dp_scope :: dep_scope

record 'e scan_error =
  se_member :: string
  se_path :: string
  se_error :: 'e

record 'e graph =
  g_names :: "string list"
  g_deps :: "string \<Rightarrow> dependency list"
  g_dependents :: "string \<Rightarrow> (string \<times> dep_scope) list"
  g_scan_errors :: "'e scan_error list"

text \<open>PEP 503. Lower-casing is of ASCII letters: a PyPI name holds no others.\<close>

definition lower_char :: "char \<Rightarrow> char" where
  "lower_char c = (if CHR ''A'' \<le> c \<and> c \<le> CHR ''Z'' then char_of ((of_char c :: nat) + 32) else c)"

definition pypi_separator :: "char \<Rightarrow> bool" where
  "pypi_separator c \<longleftrightarrow> c \<in> set ''-_.''"

fun collapse_separators :: "bool \<Rightarrow> string \<Rightarrow> string" where
  "collapse_separators inside [] = []"
| "collapse_separators inside (c # cs) =
     (if pypi_separator c
      then (if inside then collapse_separators True cs else CHR ''-'' # collapse_separators True cs)
      else c # collapse_separators False cs)"

definition normalize_pypi :: "string \<Rightarrow> string" where
  "normalize_pypi name = collapse_separators False (map lower_char name)"

definition cut_at :: "nat option \<Rightarrow> string \<Rightarrow> string" where
  "cut_at i s = (case i of None \<Rightarrow> s | Some i \<Rightarrow> take i s)"

definition parse_pypi_requirement :: "string \<Rightarrow> string \<times> bool \<times> string" where
  "parse_pypi_requirement req =
     (let req = trim_space req
      in if req = [] then ([], False, [])
         else (case str_cut req '' @ '' of (before, after, found) \<Rightarrow>
                 if found
                 then (let name = trim_space before
                       in (cut_at (str_index name ''['') name, True, trim_space after))
                 else (case index_any req ''[ >=<!~;'' of
                         None \<Rightarrow> (req, False, [])
                       | Some end_at \<Rightarrow>
                           (let constraint = trim_space (drop end_at req)
                            in (take end_at req, False,
                                if has_prefix constraint ''[''
                                then (case str_index constraint '']'' of
                                        None \<Rightarrow> constraint
                                      | Some closing \<Rightarrow> trim_space (drop (closing + 1) constraint))
                                else constraint)))))"

definition project_of :: "'e manifest \<Rightarrow> ('e, (string \<times> json) list option) result" where
  "project_of m =
     (case m of
        NoManifest \<Rightarrow> Inr None
      | BadManifest e \<Rightarrow> Inl e
      | Manifest doc \<Rightarrow> Inr (as_table (table_get doc ''project'')))"

fun add_requirements ::
  "(string \<rightharpoonup> string) \<Rightarrow> dep_scope \<Rightarrow> json list \<Rightarrow> dependency list" where
  "add_requirements pypi_names scope [] = []"
| "add_requirements pypi_names scope (item # items) =
     (case item of
        JString req \<Rightarrow>
          (case parse_pypi_requirement req of (name, is_path, constraint) \<Rightarrow>
             (case pypi_names (normalize_pypi name) of
                None \<Rightarrow> add_requirements pypi_names scope items
              | Some member \<Rightarrow>
                  if name = [] then add_requirements pypi_names scope items
                  else \<lparr>dp_name = member, dp_form = (if is_path then FormPath else FormVersioned),
                        dp_constraint = constraint, dp_scope = scope\<rparr> #
                       add_requirements pypi_names scope items))
      | _ \<Rightarrow> add_requirements pypi_names scope items)"

definition scan_pypi :: "'e manifest \<Rightarrow> (string \<rightharpoonup> string) \<Rightarrow> ('e, dependency list) result" where
  "scan_pypi m pypi_names =
     rbind (project_of m) (\<lambda>project.
       case project of
         None \<Rightarrow> Inr []
       | Some p \<Rightarrow>
           Inr (add_requirements pypi_names ScopeRuntime (as_array (table_get p ''dependencies'')) @
                (case as_table (table_get p ''optional-dependencies'') of
                   None \<Rightarrow> []
                 | Some extras \<Rightarrow>
                     concat (map (\<lambda>group. add_requirements pypi_names ScopeDev (as_array (table_get extras group)))
                       (sort (map fst extras))))))"

definition npm_form :: "string \<Rightarrow> dep_form" where
  "npm_form spec =
     (if has_prefix spec ''workspace:'' then FormWorkspace
      else if has_prefix spec ''file:'' then FormPath else FormVersioned)"

definition npm_section :: "string set \<Rightarrow> (string \<times> json) list \<Rightarrow> string \<Rightarrow> dep_scope \<Rightarrow> dependency list" where
  "npm_section names manifest key scope =
     (let table = (case as_table (table_get manifest key) of None \<Rightarrow> [] | Some t \<Rightarrow> t)
      in map (\<lambda>name. let spec = (case as_string (table_get table name) of None \<Rightarrow> [] | Some s \<Rightarrow> s)
                     in \<lparr>dp_name = name, dp_form = npm_form spec, dp_constraint = spec, dp_scope = scope\<rparr>)
           (filter (\<lambda>name. name \<in> names) (sort (map fst table))))"

definition scan_npm :: "'e manifest \<Rightarrow> string set \<Rightarrow> ('e, dependency list) result" where
  "scan_npm m names =
     (case m of
        NoManifest \<Rightarrow> Inr []
      | BadManifest e \<Rightarrow> Inl e
      | Manifest doc \<Rightarrow>
          Inr (npm_section names doc ''dependencies'' ScopeRuntime @
               npm_section names doc ''devDependencies'' ScopeDev @
               npm_section names doc ''peerDependencies'' ScopePeer))"

section \<open>The graph\<close>

text \<open>The manifests of a member's directory.\<close>

record 'e manifests =
  pyproject_at :: "string \<Rightarrow> 'e manifest"
  package_at :: "string \<Rightarrow> 'e manifest"

fun pypi_member_names :: "member list \<Rightarrow> (string \<rightharpoonup> string) \<Rightarrow> (string \<rightharpoonup> string)" where
  "pypi_member_names [] acc = acc"
| "pypi_member_names (m # ms) acc = pypi_member_names ms (acc(normalize_pypi (m_name m) \<mapsto> m_name m))"

fun pypi_project_names ::
  "'e manifests \<Rightarrow> member list \<Rightarrow> (string \<rightharpoonup> string) \<Rightarrow> (string \<rightharpoonup> string)" where
  "pypi_project_names M [] acc = acc"
| "pypi_project_names M (m # ms) acc =
     (case project_of (pyproject_at M (m_path m)) of
        Inr (Some project) \<Rightarrow>
          (case as_string (table_get project ''name'') of
             Some name \<Rightarrow>
               if acc (normalize_pypi name) = None
               then pypi_project_names M ms (acc(normalize_pypi name \<mapsto> m_name m))
               else pypi_project_names M ms acc
           | None \<Rightarrow> pypi_project_names M ms acc)
      | _ \<Rightarrow> pypi_project_names M ms acc)"

text \<open>One edge per member depended on, the first found winning.\<close>

fun first_edges :: "string \<Rightarrow> string set \<Rightarrow> dependency list \<Rightarrow> dependency list" where
  "first_edges self seen [] = []"
| "first_edges self seen (dep # deps) =
     (if dp_name dep = self \<or> dp_name dep \<in> seen then first_edges self seen deps
      else dep # first_edges self (insert (dp_name dep) seen) deps)"

definition explicit_dependency :: "string \<Rightarrow> dependency" where
  "explicit_dependency dep =
     \<lparr>dp_name = dep, dp_form = FormExplicit, dp_constraint = [], dp_scope = ScopeExplicit\<rparr>"

definition found_dependencies ::
  "'e manifests \<Rightarrow> (string \<rightharpoonup> string) \<Rightarrow> string set \<Rightarrow> member \<Rightarrow> dependency list \<times> 'e scan_error list" where
  "found_dependencies M pypi_names names m =
     (let dir = m_path m;
          pypi = scan_pypi (pyproject_at M dir) pypi_names;
          npm = scan_npm (package_at M dir) names
      in ((case pypi of Inl _ \<Rightarrow> [] | Inr ds \<Rightarrow> ds) @ (case npm of Inl _ \<Rightarrow> [] | Inr ds \<Rightarrow> ds) @
          map explicit_dependency (m_depends_on m),
          (case pypi of Inl e \<Rightarrow> [\<lparr>se_member = m_name m, se_path = join_paths dir ''pyproject.toml'', se_error = e\<rparr>] | Inr _ \<Rightarrow> []) @
          (case npm of Inl e \<Rightarrow> [\<lparr>se_member = m_name m, se_path = join_paths dir ''package.json'', se_error = e\<rparr>] | Inr _ \<Rightarrow> [])))"

fun add_members ::
  "'e manifests \<Rightarrow> (string \<rightharpoonup> string) \<Rightarrow> string set \<Rightarrow> member list \<Rightarrow> 'e graph \<Rightarrow> 'e graph" where
  "add_members M pypi_names names [] g = g"
| "add_members M pypi_names names (m # ms) g =
     (case found_dependencies M pypi_names names m of (found, errors) \<Rightarrow>
        add_members M pypi_names names ms
          (g\<lparr>g_deps := (g_deps g)(m_name m := g_deps g (m_name m) @ first_edges (m_name m) {} found),
             g_scan_errors := g_scan_errors g @ errors\<rparr>))"

definition dependents_of :: "string list \<Rightarrow> (string \<Rightarrow> dependency list) \<Rightarrow> string \<Rightarrow> (string \<times> dep_scope) list" where
  "dependents_of names deps n =
     concat (map (\<lambda>name. map (\<lambda>d. (name, dp_scope d)) (filter (\<lambda>d. dp_name d = n) (deps name))) names)"

definition new_graph :: "releasables \<Rightarrow> 'e manifests \<Rightarrow> 'e graph" where
  "new_graph w M =
     (let members = d_members w;
          names = map m_name members;
          pypi_names = pypi_project_names M members (pypi_member_names members Map.empty);
          g = add_members M pypi_names (set names) members
                \<lparr>g_names = names, g_deps = (\<lambda>_. []), g_dependents = (\<lambda>_. []), g_scan_errors = []\<rparr>
      in g\<lparr>g_dependents := dependents_of names (g_deps g)\<rparr>)"

definition graph_dependents :: "'e graph \<Rightarrow> string \<Rightarrow> string list" where
  "graph_dependents g member = map fst (g_dependents g member)"

definition dependency_count :: "'e graph \<Rightarrow> string \<Rightarrow> nat" where
  "dependency_count g member = length (g_deps g member)"

definition dependent_count :: "'e graph \<Rightarrow> string \<Rightarrow> nat" where
  "dependent_count g member = length (g_dependents g member)"

section \<open>The topological order\<close>

text \<open>
  The counters, the ready list and the order so far. One round takes the first ready member by
  name and lowers the counter of every member depending on it. Every round adds a member to the
  order, so the number of members bounds the rounds; the loop is given one more than that.
\<close>

record topo_state =
  tp_remaining :: "string \<Rightarrow> int"
  tp_ready :: "string list"
  tp_order :: "string list"

definition topo_init :: "'e graph \<Rightarrow> topo_state" where
  "topo_init g =
     \<lparr>tp_remaining = (\<lambda>n. if n \<in> set (g_names g) then int (length (g_deps g n)) else 0),
      tp_ready = filter (\<lambda>n. g_deps g n = []) (g_names g), tp_order = []\<rparr>"

fun lower_counters :: "string list \<Rightarrow> (string \<Rightarrow> int) \<times> string list \<Rightarrow> (string \<Rightarrow> int) \<times> string list" where
  "lower_counters [] acc = acc"
| "lower_counters (d # ds) (remaining, ready) =
     (let r = remaining d - 1
      in lower_counters ds (remaining(d := r), if r = 0 then ready @ [d] else ready))"

definition topo_round :: "'e graph \<Rightarrow> topo_state \<Rightarrow> topo_state" where
  "topo_round g st =
     (let ready = sort (tp_ready st); next = hd ready
      in case lower_counters (graph_dependents g next) (tp_remaining st, tl ready) of
           (remaining, ready') \<Rightarrow>
             \<lparr>tp_remaining = remaining, tp_ready = ready', tp_order = tp_order st @ [next]\<rparr>)"

fun topo_loop :: "nat \<Rightarrow> 'e graph \<Rightarrow> topo_state \<Rightarrow> topo_state" where
  "topo_loop 0 g st = st"
| "topo_loop (Suc fuel) g st =
     (if tp_ready st = [] then st else topo_loop fuel g (topo_round g st))"

definition topological_order :: "'e graph \<Rightarrow> (string list, string list) result" where
  "topological_order g =
     (let st = topo_loop (Suc (length (g_names g))) g (topo_init g)
      in if length (tp_order st) \<noteq> length (g_names g)
         then Inl (sort (filter (\<lambda>n. tp_remaining st n > 0) (g_names g)))
         else Inr (tp_order st))"

definition has_cycles :: "'e graph \<Rightarrow> bool" where
  "has_cycles g \<longleftrightarrow> (case topological_order g of Inl _ \<Rightarrow> True | Inr _ \<Rightarrow> False)"

section \<open>Walks\<close>

definition graph_known :: "'e graph \<Rightarrow> string \<Rightarrow> bool" where
  "graph_known g member \<longleftrightarrow> g_deps g member \<noteq> [] \<or> member \<in> set (g_names g)"

record walk_state =
  wk_visited :: "string list"
  wk_queue :: "(string \<times> int) list"
  wk_out :: "string list"

fun visit_all :: "string list \<Rightarrow> int \<Rightarrow> walk_state \<Rightarrow> walk_state" where
  "visit_all [] depth st = st"
| "visit_all (n # ns) depth st =
     (if n \<in> set (wk_visited st) then visit_all ns depth st
      else visit_all ns depth
             \<lparr>wk_visited = wk_visited st @ [n], wk_queue = wk_queue st @ [(n, depth)], wk_out = wk_out st @ [n]\<rparr>)"

definition walk_round :: "int \<Rightarrow> (string \<Rightarrow> string list) \<Rightarrow> walk_state \<Rightarrow> walk_state" where
  "walk_round max_depth nexts st =
     (case wk_queue st of
        [] \<Rightarrow> st
      | (name, depth) # queue \<Rightarrow>
          (let st = st\<lparr>wk_queue := queue\<rparr>
           in if max_depth \<ge> 0 \<and> depth \<ge> max_depth then st
              else visit_all (nexts name) (depth + 1) st))"

fun walk_loop :: "nat \<Rightarrow> int \<Rightarrow> (string \<Rightarrow> string list) \<Rightarrow> walk_state \<Rightarrow> walk_state" where
  "walk_loop 0 max_depth nexts st = st"
| "walk_loop (Suc fuel) max_depth nexts st =
     (if wk_queue st = [] then st else walk_loop fuel max_depth nexts (walk_round max_depth nexts st))"

text \<open>A walk queues each member once, so the number of members bounds its rounds.\<close>

definition walk :: "nat \<Rightarrow> string \<Rightarrow> int \<Rightarrow> (string \<Rightarrow> string list) \<Rightarrow> string list" where
  "walk fuel member max_depth nexts =
     (if max_depth = 0 then []
      else wk_out (walk_loop fuel max_depth nexts
             (visit_all (nexts member) 1 \<lparr>wk_visited = [member], wk_queue = [], wk_out = []\<rparr>)))"

definition transitive_dependencies :: "'e graph \<Rightarrow> string \<Rightarrow> int \<Rightarrow> (string, string list) result" where
  "transitive_dependencies g member max_depth =
     (if \<not> graph_known g member then Inl member
      else Inr (walk (Suc (length (g_names g))) member max_depth (\<lambda>n. map dp_name (g_deps g n))))"

definition transitive_dependents ::
  "'e graph \<Rightarrow> string \<Rightarrow> int \<Rightarrow> dep_scope option \<Rightarrow> (string, string list) result" where
  "transitive_dependents g member max_depth scope =
     (if \<not> graph_known g member then Inl member
      else Inr (walk (Suc (length (g_names g))) member max_depth
             (\<lambda>n. map fst (filter (\<lambda>d. scope = None \<or> scope = Some (snd d)) (g_dependents g n)))))"

section \<open>Release order\<close>

datatype 'e order_error =
    GraphIncomplete "'e scan_error list"
  | GraphCycle "string list"
  | UnknownReleasables "string list" "string list"
  | StandaloneLayout

definition require_workspace :: "releasables \<Rightarrow> ('e order_error, unit) result" where
  "require_workspace w = (if is_workspace w then Inr () else Inl StandaloneLayout)"

definition member_order :: "releasables \<Rightarrow> 'e manifests \<Rightarrow> ('e order_error, string list \<times> 'e graph) result" where
  "member_order w M =
     (let g = new_graph w M
      in if g_scan_errors g \<noteq> [] then Inl (GraphIncomplete (g_scan_errors g))
         else (case topological_order g of
                 Inl stuck \<Rightarrow> Inl (GraphCycle stuck)
               | Inr order \<Rightarrow> Inr (order, g)))"

text \<open>The position of a member in an order; a name not in it reads as 0, the map's zero value.\<close>

fun position_from :: "int \<Rightarrow> string list \<Rightarrow> (string \<Rightarrow> int) \<Rightarrow> string \<Rightarrow> int" where
  "position_from i [] acc = acc"
| "position_from i (m # ms) acc = position_from (i + 1) ms (acc(m := i))"

definition order_position :: "string list \<Rightarrow> string \<Rightarrow> int" where
  "order_position order = position_from 0 order (\<lambda>_. 0)"

definition latest_position :: "releasables \<Rightarrow> string list \<Rightarrow> string \<Rightarrow> int" where
  "latest_position w order name =
     foldl (\<lambda>latest m. let p = order_position order (m_name m) in if p > latest then p else latest)
       (-1) (members_of w name)"

definition declared_names :: "releasables \<Rightarrow> string list" where
  "declared_names w = map r_name (d_releasables w)"

definition order_releasables :: "releasables \<Rightarrow> string list \<Rightarrow> string list \<Rightarrow> string list" where
  "order_releasables w order names =
     sort_by (\<lambda>a b. let la = latest_position w order a; lb = latest_position w order b
                     in if la \<noteq> lb then la < lb else a < b) names"

definition releasable_order ::
  "releasables \<Rightarrow> 'e manifests \<Rightarrow> string list \<Rightarrow> ('e order_error, string list) result" where
  "releasable_order w M names =
     rbind (member_order w M) (\<lambda>(order, _).
       let unknown = filter (\<lambda>n. find_releasable w n = None) names
       in if unknown \<noteq> [] then Inl (UnknownReleasables (sort unknown) (declared_names w))
          else Inr (order_releasables w order names))"

record order_report =
  or_members :: "string list"
  or_independent :: bool
  or_releasables :: "string list"

definition order_report_of :: "releasables \<Rightarrow> 'e manifests \<Rightarrow> ('e order_error, order_report) result" where
  "order_report_of w M =
     rbind (require_workspace w) (\<lambda>_.
     rbind (member_order w M) (\<lambda>(members, g).
     rbind (releasable_order w M (declared_names w)) (\<lambda>releasables.
       Inr \<lparr>or_members = members,
            or_independent = list_all (\<lambda>m. \<not> dependency_count g m > 0) members,
            or_releasables = releasables\<rparr>)))"

definition newline :: string where "newline = [CHR 0x0A]"

fun numbered_lines :: "nat \<Rightarrow> string list \<Rightarrow> string" where
  "numbered_lines i [] = []"
| "numbered_lines i (x # xs) = ''  '' @ dec_of_nat (i + 1) @ ''. '' @ x @ newline @ numbered_lines (i + 1) xs"

definition render_order :: "order_report \<Rightarrow> string" where
  "render_order r =
     trim_right_char CHR 0x0A
       ((if or_independent r
         then ''Every member is independent (no member depends on another):'' @ newline @
              concat (map (\<lambda>m. ''  '' @ m @ newline) (or_members r))
         else ''Members, each after the members it depends on:'' @ newline @ numbered_lines 0 (or_members r)) @
        newline @ ''Releasables, in the order a batch release releases them:'' @ newline @
        (if or_releasables r = [] then ''  (none declared)'' @ newline else []) @
        numbered_lines 0 (or_releasables r))"

section \<open>Well-formed graphs\<close>

definition depends :: "'e graph \<Rightarrow> string rel" where
  "depends g = {(d, n). n \<in> set (g_names g) \<and> d \<in> dp_name ` set (g_deps g n)}"

definition graph_wf :: "'e graph \<Rightarrow> bool" where
  "graph_wf g \<longleftrightarrow>
     distinct (g_names g) \<and>
     (\<forall>n \<in> set (g_names g). distinct (map dp_name (g_deps g n)) \<and>
        dp_name ` set (g_deps g n) \<subseteq> set (g_names g)) \<and>
     (\<forall>n. n \<notin> set (g_names g) \<longrightarrow> g_deps g n = []) \<and>
     g_dependents g = dependents_of (g_names g) (g_deps g)"

lemma distinct_count_filter:
  "distinct (map f xs) \<Longrightarrow> length (filter (\<lambda>x. f x = a) xs) = (if a \<in> f ` set xs then 1 else 0)"
  by (induction xs) (auto simp: filter_empty_conv)

lemma graph_dependents_wf:
  assumes "graph_wf g"
  shows "distinct (graph_dependents g d)" "set (graph_dependents g d) = {n. (d, n) \<in> depends g}"
proof -
  have gd: "graph_dependents g d =
      concat (map (\<lambda>name. map (\<lambda>_. name) (filter (\<lambda>x. dp_name x = d) (g_deps g name))) (g_names g))"
    using assms by (simp add: graph_dependents_def graph_wf_def dependents_of_def map_concat comp_def)
  show "set (graph_dependents g d) = {n. (d, n) \<in> depends g}"
    by (auto simp: gd depends_def)
  have "distinct (concat (map (\<lambda>name. map (\<lambda>_. name) (filter (\<lambda>x. dp_name x = d) (g_deps g name))) ns))"
    if "distinct ns" "set ns \<subseteq> set (g_names g)" for ns
    using that
  proof (induction ns)
    case (Cons n ns)
    have "distinct (map dp_name (g_deps g n))"
      using assms Cons.prems by (auto simp: graph_wf_def)
    then have "length (filter (\<lambda>x. dp_name x = d) (g_deps g n)) \<le> 1"
      by (simp add: distinct_count_filter)
    then have "distinct (map (\<lambda>_. n) (filter (\<lambda>x. dp_name x = d) (g_deps g n)))"
      by (cases "filter (\<lambda>x. dp_name x = d) (g_deps g n)") auto
    with Cons show ?case by auto
  qed simp
  then show "distinct (graph_dependents g d)"
    using assms by (auto simp: gd graph_wf_def)
qed

section \<open>The order is topological\<close>

definition missing :: "'e graph \<Rightarrow> string list \<Rightarrow> string \<Rightarrow> string set" where
  "missing g order n = {d. (d, n) \<in> depends g \<and> d \<notin> set order}"

definition deps_first :: "'e graph \<Rightarrow> string list \<Rightarrow> bool" where
  "deps_first g order \<longleftrightarrow> (\<forall>i < length order. \<forall>d. (d, order ! i) \<in> depends g \<longrightarrow> d \<in> set (take i order))"

lemma finite_missing [simp]: "finite (missing g order n)"
proof (rule finite_subset)
  show "missing g order n \<subseteq> dp_name ` set (g_deps g n)" by (auto simp: missing_def depends_def)
qed simp

lemma missing_snoc:
  "missing g (order @ [x]) n = missing g order n - {x}"
  by (auto simp: missing_def)

lemma deps_first_snoc:
  "deps_first g (order @ [n]) \<longleftrightarrow> deps_first g order \<and> missing g order n = {}"
  by (auto simp: deps_first_def missing_def nth_append less_Suc_eq)

lemma lower_counters_distinct:
  "distinct ds \<Longrightarrow> lower_counters ds (R, rd) =
     (\<lambda>n. if n \<in> set ds then R n - 1 else R n, rd @ filter (\<lambda>d. R d = 1) ds)"
proof (induction ds arbitrary: R rd)
  case (Cons d ds)
  then have "filter (\<lambda>x. (R(d := R d - 1)) x = 1) ds = filter (\<lambda>x. R x = 1) ds"
    by (intro filter_cong) auto
  with Cons show ?case by (auto simp: Let_def fun_eq_iff)
qed auto

definition topo_inv :: "'e graph \<Rightarrow> topo_state \<Rightarrow> bool" where
  "topo_inv g st \<longleftrightarrow>
     distinct (tp_order st @ tp_ready st) \<and> set (tp_order st @ tp_ready st) \<subseteq> set (g_names g) \<and>
     deps_first g (tp_order st) \<and>
     (\<forall>n \<in> set (g_names g). tp_remaining st n = int (card (missing g (tp_order st) n)) \<and>
        (n \<in> set (tp_order st @ tp_ready st) \<longleftrightarrow> missing g (tp_order st) n = {}))"

lemma topo_inv_init:
  assumes "graph_wf g"
  shows "topo_inv g (topo_init g)"
proof -
  have "missing g [] n = dp_name ` set (g_deps g n)" if "n \<in> set (g_names g)" for n
    using that by (auto simp: missing_def depends_def)
  moreover have "card (dp_name ` set (g_deps g n)) = length (g_deps g n)" if "n \<in> set (g_names g)" for n
    using assms that distinct_card [of "map dp_name (g_deps g n)"] by (simp add: graph_wf_def)
  ultimately show ?thesis
    using assms by (auto simp: topo_inv_def topo_init_def deps_first_def graph_wf_def)
qed

lemma topo_inv_round:
  assumes wf: "graph_wf g" and inv: "topo_inv g st" and ready: "tp_ready st \<noteq> []"
  shows "topo_inv g (topo_round g st)" and "length (tp_order (topo_round g st)) = Suc (length (tp_order st))"
proof -
  let ?ready = "sort (tp_ready st)" and ?o = "tp_order st"
  define x where "x = hd ?ready"
  have "?ready \<noteq> []" using ready by (metis set_empty set_sort)
  then have split: "?ready = x # tl ?ready" by (simp add: x_def)
  have rs: "distinct (x # tl ?ready)" "set (x # tl ?ready) = set (tp_ready st)"
    using inv split by (metis distinct_append distinct_sort topo_inv_def, metis set_sort)
  have xr: "x \<in> set (tp_ready st)" using rs(2) by auto
  then have x: "x \<in> set (g_names g)" "x \<notin> set ?o"
    using inv unfolding topo_inv_def by auto
  with xr inv have x3: "missing g ?o x = {}" unfolding topo_inv_def by (metis UnI2 set_append)
  let ?ds = "graph_dependents g x" and ?R = "tp_remaining st"
  have ds: "distinct ?ds" "set ?ds = {n. (x, n) \<in> depends g}"
    using graph_dependents_wf [OF wf] by auto
  then have st': "topo_round g st = \<lparr>tp_remaining = (\<lambda>n. if (x, n) \<in> depends g then ?R n - 1 else ?R n),
      tp_ready = tl ?ready @ filter (\<lambda>d. ?R d = 1) ?ds, tp_order = ?o @ [x]\<rparr>"
    by (simp add: topo_round_def Let_def x_def [symmetric] lower_counters_distinct)
  have in_names: "n \<in> set (g_names g)" if "(x, n) \<in> depends g" for n
    using that by (simp add: depends_def)
  have R: "?R n = int (card (missing g ?o n))" "n \<in> set (?o @ tp_ready st) \<longleftrightarrow> missing g ?o n = {}"
    if "n \<in> set (g_names g)" for n
    using inv that by (auto simp: topo_inv_def)
  have one: "?R n = 1 \<longleftrightarrow> missing g ?o n = {x}" if "(x, n) \<in> depends g" for n
  proof -
    have "x \<in> missing g ?o n" using that x(2) by (simp add: missing_def)
    then have "card (missing g ?o n) = 1 \<longleftrightarrow> missing g ?o n = {x}"
      by (metis One_nat_def card_1_singletonE card.empty card.insert empty_iff finite.emptyI singletonD)
    then show ?thesis using R(1) [OF in_names [OF that]] by simp
  qed
  have fresh: "n \<notin> set (?o @ x # tl ?ready)" if "(x, n) \<in> depends g" for n
  proof -
    have "x \<in> missing g ?o n" using that x(2) by (simp add: missing_def)
    then show ?thesis using R(2) [OF in_names [OF that]] rs(2) by auto
  qed
  have card': "(if (x, n) \<in> depends g then ?R n - 1 else ?R n) = int (card (missing g (?o @ [x]) n))"
    if "n \<in> set (g_names g)" for n
  proof (cases "(x, n) \<in> depends g")
    case True
    then have "x \<in> missing g ?o n" using x(2) by (simp add: missing_def)
    then have "card (missing g ?o n) = Suc (card (missing g ?o n - {x}))"
      by (metis card_Suc_Diff1 finite_missing)
    with True R(1) [OF that] show ?thesis by (simp add: missing_snoc)
  next
    case False
    then have "missing g ?o n - {x} = missing g ?o n" by (auto simp: missing_def)
    with False R(1) [OF that] show ?thesis by (simp add: missing_snoc)
  qed
  have mem': "n \<in> set ((?o @ [x]) @ tl ?ready @ filter (\<lambda>d. ?R d = 1) ?ds) \<longleftrightarrow> missing g (?o @ [x]) n = {}"
    if n: "n \<in> set (g_names g)" for n
  proof -
    have "missing g (?o @ [x]) n = {} \<longleftrightarrow> missing g ?o n = {} \<or> missing g ?o n = {x}"
      by (auto simp: missing_snoc)
    moreover have "missing g ?o n = {x} \<longleftrightarrow> (x, n) \<in> depends g \<and> ?R n = 1"
      using one [of n] by (auto simp: missing_def)
    moreover have "set ?o \<union> set (tp_ready st) = set ?o \<union> insert x (set (tl ?ready))"
      using rs(2) by auto
    ultimately show ?thesis using R(2) [OF n] ds(2) by auto
  qed
  have "distinct ((?o @ [x]) @ tl ?ready @ filter (\<lambda>d. ?R d = 1) ?ds)"
    using inv rs fresh ds by (auto simp: topo_inv_def)
  moreover have "set ((?o @ [x]) @ tl ?ready @ filter (\<lambda>d. ?R d = 1) ?ds) \<subseteq> set (g_names g)"
    using inv rs ds in_names x(1) by (auto simp: topo_inv_def)
  moreover have "deps_first g (?o @ [x])"
    using inv x3 by (simp add: deps_first_snoc topo_inv_def)
  ultimately show "topo_inv g (topo_round g st)"
    unfolding topo_inv_def st' using card' mem' by simp
  show "length (tp_order (topo_round g st)) = Suc (length ?o)" by (simp add: st')
qed

lemma topo_inv_bound:
  assumes "topo_inv g st"
  shows "length (tp_order st) \<le> length (g_names g)"
proof -
  have "distinct (tp_order st)" "set (tp_order st) \<subseteq> set (g_names g)"
    using assms by (auto simp: topo_inv_def)
  then have "length (tp_order st) \<le> card (set (g_names g))"
    by (metis card_mono distinct_card List.finite_set)
  also have "\<dots> \<le> length (g_names g)" by (rule card_length)
  finally show ?thesis .
qed

text \<open>With a round for every member and one more, the loop ends with nothing ready.\<close>

lemma topo_loop_done:
  "graph_wf g \<Longrightarrow> topo_inv g st \<Longrightarrow> length (g_names g) < length (tp_order st) + fuel \<Longrightarrow>
     topo_inv g (topo_loop fuel g st) \<and> tp_ready (topo_loop fuel g st) = []"
proof (induction fuel g st rule: topo_loop.induct)
  case (1 g st)
  with topo_inv_bound [of g st] show ?case by simp
next
  case (2 fuel g st)
  then show ?case using topo_inv_round [of g st] by auto
qed

lemma finite_depends:
  assumes "graph_wf g"
  shows "finite (depends g)"
proof (rule finite_subset)
  show "depends g \<subseteq> set (g_names g) \<times> set (g_names g)"
    using assms by (auto simp: depends_def graph_wf_def)
qed simp

lemma deps_first_trancl:
  assumes "deps_first g order" "(d, n) \<in> (depends g)\<^sup>+"
  shows "i < length order \<Longrightarrow> order ! i = n \<Longrightarrow> d \<in> set (take i order)"
  using assms(2)
proof (induction arbitrary: i rule: trancl_induct)
  case (base n)
  then show ?case using assms(1) by (auto simp: deps_first_def)
next
  case (step m n)
  with assms(1) have "m \<in> set (take i order)" by (auto simp: deps_first_def)
  then obtain j where j: "j < i" "order ! j = m" "j < length order"
    using step.prems by (auto simp: in_set_conv_nth)
  with step.IH have "d \<in> set (take j order)" by blast
  moreover have "set (take j order) \<subseteq> set (take i order)"
    using j(1) by (intro set_take_subset_set_take) simp
  ultimately show ?case by blast
qed

lemma deps_first_acyclic:
  assumes "deps_first g order" "distinct order" "set (g_names g) \<subseteq> set order"
  shows "acyclic (depends g)"
proof (rule ccontr)
  assume "\<not> acyclic (depends g)"
  then obtain c where c: "(c, c) \<in> (depends g)\<^sup>+" by (auto simp: acyclic_def)
  then have "c \<in> set (g_names g)" by (metis (no_types, lifting) depends_def case_prodD mem_Collect_eq tranclD2)
  with assms(3) have "c \<in> set order" by blast
  then obtain i where i: "i < length order" "order ! i = c" by (auto simp: in_set_conv_nth)
  from deps_first_trancl [OF assms(1) c this] obtain j where "j < i" "order ! j = c"
    using i by (auto simp: in_set_conv_nth)
  with i assms(2) show False by (auto simp: distinct_conv_nth)
qed

text \<open>A finite set in which everything has a predecessor of its own holds a cycle.\<close>

lemma cycle_in_closed_set:
  assumes "finite A" "a \<in> A" "\<And>n. n \<in> A \<Longrightarrow> \<exists>d \<in> A. (d, n) \<in> r"
  shows "\<exists>c \<in> A. (c, c) \<in> r\<^sup>+"
proof -
  let ?s = "r \<inter> A \<times> A"
  have "\<not> wf ?s"
  proof
    assume "wf ?s"
    from this assms(2) show False
    proof (rule wfE_min)
      fix z assume z: "z \<in> A" "\<And>y. (y, z) \<in> ?s \<Longrightarrow> y \<notin> A"
      from assms(3) [OF z(1)] obtain d where d: "d \<in> A" "(d, z) \<in> r" by (rule bexE)
      with z(1) have "(d, z) \<in> ?s" by simp
      from z(2) [OF this] d(1) show False by contradiction
    qed
  qed
  moreover have "finite ?s" by (rule finite_subset [of _ "A \<times> A"]) (use assms(1) in auto)
  ultimately have "\<not> acyclic ?s" using finite_acyclic_wf by blast
  then obtain c where c: "(c, c) \<in> ?s\<^sup>+" by (auto simp: acyclic_def)
  have "c \<in> A" using tranclD [OF c] by (elim exE conjE IntE) simp
  moreover have "(c, c) \<in> r\<^sup>+" by (rule trancl_mono [OF c]) auto
  ultimately show ?thesis by blast
qed

text \<open>The members on a cycle or behind one: on a path from a member that depends on itself.\<close>

definition behind_cycle :: "'e graph \<Rightarrow> string set" where
  "behind_cycle g = {n. \<exists>c. (c, c) \<in> (depends g)\<^sup>+ \<and> (c, n) \<in> (depends g)\<^sup>*}"

lemma stuck_behind_cycle:
  assumes wf: "graph_wf g" and inv: "topo_inv g st" and idle: "tp_ready st = []"
  shows "set (g_names g) - set (tp_order st) = behind_cycle g"
proof
  let ?S = "set (g_names g) - set (tp_order st)"
  have pred: "\<exists>d \<in> ?S. (d, n) \<in> depends g" if "n \<in> ?S" for n
  proof -
    have "missing g (tp_order st) n \<noteq> {}"
      using that inv idle by (auto simp: topo_inv_def)
    then obtain d where "(d, n) \<in> depends g" "d \<notin> set (tp_order st)" by (auto simp: missing_def)
    moreover from this(1) have "d \<in> set (g_names g)" using wf by (auto simp: depends_def graph_wf_def)
    ultimately show ?thesis by blast
  qed
  show "?S \<subseteq> behind_cycle g"
  proof
    fix n assume n: "n \<in> ?S"
    let ?A = "{a \<in> ?S. (a, n) \<in> (depends g)\<^sup>*}"
    have "\<exists>c \<in> ?A. (c, c) \<in> (depends g)\<^sup>+"
    proof (rule cycle_in_closed_set)
      show "finite ?A" by simp
      show "n \<in> ?A" using n by simp
      fix m assume m: "m \<in> ?A"
      with pred obtain d where "d \<in> ?S" "(d, m) \<in> depends g" by blast
      with m show "\<exists>d \<in> ?A. (d, m) \<in> depends g"
        by (blast intro: converse_rtrancl_into_rtrancl)
    qed
    then show "n \<in> behind_cycle g" by (auto simp: behind_cycle_def)
  qed
  show "behind_cycle g \<subseteq> ?S"
  proof
    fix n assume "n \<in> behind_cycle g"
    then obtain c where c: "(c, c) \<in> (depends g)\<^sup>+" "(c, n) \<in> (depends g)\<^sup>*"
      by (auto simp: behind_cycle_def)
    then have cn: "(c, n) \<in> (depends g)\<^sup>+" by (metis rtranclD trancl_trans)
    then have "n \<in> set (g_names g)"
      by (metis (no_types, lifting) depends_def case_prodD mem_Collect_eq tranclD2)
    moreover have "n \<notin> set (tp_order st)"
    proof
      assume "n \<in> set (tp_order st)"
      then obtain i where i: "i < length (tp_order st)" "tp_order st ! i = n" by (auto simp: in_set_conv_nth)
      have df: "deps_first g (tp_order st)" and di: "distinct (tp_order st)"
        using inv by (auto simp: topo_inv_def)
      from deps_first_trancl [OF df cn i] obtain j where j: "j < i" "tp_order st ! j = c"
        using i by (auto simp: in_set_conv_nth)
      then have "j < length (tp_order st)" using i by simp
      from deps_first_trancl [OF df c(1) this j(2)] obtain k where "k < j" "tp_order st ! k = c"
        using j i by (auto simp: in_set_conv_nth)
      with j i di show False by (auto simp: distinct_conv_nth)
    qed
    ultimately show "n \<in> ?S" by simp
  qed
qed

lemma topological_order_spec:
  assumes "graph_wf g"
  shows "case topological_order g of
      Inr order \<Rightarrow> mset order = mset (g_names g) \<and> deps_first g order \<and> acyclic (depends g)
    | Inl stuck \<Rightarrow> stuck \<noteq> [] \<and> sorted stuck \<and> set stuck = behind_cycle g"
proof -
  define st where "st = topo_loop (Suc (length (g_names g))) g (topo_init g)"
  have inv: "topo_inv g st" "tp_ready st = []"
    using topo_loop_done [OF assms topo_inv_init [OF assms], of "Suc (length (g_names g))"]
    by (simp_all add: st_def)
  then have o: "distinct (tp_order st)" "set (tp_order st) \<subseteq> set (g_names g)" "deps_first g (tp_order st)"
    by (auto simp: topo_inv_def)
  have dn: "distinct (g_names g)" using assms by (simp add: graph_wf_def)
  show ?thesis
  proof (cases "length (tp_order st) = length (g_names g)")
    case True
    then have "set (tp_order st) = set (g_names g)"
      using o(1,2) dn by (metis card_subset_eq distinct_card List.finite_set)
    then have "mset (tp_order st) = mset (g_names g)"
      using o(1) dn by (simp add: set_eq_iff_mset_eq_distinct)
    moreover have "acyclic (depends g)"
      using deps_first_acyclic [OF o(3) o(1)] \<open>set (tp_order st) = set (g_names g)\<close> by simp
    ultimately show ?thesis
      using True o(3) by (simp add: topological_order_def Let_def st_def)
  next
    case False
    let ?stuck = "sort (filter (\<lambda>n. tp_remaining st n > 0) (g_names g))"
    have "tp_remaining st n > 0 \<longleftrightarrow> n \<notin> set (tp_order st)" if "n \<in> set (g_names g)" for n
      using inv that by (auto simp: topo_inv_def card_gt_0_iff)
    then have "set ?stuck = set (g_names g) - set (tp_order st)" by auto
    then have "set ?stuck = behind_cycle g" using stuck_behind_cycle [OF assms inv] by simp
    moreover have "?stuck \<noteq> []"
    proof
      assume "?stuck = []"
      with \<open>set ?stuck = set (g_names g) - set (tp_order st)\<close> have "set (tp_order st) = set (g_names g)"
        using o(2) by (metis Diff_eq_empty_iff empty_set subset_antisym)
      with False o(1) dn show False by (metis distinct_card)
    qed
    ultimately show ?thesis
      using False by (simp add: topological_order_def Let_def st_def)
  qed
qed

section \<open>The graph of accepted declarations\<close>

lemma first_edges_spec:
  "distinct (map dp_name (first_edges self seen deps)) \<and>
   dp_name ` set (first_edges self seen deps) = dp_name ` set deps - insert self seen"
proof (induction self seen deps rule: first_edges.induct)
  case (2 self seen dep deps)
  then show ?case by (auto simp: insert_commute)
qed simp

lemma ran_update_subset: "ran (acc(k \<mapsto> x)) \<subseteq> insert x (ran acc)"
  by (auto simp: ran_def split: if_splits)

lemma pypi_member_names_ran: "ran (pypi_member_names ms acc) \<subseteq> ran acc \<union> m_name ` set ms"
proof (induction ms arbitrary: acc)
  case (Cons m ms)
  let ?acc = "acc(normalize_pypi (m_name m) \<mapsto> m_name m)"
  have "ran (pypi_member_names ms ?acc) \<subseteq> ran ?acc \<union> m_name ` set ms" by (rule Cons.IH)
  also have "\<dots> \<subseteq> ran acc \<union> m_name ` set (m # ms)"
    using ran_update_subset [of acc "normalize_pypi (m_name m)" "m_name m"] by auto
  finally show ?case by simp
qed simp

lemma pypi_project_names_ran: "ran (pypi_project_names M ms acc) \<subseteq> ran acc \<union> m_name ` set ms"
proof (induction ms arbitrary: acc)
  case (Cons m ms)
  let ?next = "pypi_project_names M (m # ms) acc"
  have "?next = pypi_project_names M ms acc \<or>
      (\<exists>k. ?next = pypi_project_names M ms (acc(k \<mapsto> m_name m)))"
    by (simp split: sum.split option.split) blast
  then obtain acc' where n: "?next = pypi_project_names M ms acc'" and
    "acc' = acc \<or> (\<exists>k. acc' = acc(k \<mapsto> m_name m))" by blast
  then have "ran acc' \<subseteq> insert (m_name m) (ran acc)"
    using ran_update_subset [of acc _ "m_name m"] by auto
  moreover have "ran (pypi_project_names M ms acc') \<subseteq> ran acc' \<union> m_name ` set ms"
    by (rule Cons.IH)
  ultimately show ?case unfolding n by auto
qed simp

lemma add_requirements_names: "d \<in> set (add_requirements pn scope items) \<Longrightarrow> dp_name d \<in> ran pn"
proof (induction items)
  case (Cons item items)
  then consider (rest) "d \<in> set (add_requirements pn scope items)"
    | (new) name where "pn name = Some (dp_name d)"
    by (auto split: json.splits option.splits prod.splits if_splits)
  then show ?case
  proof cases
    case rest
    then show ?thesis by (rule Cons.IH)
  next
    case new
    then show ?thesis by (rule ranI)
  qed
qed simp

lemma scan_pypi_names:
  assumes "scan_pypi x pn = Inr ds" "d \<in> set ds"
  shows "dp_name d \<in> ran pn"
proof -
  from assms(1) obtain project where p: "project_of x = Inr project"
    by (auto simp: scan_pypi_def rbind_eq_Inr)
  show ?thesis
  proof (cases project)
    case None
    with p assms show ?thesis by (simp add: scan_pypi_def)
  next
    case (Some t)
    with p assms show ?thesis
      by (cases "as_table (table_get t ''optional-dependencies'')")
        (auto simp: scan_pypi_def dest: add_requirements_names)
  qed
qed

lemma scan_npm_names: "scan_npm x names = Inr ds \<Longrightarrow> d \<in> set ds \<Longrightarrow> dp_name d \<in> names"
  by (auto simp: scan_npm_def npm_section_def Let_def split: manifest.splits)

lemma found_dependencies_names:
  assumes "ran pn \<subseteq> names" "set (m_depends_on m) \<subseteq> names"
  shows "dp_name ` set (fst (found_dependencies M pn names m)) \<subseteq> names"
proof
  fix n assume "n \<in> dp_name ` set (fst (found_dependencies M pn names m))"
  then obtain d where d: "d \<in> set (fst (found_dependencies M pn names m))" "n = dp_name d" by blast
  from d(1) have
    "(\<exists>ds. scan_pypi (pyproject_at M (m_path m)) pn = Inr ds \<and> d \<in> set ds) \<or>
     (\<exists>ds. scan_npm (package_at M (m_path m)) names = Inr ds \<and> d \<in> set ds) \<or>
     d \<in> explicit_dependency ` set (m_depends_on m)"
    by (cases "scan_pypi (pyproject_at M (m_path m)) pn"; cases "scan_npm (package_at M (m_path m)) names")
      (auto simp: found_dependencies_def Let_def)
  then show "n \<in> names"
    using assms d(2) by (auto simp: explicit_dependency_def dest: scan_pypi_names scan_npm_names)
qed

lemma add_members_deps:
  "distinct (map m_name ms) \<Longrightarrow>
     g_deps (add_members M pn names ms g) n =
       (case List.find (\<lambda>m. m_name m = n) ms of
          Some m \<Rightarrow> g_deps g n @ first_edges n {} (fst (found_dependencies M pn names m))
        | None \<Rightarrow> g_deps g n) \<and>
     g_names (add_members M pn names ms g) = g_names g"
proof (induction ms arbitrary: g)
  case (Cons m ms)
  have "List.find (\<lambda>c. m_name c = m_name m) ms = None"
    using Cons.prems by (auto simp: find_None_iff_ball image_iff)
  with Cons show ?case
    by (auto simp: split: prod.splits option.splits)
qed simp

lemma new_graph_wf:
  assumes "check_declarations w = []"
  shows "graph_wf (new_graph w M)" "g_names (new_graph w M) = map m_name (d_members w)"
proof -
  let ?ms = "d_members w" and ?names = "m_name ` set (d_members w)"
  let ?pn = "pypi_project_names M ?ms (pypi_member_names ?ms Map.empty)"
  have dist: "distinct (map m_name ?ms)"
    using check_members_identities check_declarations_parts [OF assms] by (auto simp: identities_ok_def)
  have pn: "ran ?pn \<subseteq> ?names"
    using pypi_project_names_ran [of M ?ms "pypi_member_names ?ms Map.empty"]
      pypi_member_names_ran [of ?ms Map.empty] by auto
  have deps: "set (m_depends_on m) \<subseteq> ?names" if "m \<in> set ?ms" for m
  proof
    fix dep assume "dep \<in> set (m_depends_on m)"
    from accepted_depends_on(2) [OF assms that this] obtain c where
      "List.find (\<lambda>m. m_name m = dep) ?ms = Some c" by (auto simp: find_member_def)
    from find_SomeD [OF this] show "dep \<in> ?names" by auto
  qed
  define g where "g = add_members M ?pn ?names ?ms
      \<lparr>g_names = map m_name ?ms, g_deps = (\<lambda>_. []), g_dependents = (\<lambda>_. []), g_scan_errors = []\<rparr>"
  have new: "new_graph w M = g\<lparr>g_dependents := dependents_of (map m_name ?ms) (g_deps g)\<rparr>"
    by (simp add: new_graph_def Let_def g_def)
  have names: "g_names g = map m_name ?ms"
    unfolding g_def using add_members_deps [OF dist, of M ?pn ?names] by simp
  have gd: "g_deps g n = (case List.find (\<lambda>m. m_name m = n) ?ms of
      Some m \<Rightarrow> first_edges n {} (fst (found_dependencies M ?pn ?names m)) | None \<Rightarrow> [])" for n
    unfolding g_def using add_members_deps [OF dist, of M ?pn ?names] by (simp split: option.splits)
  have "distinct (map dp_name (g_deps g n)) \<and> dp_name ` set (g_deps g n) \<subseteq> ?names" for n
  proof (cases "List.find (\<lambda>m. m_name m = n) ?ms")
    case (Some m)
    then have "m \<in> set ?ms" by (auto dest: find_SomeD)
    from found_dependencies_names [OF pn deps [OF this], of M] Some show ?thesis
      using first_edges_spec [of n "{}" "fst (found_dependencies M ?pn ?names m)"]
      by (auto simp: gd)
  qed (simp add: gd)
  moreover have "g_deps g n = []" if "n \<notin> ?names" for n
  proof -
    have "List.find (\<lambda>m. m_name m = n) ?ms = None" using that by (auto simp: find_None_iff_ball)
    then show ?thesis by (simp add: gd)
  qed
  ultimately show "graph_wf (new_graph w M)"
    using dist by (simp add: new names graph_wf_def)
  show "g_names (new_graph w M) = map m_name ?ms" by (simp add: new names)
qed

text \<open>
  C12. The release order of the members: every member once, each after the members it depends
  on, whenever the manifests could be read and the dependencies have no cycle; otherwise the
  refusal names exactly the members on a cycle or behind one.
\<close>

theorem member_order_topological:
  assumes "check_declarations w = []" and "g_scan_errors (new_graph w M) = []"
  shows "case member_order w M of
      Inr (order, g) \<Rightarrow> g = new_graph w M \<and> mset order = mset (map m_name (d_members w)) \<and>
        deps_first g order \<and> acyclic (depends g)
    | Inl (GraphCycle stuck) \<Rightarrow> stuck \<noteq> [] \<and> set stuck = behind_cycle (new_graph w M)
    | Inl _ \<Rightarrow> False"
  using topological_order_spec [OF new_graph_wf(1) [OF assms(1)], of M] new_graph_wf(2) [OF assms(1), of M]
    assms(2)
  by (cases "topological_order (new_graph w M)") (auto simp: member_order_def Let_def)

section \<open>An unbounded walk reaches everything reachable\<close>

definition steps_to :: "(string \<Rightarrow> string list) \<Rightarrow> string rel" where
  "steps_to nexts = {(a, b). b \<in> set (nexts a)}"

lemma visit_all_new:
  "\<exists>new. visit_all ns depth st =
       \<lparr>wk_visited = wk_visited st @ new, wk_queue = wk_queue st @ map (\<lambda>n. (n, depth)) new,
        wk_out = wk_out st @ new\<rparr> \<and>
     distinct new \<and> set new = set ns - set (wk_visited st)"
proof (induction ns arbitrary: st)
  case Nil
  then show ?case by (intro exI [of _ "[]"]) simp
next
  case (Cons n ns)
  show ?case
  proof (cases "n \<in> set (wk_visited st)")
    case True
    with Cons [of st] show ?thesis by auto
  next
    case False
    let ?st = "\<lparr>wk_visited = wk_visited st @ [n], wk_queue = wk_queue st @ [(n, depth)], wk_out = wk_out st @ [n]\<rparr>"
    from Cons [of ?st] obtain new where "visit_all ns depth ?st =
       \<lparr>wk_visited = wk_visited ?st @ new, wk_queue = wk_queue ?st @ map (\<lambda>n. (n, depth)) new,
        wk_out = wk_out ?st @ new\<rparr>" "distinct new" "set new = set ns - set (wk_visited ?st)" by blast
    with False show ?thesis by (intro exI [of _ "n # new"]) auto
  qed
qed

definition walk_inv :: "(string \<Rightarrow> string list) \<Rightarrow> string \<Rightarrow> walk_state \<Rightarrow> bool" where
  "walk_inv nexts member st \<longleftrightarrow>
     wk_visited st = member # wk_out st \<and> distinct (wk_visited st) \<and>
     distinct (map fst (wk_queue st)) \<and> set (map fst (wk_queue st)) \<subseteq> set (wk_out st) \<and>
     (\<forall>v \<in> set (wk_visited st) - set (map fst (wk_queue st)). set (nexts v) \<subseteq> set (wk_visited st)) \<and>
     set (wk_out st) \<subseteq> {n. (member, n) \<in> (steps_to nexts)\<^sup>+}"

lemma walk_inv_round:
  assumes inv: "walk_inv nexts member st" and q: "wk_queue st \<noteq> []" and unbounded: "max_depth < 0"
  shows "walk_inv nexts member (walk_round max_depth nexts st)"
    and "length (wk_out (walk_round max_depth nexts st)) - length (wk_queue (walk_round max_depth nexts st)) =
      Suc (length (wk_out st) - length (wk_queue st))"
proof -
  obtain name depth queue where q': "wk_queue st = (name, depth) # queue"
    using q by (metis list.exhaust surj_pair)
  let ?st = "st\<lparr>wk_queue := queue\<rparr>"
  obtain new where new: "visit_all (nexts name) (depth + 1) ?st =
       \<lparr>wk_visited = wk_visited st @ new, wk_queue = queue @ map (\<lambda>n. (n, depth + 1)) new,
        wk_out = wk_out st @ new\<rparr>" "distinct new" "set new = set (nexts name) - set (wk_visited st)"
    using visit_all_new [of "nexts name" "depth + 1" ?st] by auto
  then have round: "walk_round max_depth nexts st =
       \<lparr>wk_visited = wk_visited st @ new, wk_queue = queue @ map (\<lambda>n. (n, depth + 1)) new,
        wk_out = wk_out st @ new\<rparr>"
    using unbounded by (simp add: walk_round_def q')
  have name: "(member, name) \<in> (steps_to nexts)\<^sup>+"
    using inv q' by (auto simp: walk_inv_def)
  have reach: "(member, n) \<in> (steps_to nexts)\<^sup>+" if "n \<in> set new" for n
  proof -
    have "(name, n) \<in> steps_to nexts" using that new(3) by (simp add: steps_to_def)
    with name show ?thesis by (rule trancl_into_trancl)
  qed
  have closed: "set (nexts v) \<subseteq> set (wk_visited st @ new)"
    if "v \<in> set (wk_visited st @ new) - set (map fst (queue @ map (\<lambda>n. (n, depth + 1)) new))" for v
  proof (cases "v = name")
    case True
    then show ?thesis using new(3) by auto
  next
    case False
    with that have "v \<in> set (wk_visited st) - set (map fst (wk_queue st))" by (auto simp: q')
    with inv have "set (nexts v) \<subseteq> set (wk_visited st)" unfolding walk_inv_def by blast
    then show ?thesis by auto
  qed
  show "walk_inv nexts member (walk_round max_depth nexts st)"
    unfolding walk_inv_def round using inv new(2,3) reach closed q'
    by (auto simp: walk_inv_def comp_def)
  have "length queue < length (wk_out st)"
  proof -
    have "length (map fst (wk_queue st)) \<le> length (wk_out st)"
      using inv by (metis (no_types) walk_inv_def distinct_card card_mono List.finite_set distinct.simps(2))
    then show ?thesis by (simp add: q')
  qed
  then show "length (wk_out (walk_round max_depth nexts st)) - length (wk_queue (walk_round max_depth nexts st)) =
      Suc (length (wk_out st) - length (wk_queue st))"
    by (simp add: round q')
qed

lemma walk_loop_done:
  assumes "finite N" "\<And>n. n \<in> N \<Longrightarrow> set (nexts n) \<subseteq> N" "max_depth < 0"
  shows "walk_inv nexts member st \<Longrightarrow> set (wk_visited st) \<subseteq> N \<Longrightarrow>
     card N \<le> length (wk_out st) - length (wk_queue st) + fuel \<Longrightarrow>
     walk_inv nexts member (walk_loop fuel max_depth nexts st) \<and> wk_queue (walk_loop fuel max_depth nexts st) = []"
proof (induction fuel arbitrary: st)
  case 0
  then have "distinct (member # wk_out st)" "set (member # wk_out st) \<subseteq> N" by (auto simp: walk_inv_def)
  then have "length (member # wk_out st) \<le> card N" by (metis assms(1) card_mono distinct_card)
  with 0 show ?case by simp
next
  case (Suc fuel)
  show ?case
  proof (cases "wk_queue st = []")
    case True
    with Suc show ?thesis by simp
  next
    case False
    have "set (wk_visited (walk_round max_depth nexts st)) \<subseteq> N"
    proof -
      obtain name depth queue where q: "wk_queue st = (name, depth) # queue"
        using False by (metis list.exhaust surj_pair)
      then have "name \<in> N" using Suc.prems(1,2) by (auto simp: walk_inv_def)
      then have "set (nexts name) \<subseteq> N" by (rule assms(2))
      with visit_all_new [of "nexts name" "depth + 1" "st\<lparr>wk_queue := queue\<rparr>"] Suc.prems(2) assms(3)
      show ?thesis by (auto simp: walk_round_def q)
    qed
    with Suc.IH [OF walk_inv_round(1) [OF Suc.prems(1) False assms(3)]]
      walk_inv_round(2) [OF Suc.prems(1) False assms(3)] Suc.prems(3) False
    show ?thesis by simp
  qed
qed

lemma walk_inv_closed:
  assumes "walk_inv nexts member st" "wk_queue st = []"
  shows "distinct (wk_out st)" "set (wk_out st) = {n. (member, n) \<in> (steps_to nexts)\<^sup>+} - {member}"
proof -
  show "distinct (wk_out st)" using assms by (auto simp: walk_inv_def)
  have closed: "n \<in> set (wk_visited st)" if "v \<in> set (wk_visited st)" "(v, n) \<in> steps_to nexts" for v n
  proof -
    have "\<forall>v \<in> set (wk_visited st) - set (map fst (wk_queue st)). set (nexts v) \<subseteq> set (wk_visited st)"
      using assms(1) unfolding walk_inv_def by (elim conjE)
    then have "\<forall>v \<in> set (wk_visited st). set (nexts v) \<subseteq> set (wk_visited st)"
      unfolding assms(2) by (simp only: list.map list.set Diff_empty)
    then have "set (nexts v) \<subseteq> set (wk_visited st)" using that(1) by (rule bspec)
    with that(2) show ?thesis by (auto simp: steps_to_def)
  qed
  have member: "member \<in> set (wk_visited st)" using assms(1) by (simp add: walk_inv_def)
  have "n \<in> set (wk_visited st)" if "(member, n) \<in> (steps_to nexts)\<^sup>+" for n
    using that by (induction rule: trancl_induct) (auto intro: closed member)
  with assms show "set (wk_out st) = {n. (member, n) \<in> (steps_to nexts)\<^sup>+} - {member}"
    by (auto simp: walk_inv_def)
qed

lemma walk_unbounded:
  assumes "finite N" "\<And>n. n \<in> N \<Longrightarrow> set (nexts n) \<subseteq> N" "member \<in> N" "card N \<le> fuel" "max_depth < 0"
  shows "distinct (walk fuel member max_depth nexts) \<and>
    set (walk fuel member max_depth nexts) = {n. (member, n) \<in> (steps_to nexts)\<^sup>+} - {member}"
proof -
  let ?st = "visit_all (nexts member) 1 \<lparr>wk_visited = [member], wk_queue = [], wk_out = []\<rparr>"
  obtain new where new: "?st = \<lparr>wk_visited = member # new, wk_queue = map (\<lambda>n. (n, 1)) new, wk_out = new\<rparr>"
    "distinct new" "set new = set (nexts member) - {member}"
    using visit_all_new [of "nexts member" 1 "\<lparr>wk_visited = [member], wk_queue = [], wk_out = []\<rparr>"] by auto
  have "walk_inv nexts member ?st"
    using new(2,3) by (auto simp: new(1) walk_inv_def comp_def steps_to_def)
  moreover have "set (wk_visited ?st) \<subseteq> N"
    using new assms(2) [OF assms(3)] assms(3) by auto
  ultimately have "walk_inv nexts member (walk_loop fuel max_depth nexts ?st) \<and>
      wk_queue (walk_loop fuel max_depth nexts ?st) = []"
    using walk_loop_done [OF assms(1) assms(2) assms(5), where member = member and st = ?st and fuel = fuel] assms(4)
    by simp
  from walk_inv_closed [OF conjunct1 [OF this] conjunct2 [OF this]] assms(5) show ?thesis
    by (simp add: walk_def)
qed

text \<open>
  The transitive dependencies of a member are exactly the other members it depends on
  through some chain, each once; a member nobody declared is refused.
\<close>

theorem transitive_dependencies_closure:
  assumes "check_declarations w = []"
  shows "case transitive_dependencies (new_graph w M) m (-1) of
      Inr ns \<Rightarrow> distinct ns \<and> set ns = {d. (d, m) \<in> (depends (new_graph w M))\<^sup>+} - {m}
    | Inl n \<Rightarrow> n = m \<and> m \<notin> m_name ` set (d_members w)"
proof -
  let ?g = "new_graph w M"
  note wf = new_graph_wf(1) [OF assms, of M] and names = new_graph_wf(2) [OF assms, of M]
  let ?next = "\<lambda>n. map dp_name (g_deps ?g n)" and ?N = "set (g_names ?g)"
  show ?thesis
  proof (cases "m \<in> ?N")
    case True
    have "set (?next n) \<subseteq> ?N" if "n \<in> ?N" for n
      using wf that by (auto simp: graph_wf_def)
    moreover have "steps_to ?next = (depends ?g)\<inverse>"
      using wf by (auto simp: steps_to_def depends_def graph_wf_def)
    moreover have "card ?N \<le> Suc (length (g_names ?g))"
      by (rule le_SucI [OF card_length])
    ultimately have "distinct (walk (Suc (length (g_names ?g))) m (- 1) ?next) \<and>
        set (walk (Suc (length (g_names ?g))) m (- 1) ?next) = {d. (m, d) \<in> ((depends ?g)\<inverse>)\<^sup>+} - {m}"
      using walk_unbounded [of ?N ?next m "Suc (length (g_names ?g))" "- 1"] True by simp
    with True show ?thesis
      by (simp add: transitive_dependencies_def graph_known_def trancl_converse)
  next
    case False
    then have "\<not> graph_known ?g m" using wf by (auto simp: graph_known_def graph_wf_def)
    with False names show ?thesis by (simp add: transitive_dependencies_def)
  qed
qed

section \<open>The order of the releasables\<close>

lemma position_from_nth:
  "distinct order \<Longrightarrow> n < length order \<Longrightarrow> position_from i order acc (order ! n) = i + int n"
proof (induction i order acc arbitrary: n rule: position_from.induct)
  case (2 i m ms acc)
  have other: "position_from j xs f x = f x" if "x \<notin> set xs" for j xs f x
    using that by (induction j xs f rule: position_from.induct) auto
  show ?case
  proof (cases n)
    case 0
    with 2 other [of m ms] show ?thesis by simp
  next
    case (Suc k)
    with "2.IH" [of k] "2.prems" show ?thesis by (simp del: fun_upd_apply)
  qed
qed simp

lemma order_position_nth: "distinct order \<Longrightarrow> n < length order \<Longrightarrow> order_position order (order ! n) = int n"
  by (simp add: order_position_def position_from_nth)

lemma deps_first_position:
  assumes "deps_first g order" "distinct order" "(d, n) \<in> depends g" "n \<in> set order"
  shows "order_position order d < order_position order n"
proof -
  from assms(4) obtain i where i: "i < length order" "order ! i = n" by (auto simp: in_set_conv_nth)
  with assms(1,3) have "d \<in> set (take i order)" by (auto simp: deps_first_def)
  then obtain j where "j < i" "order ! j = d" using i(1) by (auto simp: in_set_conv_nth)
  with i order_position_nth [OF assms(2), of i] order_position_nth [OF assms(2), of j] show ?thesis by simp
qed

lemma latest_position_max:
  "latest_position w order name = Max (insert (-1) ((\<lambda>m. order_position order (m_name m)) ` set (members_of w name)))"
proof -
  have "foldl (\<lambda>l m. let p = f m in if p > l then p else l) acc ms = Max (insert acc (f ` set ms))"
    for f :: "member \<Rightarrow> int" and acc ms
  proof (induction ms arbitrary: acc)
    case (Cons m ms)
    have "(let p = f m in if p > acc then p else acc) = max acc (f m)" by (simp add: Let_def max_def)
    with Cons [of "max acc (f m)"] show ?case
      by (cases "ms = []") (simp_all add: max.assoc)
  qed simp
  then show ?thesis by (simp add: latest_position_def)
qed

lemma order_of_members:
  assumes "check_declarations w = []" and "topological_order (new_graph w M) = Inr order"
  shows "deps_first (new_graph w M) order" and "distinct order"
    and "c \<in> set (members_of w x) \<Longrightarrow> m_name c \<in> set order"
proof -
  have m: "mset order = mset (map m_name (d_members w))" and d: "deps_first (new_graph w M) order"
    using topological_order_spec [OF new_graph_wf(1) [OF assms(1)], of M] assms(2) new_graph_wf(2) [OF assms(1), of M]
    by simp_all
  show "deps_first (new_graph w M) order" by (rule d)
  have "distinct (map m_name (d_members w))"
    using new_graph_wf [OF assms(1), of M] by (simp add: graph_wf_def)
  then show "distinct order" using m by (metis mset_eq_imp_distinct_iff)
  have "m_name c \<in> set (map m_name (d_members w))" if "c \<in> set (members_of w x)"
    using that by (auto simp: members_of_def split: if_splits)
  then show "c \<in> set (members_of w x) \<Longrightarrow> m_name c \<in> set order" by (metis m set_mset_mset)
qed

lemma dependency_position:
  assumes "deps_first g order" and "distinct order" and "(b, a) \<in> (depends g)\<^sup>+" and "a \<in> set order"
  shows "order_position order b < order_position order a"
proof -
  from assms(4) obtain k where k: "k < length order" "order ! k = a" by (auto simp: in_set_conv_nth)
  from deps_first_trancl [OF assms(1,3) k] obtain l where "l < k" "order ! l = b"
    using k(1) by (auto simp: in_set_conv_nth)
  then show ?thesis using k order_position_nth [OF assms(2), of k] order_position_nth [OF assms(2), of l] by simp
qed

lemma latest_position_less:
  assumes "members_of w a \<noteq> []"
    and "\<And>c. c \<in> set (members_of w a) \<Longrightarrow> 0 \<le> order_position order (m_name c)"
    and "\<And>b'. b' \<in> set (members_of w b) \<Longrightarrow>
      \<exists>a' \<in> set (members_of w a). order_position order (m_name b') < order_position order (m_name a')"
  shows "latest_position w order b < latest_position w order a"
  unfolding latest_position_max
proof (subst Max_less_iff)
  let ?f = "\<lambda>m. order_position order (m_name m)"
  show "\<forall>x \<in> insert (-1) (?f ` set (members_of w b)). x < Max (insert (-1) (?f ` set (members_of w a)))"
  proof
    fix x assume x: "x \<in> insert (-1) (?f ` set (members_of w b))"
    have "\<exists>a' \<in> set (members_of w a). x < ?f a'"
    proof (cases "x = -1")
      case True
      from assms(1) obtain a' where "a' \<in> set (members_of w a)" by (cases "members_of w a") auto
      with assms(2) [OF this] True show ?thesis by force
    next
      case False
      with x assms(3) show ?thesis by auto
    qed
    then show "x < Max (insert (-1) (?f ` set (members_of w a)))"
      by (meson List.finite_set Max_ge finite_imageI finite_insert imageI insertI2 less_le_trans)
  qed
qed simp_all

lemma order_releasables_before:
  assumes "latest_position w order b < latest_position w order a" and "out = order_releasables w order names"
    and "i < length out" "out ! i = a" "j < length out" "out ! j = b"
  shows "j < i"
proof (rule ccontr)
  define lt where "lt = (\<lambda>a b. let la = latest_position w order a; lb = latest_position w order b
      in if la \<noteq> lb then la < lb else a < (b :: string))"
  have ba: "lt b a" using assms(1) by (simp add: lt_def Let_def)
  have srt: "sorted_wrt (\<lambda>a b. \<not> lt b a) out"
    unfolding assms(2) order_releasables_def lt_def [symmetric]
    by (rule sorted_sort_by) (auto simp: lt_def Let_def split: if_splits)
  assume "\<not> j < i"
  moreover have "i \<noteq> j" using assms(1,4,6) by auto
  ultimately have "i < j" by simp
  with srt assms(3-6) have "\<not> lt b a" by (auto simp: sorted_wrt_iff_nth_less)
  with ba show False by contradiction
qed

text \<open>
  Where the order of the releasables follows their dependencies: a releasable each of whose
  members some member of another depends on, directly or not, is released before that other. So
  it is for releasables of one member each.
\<close>

theorem releasable_order_follows:
  assumes "check_declarations w = []" and "releasable_order w M names = Inr out"
    and "members_of w a \<noteq> []"
    and "\<forall>b' \<in> set (members_of w b). \<exists>a' \<in> set (members_of w a).
           (m_name b', m_name a') \<in> (depends (new_graph w M))\<^sup>+"
    and "i < length out" "out ! i = a" "j < length out" "out ! j = b"
  shows "mset out = mset names \<and> j < i"
proof -
  from assms(2) obtain order where o: "topological_order (new_graph w M) = Inr order"
    and out: "out = order_releasables w order names"
    by (auto simp: releasable_order_def member_order_def rbind_eq_Inr Let_def split: sum.splits if_splits)
  note om = order_of_members [OF assms(1) o]
  have "latest_position w order b < latest_position w order a"
  proof (rule latest_position_less [OF assms(3)])
    show "0 \<le> order_position order (m_name c)" if "c \<in> set (members_of w a)" for c
      using om(3) [OF that] order_position_nth [OF om(2)] by (metis in_set_conv_nth of_nat_0_le_iff)
    show "\<exists>a' \<in> set (members_of w a). order_position order (m_name b') < order_position order (m_name a')"
      if "b' \<in> set (members_of w b)" for b'
      using assms(4) that dependency_position [OF om(1,2)] om(3) by blast
  qed
  from order_releasables_before [OF this out assms(5-8)] show ?thesis
    by (simp add: out order_releasables_def)
qed

section \<open>A releasable ordered before one it depends on\<close>

definition split_workspace :: releasables where
  "split_workspace =
     sample_workspace\<lparr>d_members :=
       [sample_member ''.'' ''root'' ''app'' [''lib''], sample_member ''lib'' ''lib'' ''lib'' [],
        sample_member ''zeta'' ''zeta'' ''lib'' []]\<rparr>"

definition no_manifests :: "string manifests" where
  "no_manifests = \<lparr>pyproject_at = (\<lambda>_. NoManifest), package_at = (\<lambda>_. NoManifest)\<rparr>"

lemma split_workspace_accepted: "check_declarations split_workspace = []"
  by code_simp

text \<open>
  C13. The order of the releasables does not always follow their dependencies: a releasable can
  be released before one whose member it depends on, when that other has a member no one waits
  for later in the order.
\<close>

theorem releasable_order_diverges:
  "releasable_order split_workspace no_manifests [''app'', ''lib''] = Inr [''app'', ''lib''] \<and>
   (''lib'', ''root'') \<in> depends (new_graph split_workspace no_manifests) \<and>
   ''root'' \<in> m_name ` set (members_of split_workspace ''app'') \<and>
   ''lib'' \<in> m_name ` set (members_of split_workspace ''lib'')"
proof (intro conjI)
  show "releasable_order split_workspace no_manifests [''app'', ''lib''] = Inr [''app'', ''lib'']"
    by code_simp
  have "''root'' \<in> set (g_names (new_graph split_workspace no_manifests))"
    "''lib'' \<in> set (map dp_name (g_deps (new_graph split_workspace no_manifests) ''root''))"
    by code_simp+
  then show "(''lib'', ''root'') \<in> depends (new_graph split_workspace no_manifests)"
    by (simp add: depends_def)
  have "''root'' \<in> set (map m_name (members_of split_workspace ''app''))"
    "''lib'' \<in> set (map m_name (members_of split_workspace ''lib''))"
    by code_simp+
  then show "''root'' \<in> m_name ` set (members_of split_workspace ''app'')"
    "''lib'' \<in> m_name ` set (members_of split_workspace ''lib'')"
    by simp_all
qed

theorem member_order_topological_witness:
  "\<exists>order. member_order sample_workspace no_manifests = Inr (order, new_graph sample_workspace no_manifests) \<and>
     acyclic (depends (new_graph sample_workspace no_manifests))"
proof -
  have e: "g_scan_errors (new_graph sample_workspace no_manifests) = []" by code_simp
  have "topological_order (new_graph sample_workspace no_manifests) = Inr [''lib'', ''root'']" by code_simp
  then have "member_order sample_workspace no_manifests =
      Inr ([''lib'', ''root''], new_graph sample_workspace no_manifests)"
    using e by (simp add: member_order_def Let_def)
  with member_order_topological [OF sample_workspace_accepted e] show ?thesis by simp
qed

theorem transitive_dependencies_closure_witness:
  "transitive_dependencies (new_graph sample_workspace no_manifests) ''root'' (-1) = Inr [''lib''] \<and>
   {d. (d, ''root'') \<in> (depends (new_graph sample_workspace no_manifests))\<^sup>+} - {''root''} = {''lib''}"
proof -
  have t: "transitive_dependencies (new_graph sample_workspace no_manifests) ''root'' (-1) = Inr [''lib'']"
    by code_simp
  with transitive_dependencies_closure [OF sample_workspace_accepted, where M = no_manifests and m = "''root''"]
  show ?thesis by simp
qed

theorem releasable_order_follows_witness:
  "mset [''lib'', ''app''] = mset [''app'', ''lib'']"
proof -
  have o: "releasable_order sample_workspace no_manifests [''app'', ''lib''] = Inr [''lib'', ''app'']"
    by code_simp
  have ma: "members_of sample_workspace ''app'' = [sample_member ''.'' ''root'' ''app'' [''lib'']]"
    "members_of sample_workspace ''lib'' = [sample_member ''lib'' ''lib'' ''lib'' []]"
    by code_simp+
  have "''root'' \<in> set (g_names (new_graph sample_workspace no_manifests))"
    "''lib'' \<in> set (map dp_name (g_deps (new_graph sample_workspace no_manifests) ''root''))"
    by code_simp+
  then have d: "(''lib'', ''root'') \<in> (depends (new_graph sample_workspace no_manifests))\<^sup>+"
    by (auto simp: depends_def)
  have "mset [''lib'', ''app''] = mset [''app'', ''lib''] \<and> (0 :: nat) < 1"
    by (rule releasable_order_follows [OF sample_workspace_accepted o, of "''app''" "''lib''"])
      (use d in \<open>simp_all add: ma sample_member_def\<close>)
  then show ?thesis by (rule conjunct1)
qed

end
