(* ===== verification/Disk.thy ===== *)
theory Disk
  imports Paths Archive
begin

text \<open>
  The repository's files as the commands see them, and the writers that replace one file
  atomically: internal/declarations/write.go and owned.go, the writeFile of
  internal/changelog/files.go, of internal/releaserecord/files.go and of
  internal/runstate/runstate.go. Paths are relative to the repository root. The file system is
  the standard library's and the effects handle's: a list of nodes, with a script of faults that
  makes any effect fail, so that a statement about every disk is a statement about every point a
  command can stop at.
\<close>

section \<open>The disk\<close>

datatype node = DirNode | FileNode string nat

record 'e disk =
  dk_root :: string
  dk_nodes :: "(string \<times> node) list"
  dk_faults :: "'e option list"
  dk_unreadable :: "string \<Rightarrow> 'e option"
  dk_unseen :: "string \<Rightarrow> 'e option"
  dk_owner :: "string \<Rightarrow> ('e, string) result"

datatype 'e io_error =
    IoFault 'e
  | IoDenied string
  | IoMissing string
  | IoNotFile string
  | IoNotDir string
  | IoNotEmpty string

definition node_at :: "'e disk \<Rightarrow> string \<Rightarrow> node option" where
  "node_at d = map_of (dk_nodes d)"

definition file_at :: "'e disk \<Rightarrow> string \<Rightarrow> (string \<times> nat) option" where
  "file_at d p = (case node_at d p of Some (FileNode text mode) \<Rightarrow> Some (text, mode) | _ \<Rightarrow> None)"

definition drop_node :: "string \<Rightarrow> 'e disk \<Rightarrow> 'e disk" where
  "drop_node p d = d\<lparr>dk_nodes := filter (\<lambda>(q, _). q \<noteq> p) (dk_nodes d)\<rparr>"

definition put_node :: "string \<Rightarrow> node \<Rightarrow> 'e disk \<Rightarrow> 'e disk" where
  "put_node p n d = d\<lparr>dk_nodes := (p, n) # filter (\<lambda>(q, _). q \<noteq> p) (dk_nodes d)\<rparr>"

text \<open>The directories above a path, outermost first, and the children of a directory.\<close>

definition parent_dir :: "string \<Rightarrow> string" where
  "parent_dir p = join ''/'' (butlast (split_on CHR ''/'' p))"

definition dir_chain :: "string \<Rightarrow> string list" where
  "dir_chain p = map (\<lambda>k. join ''/'' (take (Suc k) (split_on CHR ''/'' p))) [0..<length (split_on CHR ''/'' p)]"

definition child_name :: "string \<Rightarrow> string \<Rightarrow> string option" where
  "child_name dir p =
     (case cut_prefix p (dir @ ''/'') of
        Some n \<Rightarrow> if n \<noteq> [] \<and> CHR ''/'' \<notin> set n then Some n else None
      | None \<Rightarrow> None)"

definition children :: "'e disk \<Rightarrow> string \<Rightarrow> (string \<times> bool) list" where
  "children d dir =
     sort_by (\<lambda>a b. fst a < fst b)
       (List.map_filter (\<lambda>(p, n). map_option (\<lambda>c. (c, n = DirNode)) (child_name dir p)) (dk_nodes d))"

text \<open>Effects take the next entry of the script: a fault stops them before they do anything.\<close>

definition perform :: "('e disk \<Rightarrow> ('e io_error, 'e disk) result) \<Rightarrow> ('e disk, 'e io_error, unit) act" where
  "perform f d =
     (let next = (case dk_faults d of [] \<Rightarrow> None | x # _ \<Rightarrow> x); d = d\<lparr>dk_faults := tl (dk_faults d)\<rparr>
      in case next of
           Some e \<Rightarrow> (Inl (IoFault e), d)
         | None \<Rightarrow> (case f d of Inl e \<Rightarrow> (Inl e, d) | Inr d' \<Rightarrow> (Inr (), d')))"

definition dir_step :: "'e disk \<Rightarrow> string \<Rightarrow> ('e io_error, 'e disk) result" where
  "dir_step d a =
     (case node_at d a of
        None \<Rightarrow> Inr (put_node a DirNode d)
      | Some DirNode \<Rightarrow> Inr d
      | Some (FileNode _ _) \<Rightarrow> Inl (IoNotDir a))"

definition make_dir :: "string \<Rightarrow> 'e disk \<Rightarrow> ('e io_error, 'e disk) result" where
  "make_dir p d = rfold dir_step d (filter ((\<noteq>) []) (dir_chain p))"

definition owner_writes :: "nat \<Rightarrow> bool" where
  "owner_writes mode \<longleftrightarrow> (mode div 128) mod 2 = 1"

definition put_file :: "string \<Rightarrow> string \<Rightarrow> nat \<Rightarrow> 'e disk \<Rightarrow> ('e io_error, 'e disk) result" where
  "put_file p text mode d =
     rguard (parent_dir p \<noteq> [] \<and> node_at d (parent_dir p) \<noteq> Some DirNode) (IoMissing (parent_dir p))
       (case node_at d p of
          Some DirNode \<Rightarrow> Inl (IoNotFile p)
        | Some (FileNode _ old) \<Rightarrow>
            if owner_writes old then Inr (put_node p (FileNode text mode) d) else Inl (IoDenied p)
        | None \<Rightarrow> Inr (put_node p (FileNode text mode) d))"

definition move_file :: "string \<Rightarrow> string \<Rightarrow> 'e disk \<Rightarrow> ('e io_error, 'e disk) result" where
  "move_file a b d =
     (case node_at d a of
        Some (FileNode text mode) \<Rightarrow>
          if node_at d b = Some DirNode then Inl (IoNotFile b)
          else Inr (put_node b (FileNode text mode) (drop_node a d))
      | Some DirNode \<Rightarrow> Inl (IoNotFile a)
      | None \<Rightarrow> Inl (IoMissing a))"

definition remove_node :: "string \<Rightarrow> 'e disk \<Rightarrow> ('e io_error, 'e disk) result" where
  "remove_node p d =
     (case node_at d p of
        None \<Rightarrow> Inl (IoMissing p)
      | Some (FileNode _ _) \<Rightarrow> Inr (drop_node p d)
      | Some DirNode \<Rightarrow> if children d p = [] then Inr (drop_node p d) else Inl (IoNotEmpty p))"

abbreviation "eff_mkdir p \<equiv> perform (make_dir p)"
abbreviation "eff_write p text mode \<equiv> perform (put_file p text mode)"
abbreviation "eff_rename a b \<equiv> perform (move_file a b)"
abbreviation "eff_remove p \<equiv> perform (remove_node p)"

text \<open>Reading a file, asking for a path, its permission bits, and listing a directory.\<close>

definition read_bytes :: "string \<Rightarrow> 'e disk \<Rightarrow> ('e io_error, string option) result" where
  "read_bytes p d =
     (case dk_unreadable d p of
        Some e \<Rightarrow> Inl (IoFault e)
      | None \<Rightarrow>
          (case node_at d p of
             None \<Rightarrow> Inr None
           | Some DirNode \<Rightarrow> Inl (IoNotFile p)
           | Some (FileNode text _) \<Rightarrow> Inr (Some text)))"

definition path_exists :: "string \<Rightarrow> 'e disk \<Rightarrow> ('e io_error, bool) result" where
  "path_exists p d =
     (case dk_unseen d p of Some e \<Rightarrow> Inl (IoFault e) | None \<Rightarrow> Inr (node_at d p \<noteq> None))"

definition dir_mode :: nat where "dir_mode = 493"

definition path_mode :: "string \<Rightarrow> 'e disk \<Rightarrow> ('e io_error, nat option) result" where
  "path_mode p d =
     (case dk_unseen d p of
        Some e \<Rightarrow> Inl (IoFault e)
      | None \<Rightarrow> Inr (map_option (\<lambda>n. case n of DirNode \<Rightarrow> dir_mode | FileNode _ m \<Rightarrow> m) (node_at d p)))"

definition list_dir :: "string \<Rightarrow> 'e disk \<Rightarrow> ('e io_error, (string \<times> bool) list option) result" where
  "list_dir dir d =
     (case dk_unreadable d dir of
        Some e \<Rightarrow> Inl (IoFault e)
      | None \<Rightarrow>
          (case node_at d dir of
             None \<Rightarrow> Inr None
           | Some (FileNode _ _) \<Rightarrow> Inl (IoNotDir dir)
           | Some DirNode \<Rightarrow> Inr (Some (children d dir))))"

section \<open>The writers\<close>

datatype 'e disk_error =
    RootRelative string
  | Reading string "'e io_error"
  | Creating string "'e io_error"
  | Writing string "'e io_error"
  | Removing string "'e io_error"
  | Listing string "'e io_error"
  | ManifestRefused string 'e
  | OtherOwner string string

text \<open>0o600, 0o644 and 0o444.\<close>

definition private_mode :: nat where "private_mode = 384"
definition default_mode :: nat where "default_mode = 420"
definition readonly_mode :: nat where "readonly_mode = 292"

lemmas mode_defs = private_mode_def default_mode_def readonly_mode_def

definition record_owner :: string where "record_owner = ''rlsbl''"

definition manifest_path :: "string \<Rightarrow> string" where
  "manifest_path dir = dir @ ''/manifest.toml''"

definition manifest_text :: string where
  "manifest_text = ''owner = '' @ [CHR 0x22] @ record_owner @ [CHR 0x22, CHR 0x0A]"

definition read_record :: "string \<Rightarrow> 'e disk \<Rightarrow> ('e disk_error, string option) result" where
  "read_record rel d = with_error (Reading rel) (read_bytes rel d)"

definition ensure_manifest :: "string \<Rightarrow> ('e disk, 'e disk_error, unit) act" where
  "ensure_manifest dir =
     (let rel = manifest_path dir
      in abind (aread (read_record rel)) (\<lambda>found.
           case found of
             Some data \<Rightarrow>
               abind (aread (\<lambda>d. with_error (ManifestRefused rel) (dk_owner d data))) (\<lambda>owner.
               aguard (owner \<noteq> record_owner) (OtherOwner rel owner) (aret ()))
           | None \<Rightarrow>
               abind (awrap (Creating dir) (eff_mkdir dir)) (\<lambda>_.
               awrap (Writing rel) (eff_write rel manifest_text default_mode))))"

definition require_absolute_root :: "('e disk, 'e disk_error, unit) act" where
  "require_absolute_root =
     aread (\<lambda>d. if has_prefix (dk_root d) ''/'' then Inr () else Inl (RootRelative (dk_root d)))"

definition temporary_of :: "string \<Rightarrow> string" where
  "temporary_of rel = rel @ ''.tmp''"

definition write_through :: "string \<Rightarrow> string \<Rightarrow> nat \<Rightarrow> ('e disk, 'e disk_error, unit) act" where
  "write_through rel text mode =
     abind (awrap (Writing rel) (eff_write (temporary_of rel) text mode)) (\<lambda>_.
     awrap (Writing rel) (eff_rename (temporary_of rel) rel))"

definition clear_leftover :: "string \<Rightarrow> ('e disk, 'e disk_error, unit) act" where
  "clear_leftover rel =
     abind (aread (\<lambda>d. with_error (Reading (temporary_of rel)) (path_exists (temporary_of rel) d))) (\<lambda>leftover.
     if leftover then awrap (Removing (temporary_of rel)) (eff_remove (temporary_of rel)) else aret ())"

text \<open>internal/declarations: a record inside its owned directory.\<close>

definition write_record :: "string \<Rightarrow> string \<Rightarrow> string \<Rightarrow> ('e disk, 'e disk_error, unit) act" where
  "write_record dir rel text =
     abind require_absolute_root (\<lambda>_.
     abind (ensure_manifest dir) (\<lambda>_.
     write_through rel text default_mode))"

text \<open>internal/releaserecord: an archive, and every other release document.\<close>

definition write_release_file :: "string \<Rightarrow> string \<Rightarrow> nat \<Rightarrow> ('e disk, 'e disk_error, unit) act" where
  "write_release_file rel text mode =
     abind require_absolute_root (\<lambda>_.
     abind (ensure_manifest (top_directory rel)) (\<lambda>_.
     abind (awrap (Creating rel) (eff_mkdir (parent_dir rel))) (\<lambda>_.
     abind (clear_leftover rel) (\<lambda>_.
     write_through rel text mode))))"

text \<open>internal/changelog: a changelog file or a generated CHANGELOG.md.\<close>

definition write_changelog_file :: "string \<Rightarrow> string \<Rightarrow> nat \<Rightarrow> ('e disk, 'e disk_error, unit) act" where
  "write_changelog_file rel text mode =
     abind require_absolute_root (\<lambda>_.
     abind (if has_prefix rel (metadata_dir @ ''/'') then ensure_manifest (top_directory rel) else aret ()) (\<lambda>_.
     abind (awrap (Creating rel) (eff_mkdir (parent_dir rel))) (\<lambda>_.
     abind (clear_leftover rel) (\<lambda>_.
     write_through rel text mode))))"

text \<open>internal/runstate: run state, in a directory that ignores itself.\<close>

definition gitignore_path :: string where
  "gitignore_path = release_state_dir @ ''/.gitignore''"

definition gitignore_content :: string where
  "gitignore_content = ''*'' @ [CHR 0x0A] @ ''!.gitignore'' @ [CHR 0x0A]"

definition ensure_state_dir :: "('e disk, 'e disk_error, unit) act" where
  "ensure_state_dir =
     abind (aread (\<lambda>d. with_error (Reading gitignore_path) (path_exists gitignore_path d))) (\<lambda>found.
     if found then aret ()
     else abind (awrap (Creating release_state_dir) (eff_mkdir release_state_dir)) (\<lambda>_.
          awrap (Writing gitignore_path) (eff_write gitignore_path gitignore_content default_mode)))"

definition write_state_file :: "string \<Rightarrow> string \<Rightarrow> ('e disk, 'e disk_error, unit) act" where
  "write_state_file rel text =
     abind require_absolute_root (\<lambda>_.
     abind ensure_state_dir (\<lambda>_.
     abind (awrap (Creating rel) (eff_mkdir (parent_dir rel))) (\<lambda>_.
     write_through rel text private_mode)))"

definition base_name :: "string \<Rightarrow> string" where
  "base_name p = last (split_on CHR ''/'' p)"

definition remove_state_file :: "string \<Rightarrow> ('e disk, 'e disk_error, unit) act" where
  "remove_state_file rel =
     abind (aread (\<lambda>d. with_error (Reading rel) (path_exists rel d))) (\<lambda>found.
     if \<not> found then aret ()
     else abind (awrap (Removing rel) (eff_remove rel)) (\<lambda>_.
          let dir = parent_dir rel
          in if dir = release_state_dir then aret ()
             else abind (aread (\<lambda>d. with_error (Reading dir) (list_dir dir d))) (\<lambda>entries.
                  case entries of
                    None \<Rightarrow> afail (Reading dir (IoMissing dir))
                  | Some entries \<Rightarrow>
                      if entries = [] \<or> map fst entries = [base_name rel]
                      then awrap (Removing dir) (eff_remove dir) else aret ())))"

section \<open>What the effects change\<close>

lemma with_error_simps [simp]:
  "with_error f (Inr x) = Inr x"
  "with_error f (Inl e) = Inl (f e)"
  by (simp_all add: with_error_def)

definition same_world :: "'e disk \<Rightarrow> 'e disk \<Rightarrow> bool" where
  "same_world d t \<longleftrightarrow> dk_root t = dk_root d \<and> dk_unreadable t = dk_unreadable d \<and>
     dk_unseen t = dk_unseen d \<and> dk_owner t = dk_owner d"

text \<open>Only the files of a set may change.\<close>

definition only_files :: "string set \<Rightarrow> 'e disk \<Rightarrow> 'e disk \<Rightarrow> bool" where
  "only_files P d t \<longleftrightarrow> same_world d t \<and> (\<forall>p. p \<notin> P \<longrightarrow> file_at t p = file_at d p)"

text \<open>One file keeps its content or has its new one; beside it only scratch files change.\<close>

definition swaps :: "string set \<Rightarrow> string \<Rightarrow> string \<times> nat \<Rightarrow> 'e disk \<Rightarrow> 'e disk \<Rightarrow> bool" where
  "swaps P p c d t \<longleftrightarrow> only_files (insert p P) d t \<and> file_at t p \<in> {file_at d p, Some c}"

lemma same_world_refl [simp]: "same_world d d"
  by (simp add: same_world_def)

lemma reflp_only_files [simp]: "reflp (only_files P)"
  by (simp add: reflp_def only_files_def)

lemma transp_only_files [simp]: "transp (only_files P)"
  by (auto simp: transp_def only_files_def same_world_def)

lemma only_files_mono: "only_files P d t \<Longrightarrow> P \<subseteq> Q \<Longrightarrow> only_files Q d t"
  by (auto simp: only_files_def)

lemma reflp_swaps [simp]: "reflp (swaps P p c)"
  by (simp add: reflp_def swaps_def only_files_def)

lemma transp_swaps [simp]: "transp (swaps P p c)"
proof (rule transpI)
  fix x y z
  assume "swaps P p c x y" "swaps P p c y z"
  then show "swaps P p c x z"
    using transpD [OF transp_only_files [of "insert p P"], of x y z] by (auto simp: swaps_def)
qed

lemma only_files_swaps: "only_files P d t \<Longrightarrow> p \<notin> P \<Longrightarrow> swaps P p c d t"
  by (auto simp: swaps_def only_files_def)

lemma map_of_filter_key: "map_of (filter (\<lambda>(q, _). q \<noteq> p) ns) r = (if r = p then None else map_of ns r)"
  by (induction ns) auto

lemma node_at_simps [simp]:
  "node_at (put_node p n d) = (node_at d)(p \<mapsto> n)"
  "node_at (drop_node p d) = (node_at d)(p := None)"
  "node_at (d\<lparr>dk_faults := fs\<rparr>) = node_at d"
  by (auto simp: node_at_def put_node_def drop_node_def map_of_filter_key fun_eq_iff)

lemma same_world_nodes [simp]:
  "same_world d (put_node p n t) \<longleftrightarrow> same_world d t"
  "same_world d (drop_node p t) \<longleftrightarrow> same_world d t"
  "same_world d (t\<lparr>dk_faults := fs\<rparr>) \<longleftrightarrow> same_world d t"
  "same_world (d\<lparr>dk_faults := fs\<rparr>) t \<longleftrightarrow> same_world d t"
  by (auto simp: same_world_def put_node_def drop_node_def)

lemma file_at_simps [simp]:
  "file_at (put_node p DirNode d) = (file_at d)(p := None)"
  "file_at (put_node p (FileNode text mode) d) = (file_at d)(p \<mapsto> (text, mode))"
  "file_at (drop_node p d) = (file_at d)(p := None)"
  "file_at (d\<lparr>dk_faults := fs\<rparr>) = file_at d"
  by (auto simp: file_at_def fun_eq_iff)

lemma only_files_faults [simp]: "only_files P (d\<lparr>dk_faults := fs\<rparr>) t \<longleftrightarrow> only_files P d t"
  "only_files P d (t\<lparr>dk_faults := fs\<rparr>) \<longleftrightarrow> only_files P d t"
  by (simp_all add: only_files_def)

lemma acts_perform:
  assumes "\<And>d t. f d = Inr t \<Longrightarrow> only_files P d t"
  shows "acts (only_files P) (perform f)"
  unfolding acts_def
proof
  fix d
  show "only_files P d (snd (perform f d))"
    using assms [of "d\<lparr>dk_faults := tl (dk_faults d)\<rparr>"]
      reflp_only_files [of P, unfolded reflp_def]
    by (auto simp: perform_def Let_def split: option.splits sum.splits)
qed

lemma perform_Inr:
  "perform f d = (Inr u, t) \<Longrightarrow> f (d\<lparr>dk_faults := tl (dk_faults d)\<rparr>) = Inr t"
  by (auto simp: perform_def Let_def split: option.splits sum.splits)

lemma put_dir_files: "node_at d p = None \<Longrightarrow> only_files {} d (put_node p DirNode d)"
  by (auto simp: only_files_def file_at_def)

lemma dir_step_files: "dir_step d a = Inr t \<Longrightarrow> only_files {} d t"
  using put_dir_files [of d a] reflp_only_files [of "{}", unfolded reflp_def]
  by (auto simp: dir_step_def split: option.splits node.splits)

lemma make_dir_files:
  assumes "make_dir p d = Inr t"
  shows "only_files {} d t"
proof (rule rfold_invariant [OF assms [unfolded make_dir_def], where P = "only_files {} d"])
  show "only_files {} d d" by (simp add: only_files_def)
  show "only_files {} d s'" if "only_files {} d s" "dir_step s a = Inr s'" for s a s'
    using transpD [OF transp_only_files that(1) dir_step_files [OF that(2)]] .
qed

lemma put_file_files: "put_file p text mode d = Inr t \<Longrightarrow> only_files {p} d t \<and> file_at t p = Some (text, mode)"
  by (auto simp: put_file_def only_files_def rguard_eq_Inr split: option.splits node.splits if_splits)

lemma move_file_files:
  assumes "move_file a b d = Inr t" and "a \<noteq> b"
  shows "only_files {a, b} d t \<and> file_at t b = file_at d a \<and> file_at t b \<noteq> None"
proof -
  from assms(1) obtain tx md where n: "node_at d a = Some (FileNode tx md)"
    and t: "t = put_node b (FileNode tx md) (drop_node a d)"
    by (auto simp: move_file_def split: option.splits node.splits if_splits)
  then show ?thesis using assms(2) by (auto simp: only_files_def file_at_def)
qed

lemma remove_node_files: "remove_node p d = Inr t \<Longrightarrow> only_files {p} d t \<and> file_at t p = None"
  by (auto simp: remove_node_def only_files_def split: option.splits node.splits if_splits)

lemma acts_eff_mkdir [acts_intros]: "acts (only_files P) (eff_mkdir p)"
  by (rule acts_perform) (rule only_files_mono [OF make_dir_files], assumption, simp)

lemma acts_eff_write [acts_intros]: "p \<in> P \<Longrightarrow> acts (only_files P) (eff_write p text mode)"
  by (rule acts_perform) (rule only_files_mono [OF conjunct1 [OF put_file_files]], assumption, simp)

lemma acts_eff_remove [acts_intros]: "p \<in> P \<Longrightarrow> acts (only_files P) (eff_remove p)"
  by (rule acts_perform) (rule only_files_mono [OF conjunct1 [OF remove_node_files]], assumption, simp)

lemmas acts_steps = acts_intros acts_abind acts_aguard acts_awrap acts_aeach
  reflp_only_files transp_only_files

text \<open>The helpers of the writers touch nothing but the manifest, or the leftover.\<close>

lemma acts_require_root [acts_intros]: "reflp R \<Longrightarrow> acts R require_absolute_root"
  by (simp add: require_absolute_root_def acts_aread)

lemma acts_ensure_manifest [acts_intros]:
  "manifest_path dir \<in> P \<Longrightarrow> acts (only_files P) (ensure_manifest dir)"
  unfolding ensure_manifest_def Let_def by (auto intro!: acts_steps split: option.split)

lemma acts_clear_leftover [acts_intros]:
  "temporary_of rel \<in> P \<Longrightarrow> acts (only_files P) (clear_leftover rel)"
  unfolding clear_leftover_def by (auto intro!: acts_steps)

lemma acts_ensure_state_dir [acts_intros]:
  "gitignore_path \<in> P \<Longrightarrow> acts (only_files P) ensure_state_dir"
  unfolding ensure_state_dir_def by (auto intro!: acts_steps)

lemma temporary_of_neq [simp]: "temporary_of rel \<noteq> rel" "rel \<noteq> temporary_of rel"
  by (simp_all add: temporary_of_def)

lemma write_through_done:
  assumes "write_through rel text mode d = (Inr (), t)"
  shows "file_at t rel = Some (text, mode)"
proof -
  from assms obtain s where w: "eff_write (temporary_of rel) text mode d = (Inr (), s)"
    and r: "eff_rename (temporary_of rel) rel s = (Inr (), t)"
    by (auto simp: write_through_def act_Inr)
  from put_file_files [OF perform_Inr [OF w]] move_file_files [OF perform_Inr [OF r]]
  show ?thesis by simp
qed

lemma write_through_swaps:
  assumes "temporary_of rel \<in> P" and "rel \<notin> P"
  shows "acts (swaps P rel (text, mode)) (write_through rel text mode)"
  unfolding acts_def
proof
  fix d
  obtain r s where w: "eff_write (temporary_of rel) text mode d = (r, s)" by force
  have ds: "only_files P d s"
    using actsD [OF acts_eff_write [OF assms(1)] w] .
  show "swaps P rel (text, mode) d (snd (write_through rel text mode d))"
  proof (cases r)
    case (Inl e)
    then show ?thesis
      using only_files_swaps [OF ds assms(2)] by (simp add: write_through_def abind_def awrap_def w)
  next
    case (Inr u)
    have tmp: "file_at s (temporary_of rel) = Some (text, mode)"
      using put_file_files [OF perform_Inr] w Inr by fastforce
    obtain r' t where m: "eff_rename (temporary_of rel) rel s = (r', t)" by force
    have "only_files (insert rel P) s t \<and> file_at t rel \<in> {file_at s rel, Some (text, mode)}"
    proof (cases "\<exists>v. r' = Inr v")
      case True
      with m have "move_file (temporary_of rel) rel (s\<lparr>dk_faults := tl (dk_faults s)\<rparr>) = Inr t"
        by (auto dest: perform_Inr)
      from move_file_files [OF this] tmp assms(1) show ?thesis
        by (auto intro: only_files_mono)
    next
      case False
      with m have "t = s\<lparr>dk_faults := tl (dk_faults s)\<rparr>"
        by (auto simp: perform_def Let_def split: option.splits sum.splits)
      then show ?thesis by (simp add: only_files_def)
    qed
    then have "swaps P rel (text, mode) s t" by (simp add: swaps_def)
    with only_files_swaps [OF ds assms(2)] have "swaps P rel (text, mode) d t"
      using transp_swaps by (metis transpD)
    then show ?thesis
      using Inr m w by (cases r') (simp_all add: write_through_def abind_def awrap_def)
  qed
qed

section \<open>Atomic writers\<close>

text \<open>
  What every writer promises: whenever it stops, the file holds what it held or the new
  content, no other file has changed but the writer's scratch files, and a write that reports
  success has written.
\<close>

locale atomic_writer =
  fixes put :: "string \<Rightarrow> 'c \<Rightarrow> ('e disk, 'e disk_error, unit) act"
    and held :: "'c \<Rightarrow> string \<times> nat"
    and scratch :: "string \<Rightarrow> string set"
  assumes swap: "rel \<notin> scratch rel \<Longrightarrow> acts (swaps (scratch rel) rel (held c)) (put rel c)"
    and wrote: "put rel c d = (Inr (), t) \<Longrightarrow> file_at t rel = Some (held c)"
begin

lemma old_or_new:
  "put rel c d = (r, t) \<Longrightarrow> rel \<notin> scratch rel \<Longrightarrow> file_at t rel \<in> {file_at d rel, Some (held c)}"
  using actsD [OF swap] by (auto simp: swaps_def)

lemma others:
  "put rel c d = (r, t) \<Longrightarrow> rel \<notin> scratch rel \<Longrightarrow> q \<noteq> rel \<Longrightarrow> q \<notin> scratch rel \<Longrightarrow>
     file_at t q = file_at d q"
  using actsD [OF swap] by (force simp: swaps_def only_files_def)

lemma world: "put rel c d = (r, t) \<Longrightarrow> rel \<notin> scratch rel \<Longrightarrow> same_world d t"
  using actsD [OF swap] by (auto simp: swaps_def only_files_def)

lemma keeps_all:
  assumes "put rel c d = (r, t)" and "rel \<notin> scratch rel" and "K \<inter> scratch rel = {}"
    and "\<And>q f. q \<in> K \<Longrightarrow> file_at d q = Some f \<Longrightarrow> I q f" and "rel \<in> K \<Longrightarrow> I rel (held c)"
    and "q \<in> K" and "file_at t q = Some f"
  shows "I q f"
proof (cases "q = rel")
  case True
  then have "file_at d rel = Some f \<or> f = held c"
    using old_or_new [OF assms(1,2)] assms(7) by auto
  with True assms(4-6) show ?thesis by blast
next
  case False
  have "q \<notin> scratch rel" using assms(3,6) by blast
  with False others [OF assms(1,2)] assms(4,6,7) show ?thesis by simp
qed

end

lemma acts_mono: "acts R m \<Longrightarrow> (\<And>d t. R d t \<Longrightarrow> S d t) \<Longrightarrow> acts S m"
  by (simp add: acts_def)

lemma acts_only_swaps: "acts (only_files P) m \<Longrightarrow> p \<notin> P \<Longrightarrow> acts (swaps P p c) m"
  unfolding acts_def by (blast intro: only_files_swaps)

lemmas swaps_steps = acts_only_swaps acts_abind write_through_swaps transp_swaps reflp_swaps

definition record_scratch :: "string \<Rightarrow> string set" where
  "record_scratch rel = {temporary_of rel, manifest_path (top_directory rel)}"

interpretation declarations_writer: atomic_writer "write_record dir" "\<lambda>text. (text, default_mode)"
    "\<lambda>rel. {temporary_of rel, manifest_path dir}" for dir
proof
  show "acts (swaps {temporary_of rel, manifest_path dir} rel (c, default_mode)) (write_record dir rel c)"
    if "rel \<notin> {temporary_of rel, manifest_path dir}" for rel c
    unfolding write_record_def using that
    by (intro swaps_steps acts_require_root acts_ensure_manifest) simp_all
  show "file_at t rel = Some (c, default_mode)" if "write_record dir rel c d = (Inr (), t)" for rel c d t
    using that by (auto simp: write_record_def act_Inr dest: write_through_done)
qed

interpretation release_writer: atomic_writer "\<lambda>rel (text, mode). write_release_file rel text mode" id
    record_scratch
proof
  show "acts (swaps (record_scratch rel) rel (id c)) (case c of (text, mode) \<Rightarrow> write_release_file rel text mode)"
    if "rel \<notin> record_scratch rel" for rel c
    unfolding write_release_file_def split_beta using that
    by (cases c, simp only: prod.case id_apply fst_conv snd_conv)
      (intro swaps_steps acts_require_root acts_ensure_manifest acts_awrap acts_eff_mkdir acts_clear_leftover,
       simp_all add: record_scratch_def)
  show "file_at t rel = Some (id c)" if "(case c of (text, mode) \<Rightarrow> write_release_file rel text mode) d = (Inr (), t)"
    for rel c d t
    using that by (cases c) (auto simp: write_release_file_def act_Inr dest: write_through_done)
qed

interpretation changelog_writer: atomic_writer "\<lambda>rel (text, mode). write_changelog_file rel text mode" id
    record_scratch
proof
  show "acts (swaps (record_scratch rel) rel (id c)) (case c of (text, mode) \<Rightarrow> write_changelog_file rel text mode)"
    if "rel \<notin> record_scratch rel" for rel c
  proof -
    have "acts (only_files (record_scratch rel))
        (if has_prefix rel (metadata_dir @ ''/'') then ensure_manifest (top_directory rel) else aret ())"
      by (auto intro!: acts_intros acts_steps simp: record_scratch_def)
    with that show ?thesis
      unfolding write_changelog_file_def
      by (cases c, simp only: prod.case id_apply)
        (intro swaps_steps acts_require_root acts_awrap acts_eff_mkdir acts_clear_leftover,
         simp_all add: record_scratch_def)
  qed
  show "file_at t rel = Some (id c)" if "(case c of (text, mode) \<Rightarrow> write_changelog_file rel text mode) d = (Inr (), t)"
    for rel c d t
    using that by (cases c) (auto simp: write_changelog_file_def act_Inr dest: write_through_done)
qed

interpretation state_writer: atomic_writer write_state_file "\<lambda>text. (text, private_mode)"
    "\<lambda>rel. {temporary_of rel, gitignore_path}"
proof
  show "acts (swaps {temporary_of rel, gitignore_path} rel (c, private_mode)) (write_state_file rel c)"
    if "rel \<notin> {temporary_of rel, gitignore_path}" for rel c
    unfolding write_state_file_def using that
    by (intro swaps_steps acts_require_root acts_ensure_state_dir acts_awrap acts_eff_mkdir) simp_all
  show "file_at t rel = Some (c, private_mode)" if "write_state_file rel c d = (Inr (), t)" for rel c d t
    using that by (auto simp: write_state_file_def act_Inr dest: write_through_done)
qed

section \<open>Where a write can go through\<close>

lemma join_slash_snoc: "ws \<noteq> [] \<Longrightarrow> join sep (ws @ [w]) = join sep ws @ sep @ w"
  by (induction sep ws rule: join.induct) auto

lemma split_on_snoc: "c \<notin> set w \<Longrightarrow> split_on c (s @ c # w) = split_on c s @ [w]"
  by (induction s) (auto simp: split_on_no_sep split: list.splits)

lemma parent_dir_slash [simp]: "CHR ''/'' \<notin> set n \<Longrightarrow> parent_dir (d @ ''/'' @ n) = d"
  by (simp add: parent_dir_def split_on_snoc join_split_on)

lemma split_on_append_last:
  "c \<notin> set w \<Longrightarrow> split_on c (s @ w) = butlast (split_on c s) @ [last (split_on c s) @ w]"
proof (induction s)
  case Nil
  then show ?case by (simp add: split_on_no_sep)
next
  case (Cons x s)
  obtain v vs where "split_on c s = v # vs" by (meson neq_Nil_conv split_on_not_Nil)
  with Cons show ?case by (cases vs) auto
qed

lemma parent_dir_temporary [simp]: "parent_dir (temporary_of p) = parent_dir p"
  by (simp add: parent_dir_def temporary_of_def split_on_append_last)

lemma dir_chain_self: "p \<in> set (dir_chain p)"
proof -
  let ?n = "length (split_on CHR ''/'' p) - 1"
  have "?n < length (split_on CHR ''/'' p)" by simp
  moreover have "join ''/'' (take (Suc ?n) (split_on CHR ''/'' p)) = p"
    by (simp add: join_split_on)
  ultimately show ?thesis
    unfolding dir_chain_def set_map set_upt by (metis (no_types, lifting) atLeastLessThan_iff imageI zero_le)
qed

lemma join_length_take: "length (join sep (take k ws)) \<le> length (join sep ws)"
proof (induction sep ws arbitrary: k rule: join.induct)
  case (3 sep w v ws)
  show ?case
  proof (cases k)
    case (Suc j)
    show ?thesis
    proof (cases j)
      case (Suc i)
      then show ?thesis using \<open>k = Suc j\<close> 3 [of j] by simp
    qed (simp add: \<open>k = Suc j\<close>)
  qed simp
qed (auto simp: take_Cons')

lemma dir_chain_length: "a \<in> set (dir_chain p) \<Longrightarrow> length a \<le> length p"
  using join_length_take [of "''/''" _ "split_on CHR ''/'' p"] by (auto simp: dir_chain_def join_split_on)

lemma parent_dir_length: "length (parent_dir p) \<le> length p"
  using join_length_take [of "''/''" "length (split_on CHR ''/'' p) - 1" "split_on CHR ''/'' p"]
  by (simp add: parent_dir_def butlast_conv_take join_split_on)

lemma temporary_not_above: "temporary_of rel \<notin> set (dir_chain (parent_dir rel))"
  using dir_chain_length [of "temporary_of rel" "parent_dir rel"] parent_dir_length [of rel]
  by (auto simp: temporary_of_def)

lemma dir_step_free:
  assumes "file_at d a = None"
  shows "\<exists>t. dir_step d a = Inr t \<and> (\<forall>q. node_at t q = (if q = a then Some DirNode else node_at d q)) \<and>
    dk_faults t = dk_faults d \<and> same_world d t"
proof (cases "node_at d a")
  case None
  then show ?thesis by (simp add: dir_step_def put_node_def same_world_def node_at_def map_of_filter_key)
next
  case (Some n)
  with assms have "n = DirNode" by (cases n) (auto simp: file_at_def)
  with Some show ?thesis by (auto simp: dir_step_def)
qed

lemma make_dirs_free:
  assumes "\<forall>a \<in> set as. file_at d a = None"
  shows "\<exists>t. rfold dir_step d as = Inr t \<and>
         (\<forall>q. node_at t q = (if q \<in> set as then Some DirNode else node_at d q)) \<and>
         dk_faults t = dk_faults d \<and> same_world d t"
  using assms
proof (induction as arbitrary: d)
  case Nil
  then show ?case by simp
next
  case (Cons a as)
  from dir_step_free [of d a] Cons.prems obtain s where s: "dir_step d a = Inr s"
    "\<And>q. node_at s q = (if q = a then Some DirNode else node_at d q)"
    "dk_faults s = dk_faults d" "same_world d s" by auto
  have "\<forall>b \<in> set as. file_at s b = None"
    using Cons.prems by (auto simp: file_at_def s(2))
  from Cons.IH [OF this] obtain t where t: "rfold dir_step s as = Inr t"
    "\<And>q. node_at t q = (if q \<in> set as then Some DirNode else node_at s q)"
    "dk_faults t = dk_faults s" "same_world s t" by blast
  have "same_world d t" using s(4) t(4) by (simp add: same_world_def)
  then show ?case using s t by (intro exI [of _ t]) auto
qed

lemma make_dir_free:
  assumes "\<forall>a \<in> set (dir_chain p). a \<noteq> [] \<longrightarrow> file_at d a = None"
  shows "\<exists>t. make_dir p d = Inr t \<and>
     (\<forall>q. node_at t q = (if q \<in> set (dir_chain p) \<and> q \<noteq> [] then Some DirNode else node_at d q)) \<and>
     dk_faults t = dk_faults d \<and> same_world d t"
proof -
  have "\<forall>a \<in> set (filter ((\<noteq>) []) (dir_chain p)). file_at d a = None"
    using assms by auto
  from make_dirs_free [OF this] obtain t where "make_dir p d = Inr t"
    "\<forall>q. node_at t q = (if q \<in> set (filter ((\<noteq>) []) (dir_chain p)) then Some DirNode else node_at d q)"
    "dk_faults t = dk_faults d" "same_world d t"
    unfolding make_dir_def by blast
  then show ?thesis by (intro exI [of _ t]) auto
qed

lemma perform_no_faults:
  assumes "dk_faults d = []" and "f d = Inr t"
  shows "perform f d = (Inr (), t)"
proof -
  have "d\<lparr>dk_faults := tl (dk_faults d)\<rparr> = d" using assms(1) by (cases d) simp
  then have "f (d\<lparr>dk_faults := tl (dk_faults d)\<rparr>) = Inr t" using assms(2) by simp
  then show ?thesis by (simp add: perform_def Let_def assms(1))
qed

text \<open>A path whose directories can be made, in a directory rlsbl owns.\<close>

definition way_clear :: "string \<Rightarrow> 'e disk \<Rightarrow> bool" where
  "way_clear rel d \<longleftrightarrow>
     has_prefix (dk_root d) ''/'' \<and> dk_faults d = [] \<and>
     (case read_record (manifest_path (top_directory rel)) d of
        Inr (Some data) \<Rightarrow> dk_owner d data = Inr record_owner
      | _ \<Rightarrow> False) \<and>
     dk_unseen d (temporary_of rel) = None \<and>
     node_at d rel \<noteq> Some DirNode \<and> node_at d (temporary_of rel) \<noteq> Some DirNode \<and>
     rel \<notin> set (dir_chain (parent_dir rel)) \<and>
     (\<forall>a \<in> set (dir_chain (parent_dir rel)). a \<noteq> [] \<longrightarrow> file_at d a = None)"

lemma clear_way_done:
  assumes dirs: "parent_dir rel = [] \<or> node_at d (parent_dir rel) = Some DirNode"
    and none: "dk_faults d = []" and seen: "dk_unseen d (temporary_of rel) = None"
    and rel: "node_at d rel \<noteq> Some DirNode" and tmp: "node_at d (temporary_of rel) \<noteq> Some DirNode"
    and up: "parent_dir rel \<noteq> temporary_of rel"
  shows "\<exists>t. abind (clear_leftover rel) (\<lambda>_. write_through rel text mode) d = (Inr (), t) \<and>
     file_at t rel = Some (text, mode) \<and> node_at t (temporary_of rel) = None"
proof -
  define s where "s = (if node_at d (temporary_of rel) = None then d else drop_node (temporary_of rel) d)"
  have cl: "clear_leftover rel d = (Inr (), s)"
  proof (cases "node_at d (temporary_of rel)")
    case None
    then show ?thesis
      by (simp add: clear_leftover_def abind_def path_exists_def seen s_def)
  next
    case (Some n)
    with tmp obtain tx md where n: "n = FileNode tx md" by (cases n) auto
    have "eff_remove (temporary_of rel) d = (Inr (), s)"
      by (rule perform_no_faults) (auto simp: none remove_node_def Some n s_def)
    with Some show ?thesis
      by (simp add: clear_leftover_def abind_def path_exists_def seen awrap_def)
  qed
  have s: "node_at s (temporary_of rel) = None" "dk_faults s = []" "node_at s rel \<noteq> Some DirNode"
    "parent_dir rel = [] \<or> node_at s (parent_dir rel) = Some DirNode"
    using none rel dirs up by (auto simp: s_def drop_node_def node_at_def map_of_filter_key)
  define w where "w = put_node (temporary_of rel) (FileNode text mode) s"
  have "eff_write (temporary_of rel) text mode s = (Inr (), w)"
    by (rule perform_no_faults) (use s in \<open>auto simp: put_file_def w_def\<close>)
  moreover define t where "t = put_node rel (FileNode text mode) (drop_node (temporary_of rel) w)"
  have mv: "move_file (temporary_of rel) rel w = Inr t"
    using s(3) by (simp add: move_file_def w_def t_def)
  have nw: "dk_faults w = []" using s(2) by (simp add: w_def put_node_def)
  from perform_no_faults [where f = "move_file (temporary_of rel) rel", OF nw mv]
  have "eff_rename (temporary_of rel) rel w = (Inr (), t)" .
  ultimately have "abind (clear_leftover rel) (\<lambda>_. write_through rel text mode) d = (Inr (), t)"
    by (simp add: abind_def cl write_through_def awrap_def)
  then show ?thesis by (auto simp: t_def)
qed

lemma ensure_manifest_owned:
  assumes "read_record (manifest_path dir) d = Inr (Some data)" and "dk_owner d data = Inr record_owner"
  shows "ensure_manifest dir d = (Inr (), d)"
  using assms by (simp add: ensure_manifest_def Let_def abind_def)

lemma write_dirs_done:
  assumes "way_clear rel d"
  shows "\<exists>t. abind (awrap (Creating rel) (eff_mkdir (parent_dir rel))) (\<lambda>_.
      abind (clear_leftover rel) (\<lambda>_. write_through rel tx mode)) d = (Inr (), t) \<and>
     file_at t rel = Some (tx, mode) \<and> node_at t (temporary_of rel) = None"
proof -
  have none: "dk_faults d = []" using assms by (simp add: way_clear_def)
  from assms have "\<forall>a \<in> set (dir_chain (parent_dir rel)). a \<noteq> [] \<longrightarrow> file_at d a = None"
    by (simp add: way_clear_def)
  from make_dir_free [OF this] obtain s where mk: "make_dir (parent_dir rel) d = Inr s"
    and s: "\<And>q. node_at s q = (if q \<in> set (dir_chain (parent_dir rel)) \<and> q \<noteq> [] then Some DirNode else node_at d q)"
    "dk_faults s = []" "same_world d s" using none by auto
  have run: "eff_mkdir (parent_dir rel) d = (Inr (), s)"
    by (rule perform_no_faults [where f = "make_dir (parent_dir rel)", OF none mk])
  have "\<exists>t. abind (clear_leftover rel) (\<lambda>_. write_through rel tx mode) s = (Inr (), t) \<and>
     file_at t rel = Some (tx, mode) \<and> node_at t (temporary_of rel) = None"
  proof (rule clear_way_done)
    show "parent_dir rel = [] \<or> node_at s (parent_dir rel) = Some DirNode"
      using dir_chain_self [of "parent_dir rel"] by (simp add: s(1))
    show "dk_unseen s (temporary_of rel) = None" using assms s(3) by (simp add: way_clear_def same_world_def)
    show "parent_dir rel \<noteq> temporary_of rel" using temporary_not_above dir_chain_self by metis
  qed (use assms temporary_not_above [of rel] in \<open>auto simp: s way_clear_def\<close>)
  then show ?thesis by (simp add: abind_def awrap_def run)
qed

text \<open>
  C15. A write goes through whatever a crashed one left: in a directory rlsbl owns whose
  directories can be made, with no fault, the write of a release document returns, the file
  holds the tx with its mode, and the temporary name is free again, even where a read-only
  leftover held it.
\<close>

theorem write_goes_through:
  assumes "way_clear rel d"
  shows "\<exists>t. write_release_file rel tx mode d = (Inr (), t) \<and> file_at t rel = Some (tx, mode) \<and>
    node_at t (temporary_of rel) = None"
proof -
  from assms have m: "ensure_manifest (top_directory rel) d = (Inr (), d)"
    using ensure_manifest_owned by (auto simp: way_clear_def split: sum.splits option.splits)
  have "has_prefix (dk_root d) ''/''" using assms by (simp add: way_clear_def)
  then have "require_absolute_root d = (Inr (), d)" by (simp add: require_absolute_root_def)
  with m write_dirs_done [OF assms, of tx mode] show ?thesis
    by (simp add: write_release_file_def abind_def)
qed

definition sample_disk :: "string disk" where
  "sample_disk = \<lparr>dk_root = ''/repo'',
     dk_nodes = [(''.strictmetadata/releases/manifest.toml'', FileNode manifest_text default_mode),
       (''.strictmetadata/releases/app/v1.0.0.toml.tmp'', FileNode ''half'' readonly_mode)],
     dk_faults = [], dk_unreadable = (\<lambda>_. None), dk_unseen = (\<lambda>_. None), dk_owner = (\<lambda>_. Inr record_owner)\<rparr>"

lemma sample_way: "way_clear ''.strictmetadata/releases/app/v1.0.0.toml'' sample_disk"
  by code_simp

theorem write_goes_through_witness:
  "file_at (snd (write_release_file ''.strictmetadata/releases/app/v1.0.0.toml'' ''new'' readonly_mode sample_disk))
     ''.strictmetadata/releases/app/v1.0.0.toml'' = Some (''new'', readonly_mode)"
  using write_goes_through [OF sample_way, of "''new''" readonly_mode] by auto

text \<open>
  C14. Every writer is atomic at every point it can stop at: for each of the four writers,
  whatever faults the disk has in store, afterwards the file holds what it held or the new tx
  with its mode, every other file except the writer's own scratch files is as it was, and a
  write that reports success has written.
\<close>

theorem writers_atomic:
  assumes "rel \<noteq> gitignore_path" and "rel \<noteq> manifest_path dir" and "rel \<noteq> manifest_path (top_directory rel)"
    and "w \<in> {(write_record dir rel tx, default_mode), (write_release_file rel tx mode, mode),
      (write_changelog_file rel tx mode, mode), (write_state_file rel tx, private_mode)}"
    and "fst w d = (r, t)"
    and "q \<notin> {rel, temporary_of rel, gitignore_path, manifest_path dir, manifest_path (top_directory rel)}"
  shows "file_at t rel \<in> {file_at d rel, Some (tx, snd w)} \<and>
    (r = Inr () \<longrightarrow> file_at t rel = Some (tx, snd w)) \<and> file_at t q = file_at d q"
proof -
  have s: "rel \<notin> record_scratch rel" "q \<notin> record_scratch rel"
    using assms by (auto simp: record_scratch_def)
  from assms(4) consider "w = (write_record dir rel tx, default_mode)" | "w = (write_release_file rel tx mode, mode)"
    | "w = (write_changelog_file rel tx mode, mode)" | "w = (write_state_file rel tx, private_mode)" by blast
  then show ?thesis
  proof cases
    case 1
    then show ?thesis
      using declarations_writer.old_or_new [of dir rel tx d r t] declarations_writer.others [of dir rel tx d r t q]
        declarations_writer.wrote [of dir rel tx d t] assms by auto
  next
    case 2
    then show ?thesis
      using release_writer.old_or_new [of rel "(tx, mode)" d r t] release_writer.others [of rel "(tx, mode)" d r t q]
        release_writer.wrote [of rel "(tx, mode)" d t] assms s by auto
  next
    case 3
    then show ?thesis
      using changelog_writer.old_or_new [of rel "(tx, mode)" d r t] changelog_writer.others [of rel "(tx, mode)" d r t q]
        changelog_writer.wrote [of rel "(tx, mode)" d t] assms s by auto
  next
    case 4
    then show ?thesis
      using state_writer.old_or_new [of rel tx d r t] state_writer.others [of rel tx d r t q]
        state_writer.wrote [of rel tx d t] assms by auto
  qed
qed

theorem writers_atomic_witness:
  "\<exists>r t. write_release_file ''.strictmetadata/releases/app/v1.0.0.toml'' ''new'' readonly_mode
       (sample_disk\<lparr>dk_faults := [None, None, None, Some ''disk full'']\<rparr>) = (r, t) \<and>
     file_at t ''.strictmetadata/releases/manifest.toml2'' = None"
proof -
  obtain r t where run: "write_release_file ''.strictmetadata/releases/app/v1.0.0.toml'' ''new'' readonly_mode
       (sample_disk\<lparr>dk_faults := [None, None, None, Some ''disk full'']\<rparr>) = (r, t)" by force
  have "file_at t ''.strictmetadata/releases/manifest.toml2'' =
      file_at (sample_disk\<lparr>dk_faults := [None, None, None, Some ''disk full'']\<rparr>) ''.strictmetadata/releases/manifest.toml2''"
    using writers_atomic [where dir = "''x''" and tx = "''new''" and mode = readonly_mode and
        rel = "''.strictmetadata/releases/app/v1.0.0.toml''" and q = "''.strictmetadata/releases/manifest.toml2''" and
        w = "(write_release_file ''.strictmetadata/releases/app/v1.0.0.toml'' ''new'' readonly_mode, readonly_mode)" and
        d = "sample_disk\<lparr>dk_faults := [None, None, None, Some ''disk full'']\<rparr>" and r = r and t = t]
      run by (simp add: gitignore_path_def manifest_path_def top_directory_def temporary_of_def)
  then show ?thesis using run by (auto simp: sample_disk_def file_at_def node_at_def)
qed

end
