(* ===== verification/Changelog_Entry.thy ===== *)
theory Changelog_Entry
  imports Paths Semver
begin

text \<open>
  internal/changelog/entry.go, the entry edits of compose.go and the commit maps of remap.go: a
  changelog line as the program writes and reads it, the check of an entry before it is written,
  the sparse edit, and the rewriting of commit ids. Encoding a string as JSON is modelled
  (encoding/json with HTML escaping off); reading JSON and the generated validator are a record
  of functions.
\<close>

section \<open>JSON strings\<close>

definition byte_in :: "nat \<Rightarrow> nat \<Rightarrow> char \<Rightarrow> bool" where
  "byte_in lo hi c \<longleftrightarrow> lo \<le> of_char c \<and> of_char c \<le> hi"

definition continues :: "char \<Rightarrow> bool" where
  "continues c \<longleftrightarrow> byte_in 128 191 c"

definition leads_two :: "char \<Rightarrow> char \<Rightarrow> bool" where
  "leads_two a b \<longleftrightarrow> byte_in 194 223 a \<and> continues b"

definition leads_three :: "char \<Rightarrow> char \<Rightarrow> bool" where
  "leads_three a b \<longleftrightarrow>
     byte_in 224 224 a \<and> byte_in 160 191 b \<or> byte_in 237 237 a \<and> byte_in 128 159 b \<or>
     (byte_in 225 236 a \<or> byte_in 238 239 a) \<and> continues b"

definition leads_four :: "char \<Rightarrow> char \<Rightarrow> bool" where
  "leads_four a b \<longleftrightarrow>
     byte_in 240 240 a \<and> byte_in 144 191 b \<or> byte_in 244 244 a \<and> byte_in 128 143 b \<or>
     byte_in 241 243 a \<and> continues b"

text \<open>The bytes of the first rune of a text, and 1 where they are no UTF-8 (utf8.DecodeRune).\<close>

definition rune_size :: "string \<Rightarrow> nat" where
  "rune_size s =
     (case s of
        a # b # r \<Rightarrow>
          if leads_two a b then 2
          else (case r of
                  c # q \<Rightarrow>
                    if leads_three a b \<and> continues c then 3
                    else (case q of
                            d # _ \<Rightarrow> if leads_four a b \<and> continues c \<and> continues d then 4 else 1
                          | [] \<Rightarrow> 1)
                | [] \<Rightarrow> 1)
      | _ \<Rightarrow> 1)"

definition hex_digit :: "nat \<Rightarrow> char" where
  "hex_digit n = ''0123456789abcdef'' ! n"

definition backslash :: char where "backslash = CHR 0x5C"
definition quote_char :: char where "quote_char = CHR 0x22"

definition escape_ascii :: "char \<Rightarrow> string" where
  "escape_ascii c =
     (if c = quote_char \<or> c = backslash then [backslash, c]
      else if c = CHR 0x08 then [backslash, CHR ''b'']
      else if c = CHR 0x0C then [backslash, CHR ''f'']
      else if c = CHR 0x0A then [backslash, CHR ''n'']
      else if c = CHR 0x0D then [backslash, CHR ''r'']
      else if c = CHR 0x09 then [backslash, CHR ''t'']
      else if of_char c < (32 :: nat)
        then backslash # ''u00'' @ [hex_digit (of_char c div 16), hex_digit (of_char c mod 16)]
      else [c])"

fun json_chars :: "string \<Rightarrow> string" where
  "json_chars [] = []"
| "json_chars (c # cs) =
     (if of_char c < (128 :: nat) then escape_ascii c @ json_chars cs
      else (let k = rune_size (c # cs); rune = take k (c # cs); rest = drop (k - 1) cs
            in (if k = 1 then backslash # ''ufffd''
                else if rune = [CHR 0xE2, CHR 0x80, CHR 0xA8] then backslash # ''u2028''
                else if rune = [CHR 0xE2, CHR 0x80, CHR 0xA9] then backslash # ''u2029''
                else rune) @ json_chars rest))"

definition json_string :: "string \<Rightarrow> string" where
  "json_string s = quote_char # json_chars s @ [quote_char]"

definition json_strings :: "string list \<Rightarrow> string" where
  "json_strings values = ''['' @ join '','' (map json_string values) @ '']''"

section \<open>Entries\<close>

definition type_feature :: string where "type_feature = ''feature''"
definition type_fix :: string where "type_fix = ''fix''"
definition type_breaking :: string where "type_breaking = ''breaking''"

definition entry_types :: "string list" where
  "entry_types = [type_feature, type_fix, type_breaking]"

definition entry_format_version :: nat where "entry_format_version = 2"

record change =
  ch_id :: string
  ch_commits :: "string list"
  ch_user_facing :: bool
  ch_description :: string
  ch_type :: string
  ch_packages :: "string list option"
  ch_batch_reason :: string

text \<open>A field of a JSON object: its name in quotes, a colon, and its value.\<close>

definition json_field :: "string \<Rightarrow> string \<Rightarrow> string" where
  "json_field name val = quote_char # name @ [quote_char] @ '':'' @ val"

definition json_bool :: "bool \<Rightarrow> string" where
  "json_bool b = (if b then ''true'' else ''false'')"

definition serialize :: "change \<Rightarrow> string" where
  "serialize e =
     (let parts =
        [json_field ''format_version'' (dec_of_nat entry_format_version),
         json_field ''id'' (json_string (ch_id e)),
         json_field ''commits'' (json_strings (ch_commits e)),
         json_field ''user_facing'' (json_bool (ch_user_facing e))]
        @ (if ch_description e \<noteq> [] then [json_field ''description'' (json_string (ch_description e))] else [])
        @ (if ch_type e \<noteq> [] then [json_field ''type'' (json_string (ch_type e))] else [])
        @ (case ch_packages e of Some ps \<Rightarrow> [json_field ''packages'' (json_strings ps)] | None \<Rightarrow> [])
        @ (if ch_batch_reason e \<noteq> [] then [json_field ''batch_reason'' (json_string (ch_batch_reason e))] else [])
      in ''{'' @ join '','' parts @ ''}'')"

datatype line_problem =
    NoFormatVersion nat
  | OtherFormatVersion string nat
  | NotAnObject
  | Diagnostic string string
  | NotDecoded string
  | NotReadBack string

record line_error =
  le_file :: string
  le_line :: nat
  le_problems :: "line_problem list"
  le_format_version :: bool

definition plain_line_error :: "line_problem list \<Rightarrow> line_error" where
  "plain_line_error ps = \<lparr>le_file = [], le_line = 0, le_problems = ps, le_format_version = False\<rparr>"

record raw_change =
  rc_format_version :: int
  rc_id :: string
  rc_commits :: "string list"
  rc_user_facing :: bool
  rc_description :: string
  rc_type :: string
  rc_packages :: "string list option"
  rc_batch_reason :: string

text \<open>
  Reading JSON: the fields of an object with the text of their values (none for a text that is
  no object), the diagnostics of the generated validator (message and code), and the strict
  decoding of the struct.
\<close>

record json_reader =
  jr_fields :: "string \<Rightarrow> (string \<Rightarrow> string option) option"
  jr_diagnostics :: "string \<Rightarrow> (string \<times> string) list"
  jr_decode :: "string \<Rightarrow> (string, raw_change) result"

definition format_version_problem :: "json_reader \<Rightarrow> string \<Rightarrow> line_problem option \<times> bool" where
  "format_version_problem J text =
     (case jr_fields J text of
        None \<Rightarrow> (None, False)
      | Some object \<Rightarrow>
          (case object ''format_version'' of
             None \<Rightarrow> (Some (NoFormatVersion entry_format_version), True)
           | Some raw \<Rightarrow>
               if trim_space raw \<noteq> dec_of_nat entry_format_version
               then (Some (OtherFormatVersion (trim_space raw) entry_format_version), True)
               else (None, True)))"

definition change_of_raw :: "raw_change \<Rightarrow> change" where
  "change_of_raw r =
     \<lparr>ch_id = rc_id r, ch_commits = rc_commits r, ch_user_facing = rc_user_facing r,
      ch_description = rc_description r, ch_type = rc_type r, ch_packages = rc_packages r,
      ch_batch_reason = rc_batch_reason r\<rparr>"

definition parse_line :: "json_reader \<Rightarrow> string \<Rightarrow> (line_error, change) result" where
  "parse_line J text =
     (case format_version_problem J text of
        (Some p, _) \<Rightarrow> Inl ((plain_line_error [p])\<lparr>le_format_version := True\<rparr>)
      | (None, False) \<Rightarrow> Inl (plain_line_error [NotAnObject])
      | (None, True) \<Rightarrow>
          (let diags = jr_diagnostics J text
           in if diags \<noteq> [] then Inl (plain_line_error (map (\<lambda>(m, c). Diagnostic m c) diags))
              else (case jr_decode J text of
                      Inl e \<Rightarrow> Inl (plain_line_error [NotDecoded e])
                    | Inr raw \<Rightarrow> Inr (change_of_raw raw))))"

definition validate_change :: "json_reader \<Rightarrow> change \<Rightarrow> (line_error, unit) result" where
  "validate_change J e =
     (let line = serialize e
      in rbind (parse_line J line) (\<lambda>back.
           if serialize back \<noteq> line then Inl (plain_line_error [NotReadBack line]) else Inr ()))"

definition removal_command :: "change \<Rightarrow> string" where
  "removal_command e = ''rlsbl changelog remove --id '' @ ch_id e"

definition short_sha :: "string \<Rightarrow> string" where
  "short_sha sha = (if length sha > 12 then take 12 sha else sha)"

section \<open>Edits\<close>

record edit_request =
  er_description :: "string option"
  er_type :: "string option"
  er_user_facing :: "bool option"
  er_unset_description :: bool
  er_unset_type :: bool

datatype edit_error =
    EditsNothing
  | EditsDescriptionTwice
  | EditsTypeTwice
  | EditLacksProse
  | EditRefused line_error

definition edited :: "change \<Rightarrow> edit_request \<Rightarrow> change" where
  "edited e req =
     (let turns_off = (er_user_facing req = Some False);
          out = e\<lparr>ch_user_facing := (case er_user_facing req of Some b \<Rightarrow> b | None \<Rightarrow> ch_user_facing e)\<rparr>;
          out = (if er_unset_type req then out\<lparr>ch_type := []\<rparr>
                 else (case er_type req of
                         Some t \<Rightarrow> if turns_off then out else out\<lparr>ch_type := t\<rparr>
                       | None \<Rightarrow> out))
      in if er_unset_description req then out\<lparr>ch_description := []\<rparr>
         else (case er_description req of
                 Some d \<Rightarrow> if turns_off then out else out\<lparr>ch_description := d\<rparr>
               | None \<Rightarrow> out))"

definition apply_edit :: "json_reader \<Rightarrow> change \<Rightarrow> edit_request \<Rightarrow> (edit_error, change) result" where
  "apply_edit J e req =
     rguard (er_description req = None \<and> er_type req = None \<and> er_user_facing req = None \<and>
             \<not> er_unset_description req \<and> \<not> er_unset_type req) EditsNothing
     (rguard (er_description req \<noteq> None \<and> er_unset_description req) EditsDescriptionTwice
     (rguard (er_type req \<noteq> None \<and> er_unset_type req) EditsTypeTwice
     (let out = edited e req
      in rguard (ch_user_facing out \<and> (ch_description out = [] \<or> ch_type out = [])) EditLacksProse
           (rbind (with_error EditRefused (validate_change J out)) (\<lambda>_. Inr out)))))"

section \<open>Commit maps\<close>

text \<open>A rewrite map from old full ids to new ones, as the list of its pairs with distinct keys.\<close>

type_synonym commit_map = "(string \<times> string) list"

definition min_abbreviation :: nat where "min_abbreviation = 4"

definition map_commit :: "string \<Rightarrow> commit_map \<Rightarrow> string \<times> bool" where
  "map_commit h rw =
     (case map_of rw h of
        Some nxt \<Rightarrow> (nxt, False)
      | None \<Rightarrow>
          if length h < min_abbreviation then ([], False)
          else (case filter (\<lambda>(old, _). has_prefix old h) rw of
                  [] \<Rightarrow> ([], False)
                | [(_, nxt)] \<Rightarrow> (nxt, False)
                | _ \<Rightarrow> ([], True)))"

definition rewrite_holds :: "string \<Rightarrow> commit_map \<Rightarrow> bool" where
  "rewrite_holds h rw = (case map_commit h rw of (nxt, ambiguous) \<Rightarrow> nxt \<noteq> [] \<or> ambiguous)"

definition can_remap :: "string \<Rightarrow> commit_map \<Rightarrow> bool" where
  "can_remap h rw \<longleftrightarrow> fst (map_commit h rw) \<noteq> []"

definition append_once :: "string list \<Rightarrow> string \<Rightarrow> string list" where
  "append_once xs v = (if v \<in> set xs then xs else xs @ [v])"

fun dedupe_loop :: "string list \<Rightarrow> string list \<Rightarrow> string list" where
  "dedupe_loop seen [] = []"
| "dedupe_loop seen (v # vs) =
     (if v \<in> set seen then dedupe_loop seen vs else v # dedupe_loop (v # seen) vs)"

definition dedupe :: "string list \<Rightarrow> string list" where
  "dedupe vs = dedupe_loop [] vs"

text \<open>The commits of one entry through a map: the ids it leaves, and what became of each.\<close>

definition remap_commit :: "commit_map \<Rightarrow> string \<Rightarrow> string" where
  "remap_commit rw h = (case map_commit h rw of (nxt, _) \<Rightarrow> if nxt \<noteq> [] then nxt else h)"

definition remap_change :: "commit_map \<Rightarrow> change \<Rightarrow> change option" where
  "remap_change rw e =
     (if \<exists>h \<in> set (ch_commits e). can_remap h rw
      then Some (e\<lparr>ch_commits := dedupe (map (remap_commit rw) (ch_commits e))\<rparr>) else None)"

section \<open>What a written line looks like\<close>

definition one_line :: "string \<Rightarrow> bool" where
  "one_line s \<longleftrightarrow> CHR 0x0A \<notin> set s \<and> s \<noteq> [] \<and> trim_space s = s"

lemma hex_digit_no_newline: "n < 16 \<Longrightarrow> hex_digit n \<noteq> CHR 0x0A"
proof -
  have "\<forall>k \<in> set [0..<16]. hex_digit k \<noteq> CHR 0x0A" by code_simp
  then show "n < 16 \<Longrightarrow> hex_digit n \<noteq> CHR 0x0A" by simp
qed

lemma escape_no_newline: "CHR 0x0A \<notin> set (escape_ascii c)"
proof (cases "of_char c < (32 :: nat)")
  case True
  then have "(of_char c :: nat) div 16 < 16" "(of_char c :: nat) mod 16 < 16" by auto
  from this [THEN hex_digit_no_newline] show ?thesis
    by (auto simp: escape_ascii_def backslash_def quote_char_def)
qed (auto simp: escape_ascii_def backslash_def quote_char_def)

lemma rune_size_pos: "rune_size s \<ge> 1"
  by (auto simp: rune_size_def split: list.splits)

lemma leads_not_newline:
  "continues c \<Longrightarrow> c \<noteq> CHR 0x0A"
  "leads_two a b \<Longrightarrow> a \<noteq> CHR 0x0A \<and> b \<noteq> CHR 0x0A"
  "leads_three a b \<Longrightarrow> a \<noteq> CHR 0x0A \<and> b \<noteq> CHR 0x0A"
  "leads_four a b \<Longrightarrow> a \<noteq> CHR 0x0A \<and> b \<noteq> CHR 0x0A"
  unfolding leads_two_def leads_three_def leads_four_def continues_def byte_in_def by auto

text \<open>A rune of two bytes or more holds no newline.\<close>

lemma rune_no_newline:
  assumes "rune_size s > 1"
  shows "CHR 0x0A \<notin> set (take (rune_size s) s)"
proof -
  from assms obtain a b r where s: "s = a # b # r"
    by (auto simp: rune_size_def split: list.splits)
  show ?thesis
  proof (cases "leads_two a b")
    case True
    with s leads_not_newline(2) [of a b] show ?thesis by (auto simp: rune_size_def)
  next
    case two: False
    with assms s obtain c q where r: "r = c # q"
      by (auto simp: rune_size_def split: list.splits)
    show ?thesis
    proof (cases "leads_three a b \<and> continues c")
      case True
      with s r two leads_not_newline(1) [of c] leads_not_newline(3) [of a b] show ?thesis
        by (auto simp: rune_size_def eval_nat_numeral)
    next
      case False
      with assms s r two obtain d p where q: "q = d # p" "leads_four a b" "continues c" "continues d"
        by (auto simp: rune_size_def split: list.splits if_splits)
      with False s r two leads_not_newline(1) [of c] leads_not_newline(1) [of d] leads_not_newline(4) [of a b]
      show ?thesis by (auto simp: rune_size_def eval_nat_numeral)
    qed
  qed
qed

lemma json_chars_no_newline: "CHR 0x0A \<notin> set (json_chars s)"
proof (induction s rule: json_chars.induct)
  case 1
  then show ?case by simp
next
  case (2 c cs)
  show ?case
  proof (cases "of_char c < (128 :: nat)")
    case True
    with 2(1) show ?thesis using escape_no_newline by simp
  next
    case False
    with 2(2) [OF False refl refl refl] rune_no_newline [of "c # cs"] rune_size_pos [of "c # cs"]
    show ?thesis by (auto simp: Let_def backslash_def)
  qed
qed

lemma join_chars: "set (join sep ws) \<subseteq> set sep \<union> (\<Union>w \<in> set ws. set w)"
  by (induction sep ws rule: join.induct) auto

lemma json_string_no_newline: "CHR 0x0A \<notin> set (json_string s)"
  using json_chars_no_newline by (simp add: json_string_def quote_char_def)

lemma json_strings_no_newline: "CHR 0x0A \<notin> set (json_strings vs)"
  using join_chars [of "'',''" "map json_string vs"] json_string_no_newline
  by (auto simp: json_strings_def)

lemma json_field_no_newline:
  "CHR 0x0A \<notin> set name \<Longrightarrow> CHR 0x0A \<notin> set val \<Longrightarrow> CHR 0x0A \<notin> set (json_field name val)"
  by (simp add: json_field_def quote_char_def)

lemma serialize_one_line: "one_line (serialize e)"
proof -
  have "CHR 0x0A \<notin> set (dec_of_nat entry_format_version)" by code_simp
  moreover have "CHR 0x0A \<notin> set (json_bool b)" for b by (simp add: json_bool_def)
  ultimately have "CHR 0x0A \<notin> set (serialize e)"
    unfolding serialize_def Let_def
    by (auto dest!: subsetD [OF join_chars] split: if_splits option.splits
      simp: json_field_no_newline json_string_no_newline json_strings_no_newline)
  moreover have "trim_space (serialize e) = serialize e"
    by (rule trim_space_graph) (simp_all add: serialize_def Let_def graph_char_def)
  moreover have "serialize e \<noteq> []" by (simp add: serialize_def Let_def)
  ultimately show ?thesis by (simp add: one_line_def)
qed

text \<open>An entry the check accepts is one its line reads back as.\<close>

definition line_accepted :: "json_reader \<Rightarrow> string \<Rightarrow> bool" where
  "line_accepted J line \<longleftrightarrow> one_line line \<and> (\<exists>e. parse_line J line = Inr e)"

lemma validated_line: "validate_change J e = Inr () \<Longrightarrow> line_accepted J (serialize e)"
  using serialize_one_line by (auto simp: validate_change_def Let_def rbind_eq_Inr line_accepted_def)

section \<open>Properties of edits and of maps\<close>

lemma edited_fields:
  "ch_id (edited e req) = ch_id e" "ch_commits (edited e req) = ch_commits e"
  "ch_packages (edited e req) = ch_packages e" "ch_batch_reason (edited e req) = ch_batch_reason e"
  by (auto simp: edited_def Let_def split: option.splits)

lemma apply_edit_Inr:
  "apply_edit J e req = Inr out \<Longrightarrow>
     out = edited e req \<and> validate_change J out = Inr () \<and>
     (ch_user_facing out \<longrightarrow> ch_description out \<noteq> [] \<and> ch_type out \<noteq> [])"
  by (auto simp: apply_edit_def Let_def rguard_eq_Inr rbind_eq_Inr)

definition flip_off :: edit_request where
  "flip_off = \<lparr>er_description = None, er_type = None, er_user_facing = Some False,
     er_unset_description = False, er_unset_type = False\<rparr>"

definition flip_on :: edit_request where
  "flip_on = \<lparr>er_description = None, er_type = None, er_user_facing = Some True,
     er_unset_description = False, er_unset_type = False\<rparr>"

lemma map_commit_exact: "map_of rw h = Some nxt \<Longrightarrow> map_commit h rw = (nxt, False)"
  by (simp add: map_commit_def)

lemma map_commit_prefix:
  assumes "map_commit h rw = (nxt, amb)" and "nxt \<noteq> []"
  shows "\<exists>old. (old, nxt) \<in> set rw \<and> has_prefix old h \<and> \<not> amb \<and>
    (old = h \<or> (\<forall>(o2, n2) \<in> set rw. has_prefix o2 h \<longrightarrow> o2 = old \<and> n2 = nxt))"
proof (cases "map_of rw h")
  case (Some m)
  with assms have "m = nxt" "\<not> amb" by (auto simp: map_commit_def)
  with map_of_SomeD [OF Some] show ?thesis by (intro exI [of _ h]) auto
next
  case None
  with assms obtain old n where f: "filter (\<lambda>(old, _). has_prefix old h) rw = [(old, n)]" "n = nxt" "\<not> amb"
    by (auto simp: map_commit_def split: if_splits list.splits)
  from arg_cong [OF f(1), of set] have "{x \<in> set rw. has_prefix (fst x) h} = {(old, nxt)}"
    by (simp add: split_beta f(2))
  then have x: "x \<in> set rw \<and> has_prefix (fst x) h \<longleftrightarrow> x = (old, nxt)" for x by blast
  have "(old, nxt) \<in> set rw" "has_prefix old h" using x [of "(old, nxt)"] by simp_all
  moreover have "\<forall>(o2, n2) \<in> set rw. has_prefix o2 h \<longrightarrow> o2 = old \<and> n2 = nxt"
  proof
    fix p assume "p \<in> set rw"
    with x [of p] show "case p of (o2, n2) \<Rightarrow> has_prefix o2 h \<longrightarrow> o2 = old \<and> n2 = nxt"
      by (cases p) simp
  qed
  ultimately show ?thesis using f(3) by blast
qed

lemma set_dedupe_loop: "set (dedupe_loop seen vs) = set vs - set seen"
  by (induction vs arbitrary: seen) auto

lemma distinct_dedupe_loop: "distinct (dedupe_loop seen vs)"
  by (induction vs arbitrary: seen) (auto simp: set_dedupe_loop)

lemma set_dedupe [simp]: "set (dedupe vs) = set vs"
  by (simp add: dedupe_def set_dedupe_loop)

lemma distinct_dedupe [simp]: "distinct (dedupe vs)"
  by (simp add: dedupe_def distinct_dedupe_loop)

end
