(* ===== verification/Changelog_Files.thy ===== *)
theory Changelog_Files
  imports Disk Changelog_Entry
begin

text \<open>
  internal/changelog/files.go, the file writers of compose.go, remap.go and transplant.go: the
  changelog files of a directory, one JSONL line per entry, and every command that changes them.
  The unreleased file collects entries, a release turns it into the read-only file of a version,
  an undo turns it back, and edits, removals and remaps rewrite single lines.
\<close>

section \<open>Files and lines\<close>

definition unreleased_name :: string where "unreleased_name = ''unreleased.jsonl''"

definition jsonl_suffix :: string where "jsonl_suffix = ''.jsonl''"

definition retired_changelog_dir :: "string \<Rightarrow> string" where
  "retired_changelog_dir subject = retired_history_dir subject @ ''/changelog''"

definition version_name :: "version \<Rightarrow> string" where
  "version_name v = version_string v @ jsonl_suffix"

text \<open>path.Join of a changelog directory, which is canonical, and a name without slashes.\<close>

definition in_changelog :: "string \<Rightarrow> string \<Rightarrow> string" where
  "in_changelog dir name = dir @ ''/'' @ name"

abbreviation "unreleased_path dir \<equiv> in_changelog dir unreleased_name"
abbreviation "version_path dir v \<equiv> in_changelog dir (version_name v)"

record change_line =
  ln_number :: nat
  ln_text :: string
  ln_change :: change

record change_file =
  cf_path :: string
  cf_released :: bool
  cf_version :: version
  cf_lines :: "change_line list"

definition file_changes :: "change_file \<Rightarrow> change list" where
  "file_changes f = map ln_change (cf_lines f)"

definition file_label :: "change_file \<Rightarrow> string" where
  "file_label f = (if \<not> cf_released f then ''unreleased'' else version_string (cf_version f))"

definition format_version_only :: "line_error list \<Rightarrow> bool" where
  "format_version_only es = list_all le_format_version es"

datatype 'e changelog_error =
    OnDisk "'e disk_error"
  | LinesRefused string "line_error list"
  | ChangeRefused line_error
  | FileChangeRefused string line_error
  | LineChangeRefused nat string line_error
  | StrayFile string string
  | NoChangelogFile string
  | AlreadyFinalized version string
  | NothingToFinalize version string
  | AlreadyWritten string version
  | ChangedMeanwhile string
  | SelectorForm
  | SelectorEmpty
  | SelectorUnresolved string
  | NoChangeWithId string string
  | NoChangeNaming string "string list"
  | GitFault 'e

section \<open>Reading\<close>

fun parse_lines :: "json_reader \<Rightarrow> string \<Rightarrow> nat \<Rightarrow> string list \<Rightarrow> change_line list \<times> line_error list" where
  "parse_lines J rel i [] = ([], [])"
| "parse_lines J rel i (w # ws) =
     (case parse_lines J rel (Suc i) ws of (ls, refused) \<Rightarrow>
        let t = trim_space w
        in if t = [] then (ls, refused)
           else (case parse_line J t of
                   Inl e \<Rightarrow> (ls, e\<lparr>le_file := rel, le_line := Suc i\<rparr> # refused)
                 | Inr c \<Rightarrow> (\<lparr>ln_number = Suc i, ln_text = t, ln_change = c\<rparr> # ls, refused)))"

definition parse_changes ::
  "json_reader \<Rightarrow> string \<Rightarrow> string \<Rightarrow> ('e changelog_error, change_line list) result" where
  "parse_changes J rel data =
     (case parse_lines J rel 0 (split_on CHR 0x0A data) of (ls, refused) \<Rightarrow>
        if refused \<noteq> [] then Inl (LinesRefused rel refused) else Inr ls)"

definition zero_file :: "string \<Rightarrow> change_file" where
  "zero_file rel = \<lparr>cf_path = rel, cf_released = False, cf_version = zero_version, cf_lines = []\<rparr>"

definition read_changes ::
  "json_reader \<Rightarrow> string \<Rightarrow> 'e disk \<Rightarrow> ('e changelog_error, change_file option) result" where
  "read_changes J rel d =
     rbind (with_error (OnDisk \<circ> Reading rel) (read_bytes rel d)) (\<lambda>data.
       case data of
         None \<Rightarrow> Inr None
       | Some data \<Rightarrow> rbind (parse_changes J rel data) (\<lambda>ls. Inr (Some ((zero_file rel)\<lparr>cf_lines := ls\<rparr>))))"

fun version_items ::
  "string \<Rightarrow> (string \<times> bool) list \<Rightarrow> ('e changelog_error, version list) result" where
  "version_items dir [] = Inr []"
| "version_items dir ((name, is_dir) # items) =
     (if is_dir \<or> \<not> has_suffix name jsonl_suffix \<or> name = unreleased_name then version_items dir items
      else (case parse_version (trim_suffix name jsonl_suffix) of
              Inl _ \<Rightarrow> Inl (StrayFile (in_changelog dir name) dir)
            | Inr v \<Rightarrow> rbind (version_items dir items) (\<lambda>vs. Inr (v # vs))))"

definition changelog_versions ::
  "string \<Rightarrow> 'e disk \<Rightarrow> ('e changelog_error, version list) result" where
  "changelog_versions dir d =
     rbind (with_error (OnDisk \<circ> Reading dir) (list_dir dir d)) (\<lambda>items.
       case items of
         None \<Rightarrow> Inr []
       | Some items \<Rightarrow>
           rbind (version_items dir items) (\<lambda>vs. Inr (sort_by (\<lambda>a b. compare_versions a b > 0) vs)))"

definition read_unreleased ::
  "json_reader \<Rightarrow> string \<Rightarrow> 'e disk \<Rightarrow> ('e changelog_error, change_file) result" where
  "read_unreleased J dir d =
     rbind (read_changes J (unreleased_path dir) d) (\<lambda>f.
       Inr (case f of None \<Rightarrow> zero_file (unreleased_path dir) | Some f \<Rightarrow> f))"

definition read_version_file ::
  "json_reader \<Rightarrow> string \<Rightarrow> version \<Rightarrow> 'e disk \<Rightarrow> ('e changelog_error, change_file) result" where
  "read_version_file J dir v d =
     rbind (read_changes J (version_path dir v) d) (\<lambda>f.
       case f of
         None \<Rightarrow> Inl (NoChangelogFile (version_path dir v))
       | Some f \<Rightarrow> Inr (f\<lparr>cf_released := True, cf_version := v\<rparr>))"

definition read_all_changes ::
  "json_reader \<Rightarrow> string \<Rightarrow> 'e disk \<Rightarrow> ('e changelog_error, change_file list) result" where
  "read_all_changes J dir d =
     rbind (changelog_versions dir d) (\<lambda>vs.
     rbind (read_unreleased J dir d) (\<lambda>u.
     rbind (rmap (\<lambda>v. read_version_file J dir v d) vs) (\<lambda>fs. Inr (u # fs))))"

section \<open>Writing\<close>

type_synonym ('e, 'a) clog = "('e disk, 'e changelog_error, 'a) act"

definition put_changelog :: "string \<Rightarrow> string \<Rightarrow> nat \<Rightarrow> ('e, unit) clog" where
  "put_changelog rel data mode = awrap OnDisk (write_changelog_file rel data mode)"

definition mode_of :: "string \<Rightarrow> nat \<Rightarrow> 'e disk \<Rightarrow> ('e changelog_error, nat) result" where
  "mode_of rel fallback d =
     rbind (with_error (OnDisk \<circ> Reading rel) (path_mode rel d)) (\<lambda>m.
       Inr (case m of None \<Rightarrow> fallback | Some m \<Rightarrow> m))"

definition render_lines :: "string list \<Rightarrow> string" where
  "render_lines ls = (if ls = [] then [] else join [CHR 0x0A] ls @ [CHR 0x0A])"

definition texts :: "change_file \<Rightarrow> string list" where
  "texts f = map ln_text (cf_lines f)"

definition append_line :: "json_reader \<Rightarrow> change_file \<Rightarrow> change \<Rightarrow> nat \<Rightarrow> ('e, unit) clog" where
  "append_line J f c fallback =
     abind (aread (\<lambda>_. with_error ChangeRefused (validate_change J c))) (\<lambda>_.
     abind (aread (mode_of (cf_path f) fallback)) (\<lambda>mode.
     put_changelog (cf_path f) (render_lines (texts f @ [serialize c])) mode))"

definition append_change :: "json_reader \<Rightarrow> string \<Rightarrow> change \<Rightarrow> ('e, unit) clog" where
  "append_change J dir c =
     abind (aread (read_unreleased J dir)) (\<lambda>f. append_line J f c default_mode)"

definition append_to_version :: "json_reader \<Rightarrow> string \<Rightarrow> version \<Rightarrow> change \<Rightarrow> ('e, unit) clog" where
  "append_to_version J dir v c =
     abind (aread (read_version_file J dir v)) (\<lambda>f. append_line J f c readonly_mode)"

definition there :: "string \<Rightarrow> 'e disk \<Rightarrow> ('e changelog_error, bool) result" where
  "there rel d = with_error (OnDisk \<circ> Reading rel) (path_exists rel d)"

definition finalize :: "json_reader \<Rightarrow> string \<Rightarrow> version \<Rightarrow> ('e, unit) clog" where
  "finalize J dir v =
     (let unreleased = unreleased_path dir; released = version_path dir v
      in abind (aread (there released)) (\<lambda>found.
         aguard found (AlreadyFinalized v released)
         (abind (aread (read_changes J unreleased)) (\<lambda>f.
            case f of
              None \<Rightarrow> afail (NothingToFinalize v unreleased)
            | Some f \<Rightarrow>
                abind (put_changelog released (render_lines (texts f)) readonly_mode) (\<lambda>_.
                put_changelog unreleased [] default_mode)))))"

definition unfinalize_changes :: "json_reader \<Rightarrow> string \<Rightarrow> version \<Rightarrow> ('e, string list) clog" where
  "unfinalize_changes J dir v =
     (let released = version_path dir v
      in abind (aread (read_changes J released)) (\<lambda>f.
           case f of
             None \<Rightarrow> aret []
           | Some f \<Rightarrow>
               abind (aread (read_unreleased J dir)) (\<lambda>since.
               abind (put_changelog (cf_path since) (render_lines (texts f @ texts since)) default_mode) (\<lambda>_.
               abind (awrap (OnDisk \<circ> Removing released) (eff_remove released)) (\<lambda>_.
               aret [cf_path since, released])))))"

definition rewrite_file :: "json_reader \<Rightarrow> change_file \<Rightarrow> string list \<Rightarrow> ('e, unit) clog" where
  "rewrite_file J f ls =
     abind (aread (read_changes J (cf_path f))) (\<lambda>current.
     aguard (case current of
               None \<Rightarrow> True
             | Some cur \<Rightarrow> join [CHR 0x0A] (texts cur) \<noteq> join [CHR 0x0A] (texts f)) (ChangedMeanwhile (cf_path f))
     (abind (aread (mode_of (cf_path f) default_mode)) (\<lambda>mode.
      put_changelog (cf_path f) (render_lines ls) mode)))"

text \<open>A match is a file and the index of one of its lines.\<close>

type_synonym change_match = "change_file \<times> nat"

definition matched_change :: "change_match \<Rightarrow> change" where
  "matched_change m = ln_change (cf_lines (fst m) ! snd m)"

definition replace_change :: "json_reader \<Rightarrow> change_match \<Rightarrow> change \<Rightarrow> ('e, unit) clog" where
  "replace_change J m c =
     abind (aread (\<lambda>_. with_error ChangeRefused (validate_change J c))) (\<lambda>_.
     rewrite_file J (fst m) ((texts (fst m))[snd m := serialize c]))"

definition remove_change :: "json_reader \<Rightarrow> change_match \<Rightarrow> ('e, unit) clog" where
  "remove_change J m =
     (let ls = texts (fst m)
      in rewrite_file J (fst m) (take (snd m) ls @ drop (Suc (snd m)) ls))"

fun validate_changes :: "json_reader \<Rightarrow> string \<Rightarrow> change list \<Rightarrow> ('e changelog_error, string list) result" where
  "validate_changes J rel [] = Inr []"
| "validate_changes J rel (c # cs) =
     rbind (with_error (FileChangeRefused rel) (validate_change J c)) (\<lambda>_.
     rbind (validate_changes J rel cs) (\<lambda>ls. Inr (serialize c # ls)))"

definition replace_changes :: "json_reader \<Rightarrow> change_file \<Rightarrow> change list \<Rightarrow> ('e, unit) clog" where
  "replace_changes J f cs =
     abind (aread (\<lambda>_. validate_changes J (cf_path f) cs)) (\<lambda>ls. rewrite_file J f ls)"

definition write_version_changes ::
  "json_reader \<Rightarrow> string \<Rightarrow> version \<Rightarrow> change list \<Rightarrow> ('e, unit) clog" where
  "write_version_changes J dir v cs =
     (let rel = version_path dir v
      in abind (aread (there rel)) (\<lambda>found.
         aguard found (AlreadyWritten rel v)
         (abind (aread (\<lambda>_. validate_changes J rel cs)) (\<lambda>ls.
          put_changelog rel (render_lines ls) readonly_mode))))"

section \<open>Finding entries\<close>

record selector =
  sel_id :: string
  sel_commits :: "string list"

text \<open>Git's answer for a possibly abbreviated id: an error, no commit, or the full id.\<close>

type_synonym 'e resolver = "string \<Rightarrow> ('e, string option) result"

fun wanted_commits ::
  "'e resolver \<Rightarrow> bool \<Rightarrow> string list \<Rightarrow> ('e changelog_error, string list) result" where
  "wanted_commits res strict [] = Inr []"
| "wanted_commits res strict (c # cs) =
     (let c = trim_space c
      in if c = [] then wanted_commits res strict cs
         else rbind (with_error GitFault (res c)) (\<lambda>full.
              rbind (case full of
                       Some full \<Rightarrow> Inr full
                     | None \<Rightarrow> if strict then Inl (SelectorUnresolved c) else Inr c) (\<lambda>full.
              rbind (wanted_commits res strict cs) (\<lambda>ws. Inr (full # ws)))))"

definition change_hit :: "selector \<Rightarrow> string list \<Rightarrow> change \<Rightarrow> bool" where
  "change_hit sel wanted c \<longleftrightarrow>
     (sel_id sel \<noteq> [] \<and> ch_id c = sel_id sel) \<or> list_ex (\<lambda>h. h \<in> set wanted) (ch_commits c)"

definition matches_in :: "selector \<Rightarrow> string list \<Rightarrow> change_file \<Rightarrow> change_match list" where
  "matches_in sel wanted f =
     map (Pair f) (filter (\<lambda>i. change_hit sel wanted (ln_change (cf_lines f ! i))) [0..<length (cf_lines f)])"

definition find_changes ::
  "json_reader \<Rightarrow> 'e resolver \<Rightarrow> string \<Rightarrow> selector \<Rightarrow> bool \<Rightarrow> 'e disk \<Rightarrow>
     ('e changelog_error, change_match list) result" where
  "find_changes J res r sel strict d =
     rguard ((sel_id sel = []) = (sel_commits sel = [])) SelectorForm
     (rbind (wanted_commits res strict (sel_commits sel)) (\<lambda>wanted.
      rguard (sel_id sel = [] \<and> wanted = []) SelectorEmpty
      (rbind (read_all_changes J (changelog_dir r) d) (\<lambda>files.
       let matches = concat (map (matches_in sel wanted) files)
       in if matches = []
          then (if sel_id sel \<noteq> [] then Inl (NoChangeWithId r (sel_id sel))
                else Inl (NoChangeNaming r (sort (map short_sha (remdups wanted)))))
          else Inr matches))))"

definition describe_match :: "change_match \<Rightarrow> string" where
  "describe_match m =
     (let c = matched_change m;
          described = (if ch_description c = [] then ''(no description)'' else ch_description c);
          whence = (if cf_released (fst m) then ''v'' @ version_string (cf_version (fst m)) else ''unreleased'');
          typ = (if ch_type c = [] then ''(none)'' else ch_type c)
      in ''['' @ whence @ ''] entry '' @ ch_id c @ '', type '' @ typ @ '': '' @ described)"

section \<open>Remapping commit ids\<close>

record remapped_file =
  rf_path :: string
  rf_entries :: nat
  rf_commits :: nat

record remap_report =
  rp_files :: "remapped_file list"
  rp_unmapped :: "string \<Rightarrow> string list"
  rp_ambiguous :: "string \<Rightarrow> string list"

definition empty_report :: remap_report where
  "empty_report = \<lparr>rp_files = [], rp_unmapped = (\<lambda>_. []), rp_ambiguous = (\<lambda>_. [])\<rparr>"

definition note_commit :: "commit_map \<Rightarrow> string \<Rightarrow> remap_report \<Rightarrow> string \<Rightarrow> remap_report" where
  "note_commit rw rel rep h =
     (case map_commit h rw of (nxt, ambiguous) \<Rightarrow>
        if nxt \<noteq> [] then rep
        else if ambiguous
          then rep\<lparr>rp_ambiguous := (rp_ambiguous rep)(rel := append_once (rp_ambiguous rep rel) h)\<rparr>
        else rep\<lparr>rp_unmapped := (rp_unmapped rep)(rel := append_once (rp_unmapped rep rel) h)\<rparr>)"

definition note_commits :: "commit_map \<Rightarrow> string \<Rightarrow> change \<Rightarrow> remap_report \<Rightarrow> remap_report" where
  "note_commits rw rel c rep = foldl (note_commit rw rel) rep (ch_commits c)"

definition commits_remapped :: "commit_map \<Rightarrow> change \<Rightarrow> nat" where
  "commits_remapped rw c = length (filter (\<lambda>h. can_remap h rw) (ch_commits c))"

text \<open>The lines a remap leaves in a file: a line with a mapped id is written anew.\<close>

fun remap_lines ::
  "json_reader \<Rightarrow> commit_map \<Rightarrow> string \<Rightarrow> change_line list \<Rightarrow> ('e changelog_error, string list) result" where
  "remap_lines J rw rel [] = Inr []"
| "remap_lines J rw rel (l # ls) =
     (case remap_change rw (ln_change l) of
        None \<Rightarrow> rbind (remap_lines J rw rel ls) (\<lambda>ts. Inr (ln_text l # ts))
      | Some c \<Rightarrow>
          rbind (with_error (LineChangeRefused (ln_number l) rel) (validate_change J c)) (\<lambda>_.
          rbind (remap_lines J rw rel ls) (\<lambda>ts. Inr (serialize c # ts))))"

definition entries_remapped :: "commit_map \<Rightarrow> change_line list \<Rightarrow> nat" where
  "entries_remapped rw ls = length (filter (\<lambda>l. remap_change rw (ln_change l) \<noteq> None) ls)"

definition remap_file ::
  "json_reader \<Rightarrow> commit_map \<Rightarrow> remap_report \<Rightarrow> change_file \<Rightarrow> ('e, remap_report) clog" where
  "remap_file J rw rep f =
     abind (aread (\<lambda>_. remap_lines J rw (cf_path f) (cf_lines f))) (\<lambda>ts.
     let rep = foldl (\<lambda>rep l. note_commits rw (cf_path f) (ln_change l) rep) rep (cf_lines f)
     in if entries_remapped rw (cf_lines f) = 0 then aret rep
        else abind (rewrite_file J f ts) (\<lambda>_.
             aret (rep\<lparr>rp_files := rp_files rep @
               [\<lparr>rf_path = cf_path f, rf_entries = entries_remapped rw (cf_lines f),
                 rf_commits = sum_list (map (\<lambda>l. commits_remapped rw (ln_change l)) (cf_lines f))\<rparr>]\<rparr>)))"

text \<open>Every changelog directory of the repository.\<close>

definition dirs_below :: "string \<Rightarrow> string \<Rightarrow> 'e disk \<Rightarrow> ('e changelog_error, string list) result" where
  "dirs_below base inner d =
     rbind (with_error (OnDisk \<circ> Reading base) (list_dir base d)) (\<lambda>items.
       case items of
         None \<Rightarrow> Inr []
       | Some items \<Rightarrow>
           rbind (rmap (\<lambda>(name, _).
               let dir = base @ ''/'' @ name @ inner
               in rbind (with_error (OnDisk \<circ> Reading dir) (path_exists dir d)) (\<lambda>_.
                    Inr (if node_at d dir = Some DirNode then [dir] else [])))
             (filter snd items)) (\<lambda>dirs. Inr (concat dirs)))"

definition changelog_dirs :: "'e disk \<Rightarrow> ('e changelog_error, string list) result" where
  "changelog_dirs d =
     rbind (dirs_below changelog_root [] d) (\<lambda>a.
     rbind (dirs_below retired_histories_root ''/changelog'' d) (\<lambda>b. Inr (sort (a @ b))))"

definition remap_globs :: "string list" where
  "remap_globs = [changelog_root @ ''/*/*.jsonl'', retired_histories_root @ ''/*/changelog/*.jsonl'']"

definition remap :: "json_reader \<Rightarrow> commit_map \<Rightarrow> ('e, remap_report) clog" where
  "remap J rw =
     abind (aread changelog_dirs) (\<lambda>dirs.
     afold (\<lambda>rep dir.
         abind (aread (read_all_changes J dir)) (\<lambda>files.
         afold (remap_file J rw) rep files)) empty_report dirs)"

text \<open>The ids that do not resolve, per file.\<close>

definition unresolved_in :: "'e resolver \<Rightarrow> change_file \<Rightarrow> ('e changelog_error, string list) result" where
  "unresolved_in res f =
     rfold (\<lambda>out h. rbind (with_error GitFault (res h)) (\<lambda>full.
              Inr (if full = None then append_once out h else out)))
       [] (concat (map ch_commits (file_changes f)))"

definition unresolved_commits ::
  "json_reader \<Rightarrow> 'e resolver \<Rightarrow> 'e disk \<Rightarrow> ('e changelog_error, (string \<times> string list) list) result" where
  "unresolved_commits J res d =
     rbind (changelog_dirs d) (\<lambda>dirs.
     rbind (rmap (\<lambda>dir. rbind (read_all_changes J dir d) (\<lambda>files.
              rmap (\<lambda>f. rbind (unresolved_in res f) (\<lambda>hs. Inr (cf_path f, hs))) files)) dirs) (\<lambda>out.
     Inr (filter (\<lambda>(_, hs). hs \<noteq> []) (concat out))))"

section \<open>What a readable file holds\<close>

definition line_readable :: "json_reader \<Rightarrow> string \<Rightarrow> bool" where
  "line_readable J w \<longleftrightarrow> trim_space w = [] \<or> (case parse_line J (trim_space w) of Inl _ \<Rightarrow> False | Inr _ \<Rightarrow> True)"

definition text_readable :: "json_reader \<Rightarrow> string \<Rightarrow> bool" where
  "text_readable J data \<longleftrightarrow> list_all (line_readable J) (split_on CHR 0x0A data)"

lemma line_readable_iff:
  "line_readable J w \<longleftrightarrow> trim_space w = [] \<or> (\<exists>c. parse_line J (trim_space w) = Inr c)"
  by (auto simp: line_readable_def split: sum.splits)

lemma parse_lines_refused:
  "snd (parse_lines J rel i ws) = [] \<longleftrightarrow> list_all (line_readable J) ws"
proof (induction J rel i ws rule: parse_lines.induct)
  case (2 J rel i w ws)
  obtain ls refused where p: "parse_lines J rel (Suc i) ws = (ls, refused)" by force
  show ?case
    using 2 p by (cases "parse_line J (trim_space w)") (simp_all add: line_readable_iff Let_def)
qed simp

definition data_lines :: "json_reader \<Rightarrow> string \<Rightarrow> string \<Rightarrow> change_line list \<times> line_error list" where
  "data_lines J rel data = parse_lines J rel 0 (split_on CHR 0x0A data)"

lemma parse_changes_Inr: "parse_changes J rel data = Inr ls \<longleftrightarrow> data_lines J rel data = (ls, [])"
  by (auto simp: parse_changes_def data_lines_def split: prod.splits)

lemma data_lines_iff: "(\<exists>ls. data_lines J rel data = (ls, [])) \<longleftrightarrow> text_readable J data"
  using parse_lines_refused [of J rel 0 "split_on CHR 0x0A data"]
  by (cases "data_lines J rel data") (auto simp: data_lines_def text_readable_def)

lemma parse_lines_accepted:
  "(\<And>w. w \<in> set ws \<Longrightarrow> CHR 0x0A \<notin> set w) \<Longrightarrow> l \<in> set (fst (parse_lines J rel i ws)) \<Longrightarrow>
     line_accepted J (ln_text l) \<and> parse_line J (ln_text l) = Inr (ln_change l)"
proof (induction J rel i ws rule: parse_lines.induct)
  case (2 J rel i w ws)
  have "CHR 0x0A \<notin> set (trim_space w)"
    using 2(2) [of w] set_trim_space [of w] by auto
  with 2 show ?case
    by (auto simp: Let_def line_accepted_def one_line_def split: prod.splits sum.splits if_splits)
qed simp

lemma data_lines_accepted:
  assumes "data_lines J rel data = (ls, [])" and "l \<in> set ls"
  shows "line_accepted J (ln_text l)" and "parse_line J (ln_text l) = Inr (ln_change l)"
proof -
  have "ls = fst (parse_lines J rel 0 (split_on CHR 0x0A data))"
    using assms(1) by (simp add: data_lines_def)
  then show "line_accepted J (ln_text l)" "parse_line J (ln_text l) = Inr (ln_change l)"
    using parse_lines_accepted [of "split_on CHR 0x0A data"] split_on_pieces assms(2) by blast+
qed

lemma split_render:
  "(\<And>t. t \<in> set ts \<Longrightarrow> CHR 0x0A \<notin> set t) \<Longrightarrow> split_on CHR 0x0A (render_lines ts) = ts @ [[]]"
proof (cases "ts = []")
  case False
  assume "\<And>t. t \<in> set ts \<Longrightarrow> CHR 0x0A \<notin> set t"
  with False split_on_join [of ts "CHR 0x0A"] split_on_snoc [of "CHR 0x0A" "[]" "join [CHR 0x0A] ts"]
  show ?thesis by (simp add: render_lines_def)
qed (simp add: render_lines_def)

lemma parse_lines_rendered:
  "(\<And>t. t \<in> set ts \<Longrightarrow> line_accepted J t) \<Longrightarrow>
     \<exists>ls. parse_lines J rel i (ts @ [[]]) = (ls, []) \<and> map ln_text ls = ts \<and>
       (\<forall>l \<in> set ls. parse_line J (ln_text l) = Inr (ln_change l))"
proof (induction ts arbitrary: i)
  case Nil
  have "trim_space [] = []" by code_simp
  then show ?case by simp
next
  case (Cons t ts)
  have "\<And>t. t \<in> set ts \<Longrightarrow> line_accepted J t" using Cons.prems by simp
  from Cons.IH [OF this, of "Suc i"] obtain ls where ls: "parse_lines J rel (Suc i) (ts @ [[]]) = (ls, [])"
    "map ln_text ls = ts" "\<forall>l \<in> set ls. parse_line J (ln_text l) = Inr (ln_change l)" by blast
  from Cons.prems [of t] obtain c where "parse_line J t = Inr c" "trim_space t = t" "t \<noteq> []"
    by (auto simp: line_accepted_def one_line_def)
  with ls show ?case by (auto simp: Let_def)
qed

lemma parse_rendered:
  assumes "\<And>t. t \<in> set ts \<Longrightarrow> line_accepted J t"
  shows "\<exists>ls. data_lines J rel (render_lines ts) = (ls, []) \<and> map ln_text ls = ts \<and>
    (\<forall>l \<in> set ls. parse_line J (ln_text l) = Inr (ln_change l))"
proof -
  have "split_on CHR 0x0A (render_lines ts) = ts @ [[]]"
    by (rule split_render) (use assms in \<open>auto simp: line_accepted_def one_line_def\<close>)
  with parse_lines_rendered [of ts J rel 0] assms show ?thesis by (simp add: data_lines_def)
qed

lemma rendered_readable: "(\<And>t. t \<in> set ts \<Longrightarrow> line_accepted J t) \<Longrightarrow> text_readable J (render_lines ts)"
  using parse_rendered data_lines_iff by metis

text \<open>A file as some reader returned it.\<close>

definition file_ok :: "json_reader \<Rightarrow> change_file \<Rightarrow> bool" where
  "file_ok J f \<longleftrightarrow> has_suffix (cf_path f) jsonl_suffix \<and> (\<forall>l \<in> set (cf_lines f).
     line_accepted J (ln_text l) \<and> parse_line J (ln_text l) = Inr (ln_change l))"

lemma file_ok_texts: "file_ok J f \<Longrightarrow> t \<in> set (texts f) \<Longrightarrow> line_accepted J t"
  by (auto simp: file_ok_def texts_def)

lemma jsonl_names [simp]:
  "has_suffix (unreleased_path dir) jsonl_suffix" "has_suffix (version_path dir v) jsonl_suffix"
  by (auto simp: has_suffix_iff in_changelog_def unreleased_name_def jsonl_suffix_def version_name_def)

lemma read_changes_Some:
  assumes "read_changes J rel d = Inr (Some f)"
  shows "cf_path f = rel" and "file_at d rel \<noteq> None"
    and "\<exists>data. read_bytes rel d = Inr (Some data) \<and> data_lines J rel data = (cf_lines f, [])"
proof -
  from assms obtain data ls where "read_bytes rel d = Inr (Some data)" "data_lines J rel data = (ls, [])"
    "f = (zero_file rel)\<lparr>cf_lines := ls\<rparr>"
    by (auto simp: read_changes_def rbind_eq_Inr parse_changes_Inr split: option.splits)
  then show "cf_path f = rel" "file_at d rel \<noteq> None"
    "\<exists>data. read_bytes rel d = Inr (Some data) \<and> data_lines J rel data = (cf_lines f, [])"
    by (auto simp: zero_file_def read_bytes_def file_at_def split: option.splits node.splits)
qed

lemma read_changes_ok:
  assumes "read_changes J rel d = Inr (Some f)" and "has_suffix rel jsonl_suffix"
  shows "file_ok J f"
proof -
  from read_changes_Some(3) [OF assms(1)] obtain data where "data_lines J rel data = (cf_lines f, [])" by blast
  with data_lines_accepted [OF this] read_changes_Some(1) [OF assms(1)] assms(2) show ?thesis
    by (simp add: file_ok_def)
qed

lemma zero_file_ok: "has_suffix rel jsonl_suffix \<Longrightarrow> file_ok J (zero_file rel)"
  by (simp add: file_ok_def zero_file_def)

lemma read_unreleased_ok:
  assumes "read_unreleased J dir d = Inr f"
  shows "file_ok J f \<and> cf_path f = unreleased_path dir"
proof -
  from assms obtain g where g: "read_changes J (unreleased_path dir) d = Inr g"
    and f: "f = (case g of None \<Rightarrow> zero_file (unreleased_path dir) | Some f \<Rightarrow> f)"
    by (auto simp: read_unreleased_def rbind_eq_Inr)
  show ?thesis
  proof (cases g)
    case None
    with f zero_file_ok [of "unreleased_path dir"] show ?thesis by (simp add: zero_file_def)
  next
    case (Some h)
    with f g read_changes_ok [of J _ d h] read_changes_Some(1) [of J _ d h] show ?thesis by simp
  qed
qed

lemma read_version_ok:
  assumes "read_version_file J dir v d = Inr f"
  shows "file_ok J f \<and> cf_path f = version_path dir v \<and> file_at d (version_path dir v) \<noteq> None"
proof -
  from assms obtain g where g: "read_changes J (version_path dir v) d = Inr (Some g)"
    and f: "f = g\<lparr>cf_released := True, cf_version := v\<rparr>"
    by (auto simp: read_version_file_def rbind_eq_Inr split: option.splits)
  from read_changes_ok [OF g] read_changes_Some(1,2) [OF g] f show ?thesis by (simp add: file_ok_def)
qed

section \<open>Invariants of the changelog\<close>

text \<open>
  In the directories of a set every JSONL file is readable, and all but the unreleased files
  are read-only.
\<close>

definition kept_paths :: "string set \<Rightarrow> string set" where
  "kept_paths D = {in_changelog dir name | dir name. dir \<in> D \<and> CHR ''/'' \<notin> set name \<and> has_suffix name jsonl_suffix}"

definition file_kept :: "json_reader \<Rightarrow> string \<Rightarrow> string \<times> nat \<Rightarrow> bool" where
  "file_kept J p c \<longleftrightarrow> text_readable J (fst c) \<and> (base_name p \<noteq> unreleased_name \<longrightarrow> snd c = readonly_mode)"

definition changelog_kept :: "json_reader \<Rightarrow> string set \<Rightarrow> 'e disk \<Rightarrow> bool" where
  "changelog_kept J D d \<longleftrightarrow> (\<forall>p \<in> kept_paths D. \<forall>c. file_at d p = Some c \<longrightarrow> file_kept J p c)"

lemma suffix_dot: "has_suffix (a @ ''.tmp'') jsonl_suffix = False" "has_suffix (a @ ''/manifest.toml'') jsonl_suffix = False"
  by (auto simp: has_suffix_iff jsonl_suffix_def append_eq_append_conv2 append_eq_Cons_conv Cons_eq_append_conv)

lemma jsonl_no_scratch: "has_suffix p jsonl_suffix \<Longrightarrow> p \<notin> record_scratch rel"
  using suffix_dot [of rel] suffix_dot(2) [of "top_directory rel"]
  by (auto simp: record_scratch_def temporary_of_def manifest_path_def)

lemma kept_jsonl: "p \<in> kept_paths D \<Longrightarrow> has_suffix p jsonl_suffix"
  by (auto simp: kept_paths_def in_changelog_def has_suffix_iff)

lemma put_changelog_simp:
  "put_changelog rel data mode d = (r, t) \<Longrightarrow> \<exists>r'. (case (data, mode) of (tx, md) \<Rightarrow> write_changelog_file rel tx md) d = (r', t)"
  by (auto simp: put_changelog_def awrap_def split: prod.splits sum.splits)

lemma put_changelog_files:
  assumes "put_changelog rel data mode d = (r, t)" and "has_suffix rel jsonl_suffix"
  shows "file_at t rel \<in> {file_at d rel, Some (data, mode)}" and "same_world d t"
    and "r = Inr u \<Longrightarrow> file_at t rel = Some (data, mode)"
    and "q \<noteq> rel \<Longrightarrow> has_suffix q jsonl_suffix \<Longrightarrow> file_at t q = file_at d q"
proof -
  from put_changelog_simp [OF assms(1)] obtain r'
    where w: "(case (data, mode) of (tx, md) \<Rightarrow> write_changelog_file rel tx md) d = (r', t)" by blast
  note s = jsonl_no_scratch [OF assms(2), of rel]
  show "file_at t rel \<in> {file_at d rel, Some (data, mode)}"
    using changelog_writer.old_or_new [OF w s] by simp
  show "same_world d t" by (rule changelog_writer.world [OF w s])
  show "q \<noteq> rel \<Longrightarrow> has_suffix q jsonl_suffix \<Longrightarrow> file_at t q = file_at d q"
    using changelog_writer.others [OF w s] jsonl_no_scratch by blast
  show "file_at t rel = Some (data, mode)" if "r = Inr u"
  proof -
    have "write_changelog_file rel data mode d = (Inr (), t)"
      using assms(1) that by (auto simp: put_changelog_def awrap_Inr)
    then show ?thesis using changelog_writer.wrote [of rel "(data, mode)" d t] by simp
  qed
qed

lemma put_changelog_kept:
  assumes "put_changelog rel data mode d = (r, t)" and "has_suffix rel jsonl_suffix"
    and "changelog_kept J D d" and "rel \<in> kept_paths D \<Longrightarrow> file_kept J rel (data, mode)"
  shows "changelog_kept J D t"
  unfolding changelog_kept_def
proof (intro ballI allI impI)
  fix p c assume p: "p \<in> kept_paths D" "file_at t p = Some c"
  show "file_kept J p c"
  proof (cases "p = rel")
    case True
    with p put_changelog_files(1) [OF assms(1,2)] have "file_at d p = Some c \<or> c = (data, mode)" by auto
    with p True assms(3,4) show ?thesis unfolding changelog_kept_def by blast
  next
    case False
    with p put_changelog_files(4) [OF assms(1,2) False kept_jsonl [OF p(1)]] assms(3) show ?thesis
      unfolding changelog_kept_def by metis
  qed
qed

lemma base_name_in_changelog: "CHR ''/'' \<notin> set name \<Longrightarrow> base_name (in_changelog dir name) = name"
  by (simp add: base_name_def in_changelog_def split_on_snoc)

lemma version_name_plain: "CHR ''/'' \<notin> set (version_name v)" "version_name v \<noteq> unreleased_name"
proof -
  have chars: "set (version_string v) \<subseteq> {c. is_digit c} \<union> {CHR ''.''}"
    using dec_of_nat_digits by (auto simp: version_string_def word_dec_def)
  then show "CHR ''/'' \<notin> set (version_name v)"
    by (auto simp: version_name_def jsonl_suffix_def is_digit_def)
  show "version_name v \<noteq> unreleased_name"
  proof
    assume "version_name v = unreleased_name"
    then have "version_string v = ''unreleased''"
      by (simp add: version_name_def unreleased_name_def jsonl_suffix_def append_eq_append_conv2
          append_eq_Cons_conv Cons_eq_append_conv)
    with chars show False by (auto simp: is_digit_def)
  qed
qed

lemma base_names [simp]:
  "base_name (unreleased_path dir) = unreleased_name"
  "base_name (version_path dir v) = version_name v"
  "unreleased_path dir \<noteq> version_path dir v" "version_path dir v \<noteq> unreleased_path dir"
proof -
  have u: "CHR ''/'' \<notin> set unreleased_name" by code_simp
  show "base_name (unreleased_path dir) = unreleased_name" "base_name (version_path dir v) = version_name v"
    using base_name_in_changelog u version_name_plain by simp_all
  then show "unreleased_path dir \<noteq> version_path dir v" "version_path dir v \<noteq> unreleased_path dir"
    using version_name_plain(2) [of v] by metis+
qed

text \<open>An action that keeps the invariant from a given state on.\<close>

definition keeps_from :: "json_reader \<Rightarrow> string set \<Rightarrow> 'e disk \<Rightarrow> ('e, 'a) clog \<Rightarrow> bool" where
  "keeps_from J D d m \<longleftrightarrow> (changelog_kept J D d \<longrightarrow> changelog_kept J D (snd (m d)))"

lemma keeps_pure [simp]:
  "keeps_from J D d (aret x)" "keeps_from J D d (afail e)" "keeps_from J D d (aread f)"
  by (simp_all add: keeps_from_def)

lemma keeps_read:
  "(\<And>x. g d = Inr x \<Longrightarrow> keeps_from J D d (f x)) \<Longrightarrow> keeps_from J D d (abind (aread g) f)"
  by (auto simp: keeps_from_def abind_def split: sum.splits)

lemma keeps_guard: "(\<not> b \<Longrightarrow> keeps_from J D d m) \<Longrightarrow> keeps_from J D d (aguard b e m)"
  by (cases b) simp_all

lemma keeps_bind:
  "keeps_from J D d m \<Longrightarrow> (\<And>x t. m d = (Inr x, t) \<Longrightarrow> keeps_from J D t (f x)) \<Longrightarrow> keeps_from J D d (abind m f)"
  by (auto simp: keeps_from_def abind_def split: prod.splits sum.splits)

lemma keeps_put:
  "has_suffix rel jsonl_suffix \<Longrightarrow>
     (changelog_kept J D d \<Longrightarrow> rel \<in> kept_paths D \<Longrightarrow> file_kept J rel (data, mode)) \<Longrightarrow>
     keeps_from J D d (put_changelog rel data mode)"
  unfolding keeps_from_def using put_changelog_kept by (metis prod.collapse)

lemma keeps_afold:
  "(\<And>r x t. x \<in> set xs \<Longrightarrow> keeps_from J D t (f r x)) \<Longrightarrow> keeps_from J D d (afold f r xs)"
  by (induction xs arbitrary: r d) (auto intro: keeps_bind)

lemmas keeps_rules = keeps_read keeps_guard keeps_bind keeps_pure

lemma mode_of_file:
  assumes "mode_of rel fallback d = Inr m"
  shows "m = (case node_at d rel of None \<Rightarrow> fallback | Some DirNode \<Rightarrow> dir_mode | Some (FileNode _ k) \<Rightarrow> k)"
  using assms by (auto simp: mode_of_def rbind_eq_Inr path_mode_def split: option.splits node.splits)

lemma mode_of_kept:
  assumes "changelog_kept J D d" and "p \<in> kept_paths D" and "mode_of p fallback d = Inr m"
    and "file_at d p \<noteq> None" and "base_name p \<noteq> unreleased_name"
  shows "m = readonly_mode"
  using assms mode_of_file [OF assms(3)]
  by (fastforce simp: changelog_kept_def file_kept_def file_at_def split: option.splits node.splits)

lemma text_kept:
  "(\<And>t. t \<in> set ts \<Longrightarrow> line_accepted J t) \<Longrightarrow> (base_name p \<noteq> unreleased_name \<Longrightarrow> mode = readonly_mode) \<Longrightarrow>
     file_kept J p (render_lines ts, mode)"
  by (auto simp: file_kept_def intro: rendered_readable)

lemma keeps_append_line:
  assumes "file_ok J f" and "base_name (cf_path f) = unreleased_name \<or> file_at d (cf_path f) \<noteq> None"
  shows "keeps_from J D d (append_line J f c fallback)"
proof -
  have "file_kept J (cf_path f) (render_lines (texts f @ [serialize c]), m)"
    if "with_error ChangeRefused (validate_change J c) = (Inr u :: ('e changelog_error, unit) result)"
      and "mode_of (cf_path f) fallback d = Inr m"
      and "changelog_kept J D d" and "cf_path f \<in> kept_paths D" for u m
  proof (rule text_kept)
    have "line_accepted J (serialize c)" using that(1) validated_line [of J c] by simp
    then show "line_accepted J t" if "t \<in> set (texts f @ [serialize c])" for t
      using that file_ok_texts [OF assms(1)] by auto
    show "m = readonly_mode" if "base_name (cf_path f) \<noteq> unreleased_name"
      using mode_of_kept [OF \<open>changelog_kept J D d\<close> \<open>cf_path f \<in> kept_paths D\<close> \<open>mode_of _ _ _ = _\<close>] assms(2) that
      by blast
  qed
  moreover have "has_suffix (cf_path f) jsonl_suffix" using assms(1) by (simp add: file_ok_def)
  ultimately show ?thesis
    unfolding append_line_def by (intro keeps_read keeps_put) blast+
qed

lemma keeps_append_change: "keeps_from J D d (append_change J dir c)"
  unfolding append_change_def
  by (rule keeps_read) (use read_unreleased_ok keeps_append_line in fastforce)

lemma keeps_append_to_version: "keeps_from J D d (append_to_version J dir v c)"
  unfolding append_to_version_def
  by (rule keeps_read) (use read_version_ok keeps_append_line in metis)

lemma keeps_rewrite:
  assumes "has_suffix (cf_path f) jsonl_suffix" and "\<And>t. t \<in> set ts \<Longrightarrow> line_accepted J t"
  shows "keeps_from J D d (rewrite_file J f ts)"
proof -
  have "file_kept J (cf_path f) (render_lines ts, m)"
    if "read_changes J (cf_path f) d = Inr (Some g)" "mode_of (cf_path f) default_mode d = Inr m"
      "changelog_kept J D d" "cf_path f \<in> kept_paths D" for g m
    using text_kept assms(2) mode_of_kept [OF that(3,4,2)] read_changes_Some(2) [OF that(1)] by metis
  then show ?thesis
    unfolding rewrite_file_def using assms(1)
    by (intro keeps_read keeps_guard keeps_put) (auto split: option.splits)
qed

lemma keeps_finalize: "keeps_from J D d (finalize J dir v)"
proof -
  have "keeps_from J D d (case f of None \<Rightarrow> afail (NothingToFinalize v (unreleased_path dir))
      | Some f \<Rightarrow> abind (put_changelog (version_path dir v) (render_lines (texts f)) readonly_mode)
          (\<lambda>_. put_changelog (unreleased_path dir) [] default_mode))"
    if "read_changes J (unreleased_path dir) d = Inr f" for f
  proof (cases f)
    case (Some g)
    have "file_ok J g" using read_changes_ok [of J _ d g] that Some by simp
    then have "file_kept J (version_path dir v) (render_lines (texts g), readonly_mode)"
      using text_kept file_ok_texts by blast
    moreover have "file_kept J (unreleased_path dir) ([], default_mode)"
      using text_kept [of "[]" J "unreleased_path dir" default_mode] by (simp add: render_lines_def)
    ultimately show ?thesis
      using Some by (auto intro!: keeps_bind keeps_put)
  qed simp
  then show ?thesis
    unfolding finalize_def Let_def by (intro keeps_read keeps_guard) blast
qed

lemma remove_kept:
  assumes "changelog_kept J D d"
  shows "changelog_kept J D (snd (awrap w (eff_remove p) d))"
proof -
  have "file_at (snd (eff_remove p d)) q \<in> {file_at d q, None}" for q
    by (auto simp: perform_def Let_def remove_node_def split: option.splits sum.splits node.splits if_splits)
  then have "file_at (snd (awrap w (eff_remove p) d)) q = Some c \<Longrightarrow> file_at d q = Some c" for q c
    by (auto simp: awrap_def split: prod.splits sum.splits) (metis insertE option.distinct(1) singletonD snd_conv)+
  with assms show ?thesis by (auto simp: changelog_kept_def)
qed

lemma keeps_remove: "keeps_from J D d (awrap w (eff_remove p))"
  by (simp add: keeps_from_def remove_kept)

lemma keeps_unfinalize: "keeps_from J D d (unfinalize_changes J dir v)"
proof -
  have "keeps_from J D d (case f of None \<Rightarrow> aret []
      | Some f \<Rightarrow> abind (aread (read_unreleased J dir)) (\<lambda>since.
          abind (put_changelog (cf_path since) (render_lines (texts f @ texts since)) default_mode) (\<lambda>_.
          abind (awrap (OnDisk \<circ> Removing (version_path dir v)) (eff_remove (version_path dir v))) (\<lambda>_.
          aret [cf_path since, version_path dir v]))))"
    if "read_changes J (version_path dir v) d = Inr f" for f
  proof (cases f)
    case (Some g)
    have g: "file_ok J g" using read_changes_ok [of J _ d g] that Some by simp
    have "file_kept J (cf_path since) (render_lines (texts g @ texts since), default_mode)"
      "has_suffix (cf_path since) jsonl_suffix"
      if "read_unreleased J dir d = Inr since" for since
      using read_unreleased_ok [OF that] file_ok_texts [OF g] file_ok_texts [of J since]
      by (auto intro!: text_kept)
    then show ?thesis
      unfolding Some option.case by (intro keeps_read keeps_bind keeps_put keeps_remove keeps_pure) blast+
  qed simp
  then show ?thesis
    unfolding unfinalize_changes_def Let_def by (intro keeps_read) blast
qed

lemma validate_changes_accepted:
  "validate_changes J rel cs = Inr ls \<Longrightarrow> t \<in> set ls \<Longrightarrow> line_accepted J t"
  by (induction cs arbitrary: ls) (auto simp: rbind_eq_Inr dest: validated_line)

lemma keeps_replace_change: "file_ok J (fst m) \<Longrightarrow> keeps_from J D d (replace_change J m c)"
  unfolding replace_change_def
proof (intro keeps_read keeps_rewrite)
  assume f: "file_ok J (fst m)"
  then show "has_suffix (cf_path (fst m)) jsonl_suffix" by (simp add: file_ok_def)
  fix u t assume "with_error ChangeRefused (validate_change J c) = (Inr u :: ('e changelog_error, unit) result)"
    and "t \<in> set ((texts (fst m))[snd m := serialize c])"
  then have "validate_change J c = Inr ()" "t = serialize c \<or> t \<in> set (texts (fst m))"
    using set_update_subset_insert [of "texts (fst m)"] by auto
  then show "line_accepted J t" using validated_line file_ok_texts [OF f] by blast
qed

lemma keeps_remove_change: "file_ok J (fst m) \<Longrightarrow> keeps_from J D d (remove_change J m)"
  unfolding remove_change_def Let_def
proof (rule keeps_rewrite)
  assume f: "file_ok J (fst m)"
  then show "has_suffix (cf_path (fst m)) jsonl_suffix" by (simp add: file_ok_def)
  show "line_accepted J t" if "t \<in> set (take (snd m) (texts (fst m)) @ drop (Suc (snd m)) (texts (fst m)))" for t
    using that file_ok_texts [OF f] by (auto dest: in_set_takeD in_set_dropD)
qed

lemma keeps_replace_changes: "file_ok J f \<Longrightarrow> keeps_from J D d (replace_changes J f cs)"
  unfolding replace_changes_def
  by (intro keeps_read keeps_rewrite) (auto simp: file_ok_def dest: validate_changes_accepted)

lemma keeps_write_version: "keeps_from J D d (write_version_changes J dir v cs)"
  unfolding write_version_changes_def Let_def
  by (intro keeps_read keeps_guard keeps_put) (auto intro!: text_kept dest: validate_changes_accepted)

lemma remap_lines_accepted:
  "remap_lines J rw rel ls = Inr ts \<Longrightarrow> (\<And>l. l \<in> set ls \<Longrightarrow> line_accepted J (ln_text l)) \<Longrightarrow>
     t \<in> set ts \<Longrightarrow> line_accepted J t"
  by (induction ls arbitrary: ts) (auto simp: rbind_eq_Inr split: option.splits dest: validated_line)

lemma keeps_remap_file: "file_ok J f \<Longrightarrow> keeps_from J D d (remap_file J rw rep f)"
proof -
  assume f: "file_ok J f"
  have acc: "line_accepted J t" if "remap_lines J rw (cf_path f) (cf_lines f) = Inr ts" "t \<in> set ts" for ts t
    using remap_lines_accepted [OF that(1) _ that(2)] f by (auto simp: file_ok_def)
  have suffix: "has_suffix (cf_path f) jsonl_suffix" using f by (simp add: file_ok_def)
  show ?thesis
    unfolding remap_file_def Let_def
  proof (rule keeps_read)
    fix ts assume ts: "remap_lines J rw (cf_path f) (cf_lines f) = Inr ts"
    show "keeps_from J D d
         (if entries_remapped rw (cf_lines f) = 0
          then aret (foldl (\<lambda>rep l. note_commits rw (cf_path f) (ln_change l) rep) rep (cf_lines f))
          else abind (rewrite_file J f ts) (\<lambda>_. aret (foldl (\<lambda>rep l. note_commits rw (cf_path f) (ln_change l) rep) rep (cf_lines f)
            \<lparr>rp_files := rp_files (foldl (\<lambda>rep l. note_commits rw (cf_path f) (ln_change l) rep) rep (cf_lines f)) @
               [\<lparr>rf_path = cf_path f, rf_entries = entries_remapped rw (cf_lines f),
                 rf_commits = (\<Sum>l\<leftarrow>cf_lines f. commits_remapped rw (ln_change l))\<rparr>]\<rparr>)))"
      by (auto intro!: keeps_bind keeps_rewrite suffix acc [OF ts])
  qed
qed

lemma read_all_ok: "read_all_changes J dir d = Inr fs \<Longrightarrow> f \<in> set fs \<Longrightarrow> file_ok J f"
proof -
  assume "read_all_changes J dir d = Inr fs" "f \<in> set fs"
  then obtain vs u gs where u: "read_unreleased J dir d = Inr u"
    and g: "rmap (\<lambda>v. read_version_file J dir v d) vs = Inr gs" and f: "f = u \<or> f \<in> set gs"
    by (auto simp: read_all_changes_def rbind_eq_Inr)
  from g have "\<exists>v. read_version_file J dir v d = Inr h" if "h \<in> set gs" for h
    using that by (auto simp: rmap_Inr_iff list_all2_conv_all_nth in_set_conv_nth)
  with u f read_unreleased_ok read_version_ok show "file_ok J f" by metis
qed

lemma keeps_remap: "keeps_from J D d (remap J rw)"
  unfolding remap_def
  by (intro keeps_read keeps_afold keeps_remap_file) (rule read_all_ok)

text \<open>
  One command, or a change of what the disk will refuse: the match of an edit or a removal may
  come from an earlier read.
\<close>

inductive changelog_step :: "json_reader \<Rightarrow> 'e disk \<Rightarrow> 'e disk \<Rightarrow> bool" for J where
  Add: "append_change J dir c d = (r, t) \<Longrightarrow> changelog_step J d t"
| Amend: "append_to_version J dir v c d = (r, t) \<Longrightarrow> changelog_step J d t"
| Finalize: "finalize J dir v d = (r, t) \<Longrightarrow> changelog_step J d t"
| Unfinalize: "unfinalize_changes J dir v d = (ps, t) \<Longrightarrow> changelog_step J d t"
| Replace: "file_ok J f \<Longrightarrow> replace_change J (f, i) c d = (r, t) \<Longrightarrow> changelog_step J d t"
| Remove: "file_ok J f \<Longrightarrow> remove_change J (f, i) d = (r, t) \<Longrightarrow> changelog_step J d t"
| ReplaceAll: "file_ok J f \<Longrightarrow> replace_changes J f cs d = (r, t) \<Longrightarrow> changelog_step J d t"
| WriteVersion: "write_version_changes J dir v cs d = (r, t) \<Longrightarrow> changelog_step J d t"
| Remap: "remap J rw d = (rep, t) \<Longrightarrow> changelog_step J d t"
| Faults: "t = d\<lparr>dk_faults := fs\<rparr> \<Longrightarrow> changelog_step J d t"

inductive_cases changelog_stepE: "changelog_step J d t"

lemma keeps_fromD: "keeps_from J D d m \<Longrightarrow> m d = (r, t) \<Longrightarrow> changelog_kept J D d \<Longrightarrow> changelog_kept J D t"
  by (auto simp: keeps_from_def)

lemma kept_faults [simp]: "changelog_kept J D (d\<lparr>dk_faults := fs\<rparr>) \<longleftrightarrow> changelog_kept J D d"
  by (simp add: changelog_kept_def)

lemmas kept_after = keeps_append_change [THEN keeps_fromD] keeps_append_to_version [THEN keeps_fromD]
  keeps_finalize [THEN keeps_fromD] keeps_unfinalize [THEN keeps_fromD]
  keeps_replace_change [of _ "(f, i)" for f i, unfolded fst_conv, THEN keeps_fromD]
  keeps_remove_change [of _ "(f, i)" for f i, unfolded fst_conv, THEN keeps_fromD]
  keeps_replace_changes [THEN keeps_fromD] keeps_write_version [THEN keeps_fromD]
  keeps_remap [THEN keeps_fromD]

lemma changelog_step_kept: "changelog_step J d t \<Longrightarrow> changelog_kept J D d \<Longrightarrow> changelog_kept J D t"
  by (erule changelog_stepE)
    ((rule kept_after, assumption, assumption, assumption) | (rule kept_after, assumption, assumption) | simp)+

lemma changelog_steps_kept:
  "(changelog_step J)\<^sup>*\<^sup>* d t \<Longrightarrow> changelog_kept J D d \<Longrightarrow> changelog_kept J D t"
  by (induction rule: rtranclp_induct) (auto intro: changelog_step_kept)

lemma kept_path_in: "dir \<in> D \<Longrightarrow> CHR ''/'' \<notin> set name \<Longrightarrow> has_suffix name jsonl_suffix \<Longrightarrow> in_changelog dir name \<in> kept_paths D"
  by (auto simp: kept_paths_def)

lemma kept_names:
  assumes "dir \<in> D"
  shows "unreleased_path dir \<in> kept_paths D" and "version_path dir v \<in> kept_paths D"
proof -
  have "CHR ''/'' \<notin> set unreleased_name" "has_suffix unreleased_name jsonl_suffix" by code_simp+
  then show "unreleased_path dir \<in> kept_paths D" using assms kept_path_in by blast
  have "has_suffix (version_name v) jsonl_suffix" by (simp add: version_name_def)
  then show "version_path dir v \<in> kept_paths D" using assms kept_path_in version_name_plain by blast
qed

lemma read_changes_not_refused:
  assumes "changelog_kept J D d" and "p \<in> kept_paths D"
  shows "read_changes J p d \<noteq> Inl (LinesRefused rel es)"
proof
  assume "read_changes J p d = Inl (LinesRefused rel es)"
  then obtain data where r: "read_bytes p d = Inr (Some data)"
    and e: "parse_changes J p data = (Inl (LinesRefused rel es) :: ('a changelog_error, change_line list) result)"
    by (auto simp: read_changes_def rbind_eq_Inl with_error_Inl split: option.splits)
  from r obtain m where "file_at d p = Some (data, m)"
    by (auto simp: read_bytes_def file_at_def split: option.splits node.splits)
  with assms have "text_readable J data"
    unfolding changelog_kept_def file_kept_def by fastforce
  then obtain ls where "data_lines J p data = (ls, [])" using data_lines_iff by metis
  with e show False by (simp add: parse_changes_def data_lines_def)
qed

lemma version_items_error: "version_items dir items \<noteq> Inl (LinesRefused rel es)"
  by (induction dir items rule: version_items.induct) (auto simp: rbind_eq_Inl split: sum.splits)

lemma changelog_versions_error: "changelog_versions dir d \<noteq> Inl (LinesRefused rel es)"
  using version_items_error
  by (auto simp: changelog_versions_def rbind_eq_Inl with_error_Inl split: option.splits)

lemma read_all_not_refused:
  assumes "changelog_kept J D d" and "dir \<in> D"
  shows "read_all_changes J dir d \<noteq> Inl (LinesRefused rel es)"
proof
  note kept = read_changes_not_refused [OF assms(1) kept_names(1) [OF assms(2)]]
    read_changes_not_refused [OF assms(1) kept_names(2) [OF assms(2)]]
  have u: "read_unreleased J dir d \<noteq> Inl (LinesRefused rel es)"
    using kept by (simp add: read_unreleased_def rbind_eq_Inl)
  have v: "read_version_file J dir v d \<noteq> Inl (LinesRefused rel es)" for v
    using kept by (auto simp: read_version_file_def rbind_eq_Inl split: option.splits)
  assume "read_all_changes J dir d = Inl (LinesRefused rel es)"
  with u v changelog_versions_error [of dir d rel es] rmap_Inl_ex
  show False by (fastforce simp: read_all_changes_def rbind_eq_Inl)
qed

text \<open>
  C16. The changelog stays readable and the released files stay read-only: from a disk where
  every changelog file of some directories parses and every released one is read-only, whatever
  commands run in whatever order, and wherever a fault stops one of them, no read of such a
  directory ever refuses a line again and every released file is read-only.
\<close>

theorem changelog_stays_readable:
  assumes "(changelog_step J)\<^sup>*\<^sup>* d t" and "changelog_kept J D d" and "dir \<in> D"
  shows "read_all_changes J dir t \<noteq> Inl (LinesRefused rel es) \<and>
    (file_at t (version_path dir v) = Some (data, mode) \<longrightarrow> mode = readonly_mode)"
proof
  have kept: "changelog_kept J D t" by (rule changelog_steps_kept [OF assms(1,2)])
  then show "read_all_changes J dir t \<noteq> Inl (LinesRefused rel es)" by (rule read_all_not_refused) fact
  have "version_path dir v \<in> kept_paths D" "base_name (version_path dir v) \<noteq> unreleased_name"
    using kept_names assms(3) version_name_plain by simp_all
  then show "file_at t (version_path dir v) = Some (data, mode) \<longrightarrow> mode = readonly_mode"
    using kept unfolding changelog_kept_def file_kept_def by fastforce
qed

text \<open>A reader that knows one entry, and the changelog of one releasable.\<close>

definition sample_change :: change where
  "sample_change = \<lparr>ch_id = ''0a'', ch_commits = [''c1''], ch_user_facing = True,
     ch_description = ''Adds it'', ch_type = type_feature, ch_packages = None, ch_batch_reason = []\<rparr>"

definition sample_reader :: json_reader where
  "sample_reader = \<lparr>jr_fields = (\<lambda>_. Some (\<lambda>_. Some ''2'')), jr_diagnostics = (\<lambda>_. []),
     jr_decode = (\<lambda>_. Inr \<lparr>rc_format_version = 2, rc_id = ch_id sample_change,
       rc_commits = ch_commits sample_change, rc_user_facing = True,
       rc_description = ch_description sample_change, rc_type = ch_type sample_change,
       rc_packages = None, rc_batch_reason = []\<rparr>)\<rparr>"

definition sample_changelog :: "string disk" where
  "sample_changelog = \<lparr>dk_root = ''/repo'', dk_nodes = [], dk_faults = [],
     dk_unreadable = (\<lambda>_. None), dk_unseen = (\<lambda>_. None), dk_owner = (\<lambda>_. Inr record_owner)\<rparr>"

definition sample_dir :: string where "sample_dir = changelog_dir ''app''"

definition sample_added :: "string disk" where
  "sample_added = snd (append_change sample_reader sample_dir sample_change sample_changelog)"

lemma sample_kept: "changelog_kept sample_reader {sample_dir} sample_changelog"
  by (simp add: changelog_kept_def sample_changelog_def file_at_def node_at_def)

lemma sample_adds: "append_change sample_reader sample_dir sample_change sample_changelog = (Inr (), sample_added)"
proof -
  have "case fst (append_change sample_reader sample_dir sample_change sample_changelog) of Inr _ \<Rightarrow> True | Inl _ \<Rightarrow> False"
    by code_simp
  then show ?thesis
    by (cases "append_change sample_reader sample_dir sample_change sample_changelog")
      (auto simp: sample_added_def split: sum.splits)
qed

theorem changelog_stays_readable_witness:
  "read_all_changes sample_reader sample_dir sample_added \<noteq> Inl (LinesRefused ''x'' [])"
  using changelog_stays_readable [OF r_into_rtranclp [of "changelog_step sample_reader",
      OF changelog_step.Add [OF sample_adds]] sample_kept] by blast

section \<open>Releasing the changelog and undoing it\<close>

lemma read_changes_file:
  assumes "read_changes J p d = Inr g" and "file_at d p = Some (data, m)"
  shows "\<exists>f. g = Some f \<and> cf_path f = p \<and> data_lines J p data = (cf_lines f, [])"
proof -
  from assms obtain ls where "data_lines J p data = (ls, [])" "g = Some ((zero_file p)\<lparr>cf_lines := ls\<rparr>)"
    by (auto simp: read_changes_def read_bytes_def file_at_def rbind_eq_Inr parse_changes_Inr
        split: option.splits node.splits)
  then show ?thesis by (simp add: zero_file_def)
qed

lemma read_rendered:
  assumes "read_changes J p d = Inr g" and "file_at d p = Some (render_lines ts, m)"
    and "\<And>t. t \<in> set ts \<Longrightarrow> line_accepted J t"
  shows "\<exists>f. g = Some f \<and> cf_path f = p \<and> texts f = ts"
proof -
  from read_changes_file [OF assms(1,2)] obtain f where f: "g = Some f" "cf_path f = p"
    "data_lines J p (render_lines ts) = (cf_lines f, [])" by blast
  from parse_rendered [OF assms(3), of ts p] f(3) have "map ln_text (cf_lines f) = ts" by auto
  with f show ?thesis by (simp add: texts_def)
qed

lemma read_unreleased_rendered:
  assumes "read_unreleased J dir d = Inr f" and "file_at d (unreleased_path dir) = Some (render_lines ts, m)"
    and "\<And>t. t \<in> set ts \<Longrightarrow> line_accepted J t"
  shows "cf_path f = unreleased_path dir \<and> texts f = ts"
proof -
  from assms(1) obtain g where g: "read_changes J (unreleased_path dir) d = Inr g"
    and f: "f = (case g of None \<Rightarrow> zero_file (unreleased_path dir) | Some f \<Rightarrow> f)"
    by (auto simp: read_unreleased_def rbind_eq_Inr)
  from read_rendered [OF g assms(2,3)] f show ?thesis by auto
qed

lemma finalize_outcomes:
  assumes fin: "finalize J dir v d = (r, t)"
    and f: "read_changes J (unreleased_path dir) d = Inr (Some f)"
  shows "t = d \<and> (\<exists>e. r = Inl e) \<or>
    (\<exists>r1 s. node_at d (version_path dir v) = None \<and>
      put_changelog (version_path dir v) (render_lines (texts f)) readonly_mode d = (r1, s) \<and>
      (case r1 of Inl e \<Rightarrow> r = Inl e \<and> t = s | Inr _ \<Rightarrow> put_changelog (unreleased_path dir) [] default_mode s = (r, t)))"
proof -
  consider e where "there (version_path dir v) d = Inl e" | "there (version_path dir v) d = Inr True"
    | "there (version_path dir v) d = Inr False" "node_at d (version_path dir v) = None"
    by (cases "dk_unseen d (version_path dir v)"; cases "node_at d (version_path dir v)")
      (auto simp: there_def path_exists_def)
  then show ?thesis
  proof cases
    case 3
    obtain r1 s where p: "put_changelog (version_path dir v) (render_lines (texts f)) readonly_mode d = (r1, s)" by force
    with 3 fin f show ?thesis
      by (cases r1) (auto simp: finalize_def Let_def abind_def)
  qed (use fin in \<open>auto simp: finalize_def Let_def abind_def\<close>)
qed

text \<open>
  C17. A release loses no changelog line, wherever it stops: after finalizing the unreleased
  entries into the file of a version, whatever faults struck, the unreleased file is as it was or
  the file of the version holds every line read-only; it is emptied only then; a file the version
  already had is untouched, as is every other JSONL file; and success means both were written.
\<close>

theorem finalize_loses_nothing:
  assumes "finalize J dir v d = (r, t)" and "read_changes J (unreleased_path dir) d = Inr (Some f)"
  defines "new \<equiv> (render_lines (texts f), readonly_mode)"
  shows "(file_at t (unreleased_path dir) = file_at d (unreleased_path dir) \<or>
      file_at t (version_path dir v) = Some new \<and> file_at t (unreleased_path dir) = Some ([], default_mode)) \<and>
    (file_at d (version_path dir v) \<noteq> None \<longrightarrow> file_at t (version_path dir v) = file_at d (version_path dir v)) \<and>
    (has_suffix q jsonl_suffix \<longrightarrow> q \<notin> {unreleased_path dir, version_path dir v} \<longrightarrow> file_at t q = file_at d q) \<and>
    (r = Inr () \<longrightarrow> file_at t (version_path dir v) = Some new \<and> file_at t (unreleased_path dir) = Some ([], default_mode))"
  using finalize_outcomes [OF assms(1,2)]
proof
  assume "t = d \<and> (\<exists>e. r = Inl e)"
  then show ?thesis by auto
next
  let ?V = "version_path dir v" and ?U = "unreleased_path dir"
  assume "\<exists>r1 s. node_at d ?V = None \<and> put_changelog ?V (render_lines (texts f)) readonly_mode d = (r1, s) \<and>
      (case r1 of Inl e \<Rightarrow> r = Inl e \<and> t = s | Inr _ \<Rightarrow> put_changelog ?U [] default_mode s = (r, t))"
  then obtain r1 s where none: "node_at d ?V = None"
    and p: "put_changelog ?V (render_lines (texts f)) readonly_mode d = (r1, s)"
    and q: "case r1 of Inl e \<Rightarrow> r = Inl e \<and> t = s | Inr _ \<Rightarrow> put_changelog ?U [] default_mode s = (r, t)" by blast
  have none: "file_at d ?V = None" using none by (simp add: file_at_def)
  have s: "file_at s p = file_at d p" if "p \<noteq> ?V" "has_suffix p jsonl_suffix" for p
    using put_changelog_files(4) [OF p _ that] by simp
  show ?thesis
  proof (cases r1)
    case (Inl e)
    with q s none show ?thesis by auto
  next
    case (Inr u)
    with q have e: "put_changelog ?U [] default_mode s = (r, t)" by simp
    have V: "file_at s ?V = Some new"
      using put_changelog_files(3) [OF p] Inr by (simp add: new_def)
    have t: "file_at t p = file_at s p" if "p \<noteq> ?U" "has_suffix p jsonl_suffix" for p
      using put_changelog_files(4) [OF e _ that] by simp
    have "file_at t ?U \<in> {file_at s ?U, Some ([], default_mode)}"
      "r = Inr () \<longrightarrow> file_at t ?U = Some ([], default_mode)"
      using put_changelog_files(1,3) [OF e] by auto
    with V t s none show ?thesis by auto
  qed
qed

theorem finalize_loses_nothing_witness:
  "file_at (snd (finalize sample_reader sample_dir (Version 1 0 0)
       (sample_added\<lparr>dk_faults := [None, Some ''disk full'']\<rparr>))) (unreleased_path sample_dir) =
     Some (serialize sample_change @ [CHR 0x0A], default_mode)"
proof -
  let ?d = "sample_added\<lparr>dk_faults := [None, Some ''disk full'']\<rparr>"
  have U: "file_at sample_added (unreleased_path sample_dir) = Some (serialize sample_change @ [CHR 0x0A], default_mode)"
    by code_simp
  have "case read_changes sample_reader (unreleased_path sample_dir) ?d of Inr (Some _) \<Rightarrow> True | _ \<Rightarrow> False"
    by code_simp
  then obtain f where f: "read_changes sample_reader (unreleased_path sample_dir) ?d = Inr (Some f)"
    by (auto split: sum.splits option.splits)
  obtain r t where run: "finalize sample_reader sample_dir (Version 1 0 0) ?d = (r, t)" by force
  have "file_at (snd (finalize sample_reader sample_dir (Version 1 0 0) ?d)) (version_path sample_dir (Version 1 0 0)) = None"
    by code_simp
  with finalize_loses_nothing [OF run f] run U show ?thesis by auto
qed

lemma validated_texts: "file_ok J f \<Longrightarrow> validate_change J c = Inr () \<Longrightarrow> t \<in> set (texts f @ [serialize c]) \<Longrightarrow> line_accepted J t"
  using file_ok_texts validated_line by fastforce

lemma append_change_done:
  assumes "append_change J dir c d = (Inr (), t)" and "file_at d (unreleased_path dir) = Some (render_lines ts, m)"
    and "\<And>t. t \<in> set ts \<Longrightarrow> line_accepted J t"
  shows "file_at t (unreleased_path dir) = Some (render_lines (ts @ [serialize c]), m)"
    and "validate_change J c = Inr ()"
    and "has_suffix q jsonl_suffix \<Longrightarrow> q \<noteq> unreleased_path dir \<Longrightarrow> file_at t q = file_at d q"
proof -
  from assms(1) obtain f m' where f: "read_unreleased J dir d = Inr f" and v: "validate_change J c = Inr ()"
    and m': "mode_of (cf_path f) default_mode d = Inr m'"
    and p: "put_changelog (cf_path f) (render_lines (texts f @ [serialize c])) m' d = (Inr (), t)"
    by (auto simp: append_change_def append_line_def act_Inr)
  note r = read_unreleased_rendered [OF f assms(2,3)]
  have "m' = m" using mode_of_file [OF m'] assms(2) r by (auto simp: file_at_def split: option.splits node.splits)
  with p r have p: "put_changelog (unreleased_path dir) (render_lines (ts @ [serialize c])) m d = (Inr (), t)" by simp
  show "file_at t (unreleased_path dir) = Some (render_lines (ts @ [serialize c]), m)"
    using put_changelog_files(3) [OF p] by simp
  show "validate_change J c = Inr ()" by (rule v)
  show "has_suffix q jsonl_suffix \<Longrightarrow> q \<noteq> unreleased_path dir \<Longrightarrow> file_at t q = file_at d q"
    using put_changelog_files(4) [OF p] by simp
qed

lemma unfinalize_done:
  assumes "unfinalize_changes J dir v d = (Inr ps, t)"
    and V: "file_at d (version_path dir v) = Some (render_lines ts, m)" and U: "file_at d (unreleased_path dir) = Some (render_lines us, n)"
    and acc: "\<And>t. t \<in> set (ts @ us) \<Longrightarrow> line_accepted J t"
  shows "file_at t (unreleased_path dir) = Some (render_lines (ts @ us), default_mode)"
    and "file_at t (version_path dir v) = None" and "ps = [unreleased_path dir, version_path dir v]"
    and "has_suffix q jsonl_suffix \<Longrightarrow> q \<notin> {unreleased_path dir, version_path dir v} \<Longrightarrow> file_at t q = file_at d q"
proof -
  from assms(1) obtain g where g: "read_changes J (version_path dir v) d = Inr g"
    by (auto simp: unfinalize_changes_def Let_def act_Inr)
  from read_rendered [OF g V] acc obtain f where f: "g = Some f" "texts f = ts" by auto
  from assms(1) g f obtain u s where u: "read_unreleased J dir d = Inr u"
    and p: "put_changelog (cf_path u) (render_lines (ts @ texts u)) default_mode d = (Inr (), s)"
    and r: "eff_remove (version_path dir v) s = (Inr (), t)" and ps: "ps = [cf_path u, version_path dir v]"
    by (auto simp: unfinalize_changes_def Let_def act_Inr)
  from read_unreleased_rendered [OF u U] acc have u: "cf_path u = unreleased_path dir" "texts u = us" by auto
  note p = p [unfolded u]
  from remove_node_files [OF perform_Inr [OF r]] have t: "file_at t (version_path dir v) = None"
    "\<And>q. q \<noteq> version_path dir v \<Longrightarrow> file_at t q = file_at s q" by (auto simp: only_files_def)
  show "file_at t (unreleased_path dir) = Some (render_lines (ts @ us), default_mode)"
    using t(2) [of "unreleased_path dir"] put_changelog_files(3) [OF p] by simp
  show "file_at t (version_path dir v) = None" by (rule t)
  show "ps = [unreleased_path dir, version_path dir v]" using ps u by simp
  show "has_suffix q jsonl_suffix \<Longrightarrow> q \<notin> {unreleased_path dir, version_path dir v} \<Longrightarrow> file_at t q = file_at d q"
    using t(2) put_changelog_files(4) [OF p] by simp
qed

text \<open>
  C18. Undoing a release gives the changelog back: after the unreleased entries were finalized
  into a version, another entry was added, and the release was undone, the unreleased file holds
  the released lines first and the new entry after them, the file of the version is gone, and
  every other JSONL file is as it was before the release.
\<close>

theorem finalize_then_undo:
  assumes fin: "finalize J dir v d = (Inr (), s)" and f: "read_changes J (unreleased_path dir) d = Inr (Some f)"
    and add: "append_change J dir c s = (Inr (), t)" and undo: "unfinalize_changes J dir v t = (Inr ps, u)"
    and q: "has_suffix q jsonl_suffix" "q \<notin> {unreleased_path dir, version_path dir v}"
  shows "file_at u (unreleased_path dir) = Some (render_lines (texts f @ [serialize c]), default_mode) \<and>
    file_at u (version_path dir v) = None \<and> file_at u q = file_at d q"
proof -
  let ?V = "version_path dir v" and ?U = "unreleased_path dir"
  have ok: "file_ok J f" using read_changes_ok [OF f] by simp
  from finalize_outcomes [OF fin f] obtain r1 e where
    r1: "put_changelog ?V (render_lines (texts f)) readonly_mode d = (r1, e)"
    "case r1 of Inl e' \<Rightarrow> Inr () = Inl e' \<and> s = e | Inr _ \<Rightarrow> put_changelog ?U [] default_mode e = (Inr (), s)"
    by auto
  then have p: "put_changelog ?V (render_lines (texts f)) readonly_mode d = (Inr (), e)"
    and p2: "put_changelog ?U [] default_mode e = (Inr (), s)"
    by (cases r1; simp)+
  have s: "file_at s ?U = Some (render_lines [], default_mode)" "file_at s ?V = Some (render_lines (texts f), readonly_mode)"
    "file_at s q = file_at d q"
    using put_changelog_files(3,4) [OF p] put_changelog_files(3,4) [OF p2] q by (simp_all add: render_lines_def)
  note a = append_change_done [OF add s(1), simplified]
  have "\<And>t. t \<in> set (texts f @ [serialize c]) \<Longrightarrow> line_accepted J t"
    using validated_texts [OF ok a(2)] by blast
  from unfinalize_done [OF undo _ a(1) this, of "texts f" readonly_mode] a(3) s q show ?thesis by simp
qed

theorem finalize_then_undo_witness:
  "file_at (snd (unfinalize_changes sample_reader sample_dir (Version 1 0 0)
      (snd (append_change sample_reader sample_dir sample_change
        (snd (finalize sample_reader sample_dir (Version 1 0 0) sample_added)))))) (unreleased_path sample_dir) =
     Some (render_lines [serialize sample_change, serialize sample_change], default_mode)"
proof -
  have runs: "case finalize sample_reader sample_dir (Version 1 0 0) sample_added of (Inr _, s) \<Rightarrow>
      (case append_change sample_reader sample_dir sample_change s of (Inr _, t) \<Rightarrow>
        (case unfinalize_changes sample_reader sample_dir (Version 1 0 0) t of (Inr _, _) \<Rightarrow> True | _ \<Rightarrow> False) | _ \<Rightarrow> False)
      | _ \<Rightarrow> False"
    by code_simp
  have "(case read_changes sample_reader (unreleased_path sample_dir) sample_added of
      Inr (Some f) \<Rightarrow> texts f = [serialize sample_change] | _ \<Rightarrow> False)" by code_simp
  then obtain f where f: "read_changes sample_reader (unreleased_path sample_dir) sample_added = Inr (Some f)"
    "texts f = [serialize sample_change]" by (auto split: sum.splits option.splits)
  from runs obtain s t ps u where r: "finalize sample_reader sample_dir (Version 1 0 0) sample_added = (Inr (), s)"
    "append_change sample_reader sample_dir sample_change s = (Inr (), t)"
    "unfinalize_changes sample_reader sample_dir (Version 1 0 0) t = (Inr ps, u)"
    by (auto split: prod.splits sum.splits)
  have "has_suffix ''x.jsonl'' jsonl_suffix" by code_simp
  moreover have "''x.jsonl'' \<notin> {unreleased_path sample_dir, version_path sample_dir (Version 1 0 0)}" by code_simp
  ultimately show ?thesis
    using finalize_then_undo [OF r(1) f(1) r(2,3), of "''x.jsonl''"] r f(2) by simp
qed

end
