(* ===== verification/Changelog_Coverage.thy ===== *)
theory Changelog_Coverage
  imports Changelog_Files Release_Record Ownership
begin

text \<open>
  internal/changelog/exempt.go, subject.go, validate.go, prepush.go and the preparation of
  entries in compose.go: the unreleased range of a releasable, the commits of it that need an
  entry, the findings about entries (commits that do not resolve, lie outside the range or
  belong to another releasable), the limits, and what an entry must keep before it is written.
  A finding is a constructor with the data its sentence prints. Git's answers are a record of
  functions.
\<close>

section \<open>Git and the subject\<close>

record 'g changelog_git =
  cg_resolve :: "'g resolver"
  cg_files :: "string \<Rightarrow> ('g, string list) result"
  cg_trailers :: "string \<Rightarrow> string \<Rightarrow> ('g, string list) result"
  cg_bad_trailer :: "string \<Rightarrow> string \<Rightarrow> string list \<Rightarrow> 'g"
  cg_commits :: "string list \<Rightarrow> string list \<Rightarrow> ('g, string list) result"
  cg_head :: "('g, string) result"

record ('e, 'g) subject =
  su_git :: "'g changelog_git"
  su_workspace :: releasables
  su_releasable :: string
  su_record :: "('e, 'g) rec"
  su_exclude :: "string list"

datatype ('e, 'g) subject_error =
    SubjectGit 'g
  | SubjectRecord "('e, 'g) read_error"
  | NoSuchSubject string "string list"
  | SubjectScheme scheme_error
  | UnversionedMember string string
  | NoMemberAt string

definition new_subject ::
  "'g changelog_git \<Rightarrow> releasables \<Rightarrow> string \<Rightarrow> (tag_scheme \<Rightarrow> ('e, 'g) rec) \<Rightarrow> string list \<Rightarrow>
     (('e, 'g) subject_error, ('e, 'g) subject) result" where
  "new_subject git w r new_record exclude =
     (case find_releasable w r of
        None \<Rightarrow> Inl (NoSuchSubject r (map r_name (d_releasables w)))
      | Some rel \<Rightarrow>
          (case scheme_of rel of
             Inl e \<Rightarrow> Inl (SubjectScheme e)
           | Inr scheme \<Rightarrow>
               Inr \<lparr>su_git = git, su_workspace = w, su_releasable = r, su_record = new_record scheme,
                    su_exclude = exclude\<rparr>))"

definition subject_at :: "releasables \<Rightarrow> member \<Rightarrow> (('e, 'g) subject_error, string) result" where
  "subject_at w m =
     (case releasable_of w m of
        None \<Rightarrow> Inl (UnversionedMember (m_name m) (m_path m))
      | Some r \<Rightarrow> Inr (r_name r))"

definition subject_dir :: "('e, 'g) subject \<Rightarrow> string" where
  "subject_dir s = changelog_dir (su_releasable s)"

definition subject_scope :: "('e, 'g) subject \<Rightarrow> scope" where
  "subject_scope s = scope_of_releasable (su_workspace s) (su_releasable s)"

record commit_range =
  rg_base :: string
  rg_head :: string
  rg_commits :: "string list"

definition range_contains :: "commit_range \<Rightarrow> string \<Rightarrow> bool" where
  "range_contains rng sha \<longleftrightarrow> sha \<in> set (rg_commits rng)"

definition unreleased_range :: "('e, 'g) subject \<Rightarrow> (('e, 'g) subject_error, commit_range) result" where
  "unreleased_range s =
     rbind (with_error SubjectGit (cg_head (su_git s))) (\<lambda>head.
     rbind (with_error SubjectRecord (nearest (su_record s) head)) (\<lambda>near.
     let base = (case near of None \<Rightarrow> [] | Some e \<Rightarrow> e_release_commit e);
         exclude = (case near of None \<Rightarrow> su_exclude s | Some e \<Rightarrow> e_release_commit e # su_exclude s)
     in rbind (with_error SubjectGit (cg_commits (su_git s) [head] exclude)) (\<lambda>commits.
        Inr \<lparr>rg_base = base, rg_head = head, rg_commits = commits\<rparr>)))"

text \<open>Who owns the files of a commit a scope does not claim; no part is NoDeclaredOwner.\<close>

datatype owner_part = OwnedByMember string string | OwnedByState string

definition foreign_owner :: "'g changelog_git \<Rightarrow> releasables \<Rightarrow> scope \<Rightarrow> string \<Rightarrow> ('g, owner_part list) result" where
  "foreign_owner git w sc sha =
     rbind (cg_files git sha) (\<lambda>fs.
       let foreign = filter (\<lambda>f. \<not> scope_claims sc f) fs;
           members = concat (map (\<lambda>f. case owner_of w f of Some m \<Rightarrow> [(m_name m, m_releasable m)] | None \<Rightarrow> []) foreign);
           states = concat (map (\<lambda>f. case owner_of w f of
                       Some _ \<Rightarrow> []
                     | None \<Rightarrow> (case state_dir_releasable f of Some r \<Rightarrow> [r] | None \<Rightarrow> [])) foreign)
       in Inr (map (\<lambda>n. OwnedByMember n (the (map_of (rev members) n))) (sorted_set (map fst members))
               @ map OwnedByState (sorted_set states)))"

definition markdown_name :: string where "markdown_name = ''CHANGELOG.md''"

definition changelog_home :: "releasables \<Rightarrow> string \<Rightarrow> string" where
  "changelog_home d r = (if is_workspace d then changelog_dir r @ ''/'' @ markdown_name else markdown_name)"

section \<open>Exemptions and coverage\<close>

datatype exemption = ExemptAutogenerated | ExemptChangelogOnly

text \<open>IsAutogenerated: a commit carries the trailer once, as true or false, or not at all.\<close>

definition autogenerated_trailer :: string where "autogenerated_trailer = ''Autogenerated''"

definition is_autogenerated :: "'g changelog_git \<Rightarrow> string \<Rightarrow> ('g, bool) result" where
  "is_autogenerated git sha =
     rbind (cg_trailers git sha autogenerated_trailer) (\<lambda>values.
       if values = [] then Inr False
       else if values = [''true''] then Inr True
       else if values = [''false''] then Inr False
       else Inl (cg_bad_trailer git sha autogenerated_trailer values))"

definition exemption_of :: "'g changelog_git \<Rightarrow> string \<Rightarrow> ('g, exemption option) result" where
  "exemption_of git sha =
     rbind (is_autogenerated git sha) (\<lambda>auto.
       if auto then Inr (Some ExemptAutogenerated)
       else rbind (cg_files git sha) (\<lambda>fs.
              Inr (if fs = [] then None
                   else if list_all is_tool_owned fs then Some ExemptChangelogOnly else None)))"

record exemption_stats =
  xs_autogenerated :: nat
  xs_changelog_only :: nat

fun filter_exempt :: "'g changelog_git \<Rightarrow> string list \<Rightarrow> ('g, string list \<times> exemption_stats) result" where
  "filter_exempt git [] = Inr ([], \<lparr>xs_autogenerated = 0, xs_changelog_only = 0\<rparr>)"
| "filter_exempt git (sha # shas) =
     rbind (exemption_of git sha) (\<lambda>why.
     rbind (filter_exempt git shas) (\<lambda>(kept, stats).
       Inr (case why of
              Some ExemptAutogenerated \<Rightarrow> (kept, stats\<lparr>xs_autogenerated := Suc (xs_autogenerated stats)\<rparr>)
            | Some ExemptChangelogOnly \<Rightarrow> (kept, stats\<lparr>xs_changelog_only := Suc (xs_changelog_only stats)\<rparr>)
            | None \<Rightarrow> (sha # kept, stats))))"

record needing =
  nd_commits :: "string list"
  nd_stats :: exemption_stats
  nd_outside_scope :: nat

definition commits_needing_entries ::
  "'g changelog_git \<Rightarrow> string list \<Rightarrow> scope \<Rightarrow> string set \<Rightarrow> ('g, needing) result" where
  "commits_needing_entries git commits sc covered =
     (let unique = dedupe commits
      in rbind (filter_commits (cg_files git) unique sc) (\<lambda>in_scope.
         let uncovered = sort (filter (\<lambda>c. c \<notin> covered) in_scope)
         in rbind (filter_exempt git uncovered) (\<lambda>(kept, stats).
            Inr \<lparr>nd_commits = kept, nd_stats = stats, nd_outside_scope = length unique - length in_scope\<rparr>)))"

fun resolve_all :: "'g resolver \<Rightarrow> string list \<Rightarrow> ('g, string list) result" where
  "resolve_all res [] = Inr []"
| "resolve_all res (h # hs) =
     rbind (res h) (\<lambda>full.
     rbind (resolve_all res hs) (\<lambda>fulls.
       Inr (case full of Some f \<Rightarrow> f # fulls | None \<Rightarrow> fulls)))"

definition file_commits :: "change_file \<Rightarrow> string list" where
  "file_commits f = concat (map ch_commits (file_changes f))"

definition covered_commits :: "'g changelog_git \<Rightarrow> change_file \<Rightarrow> ('g, string set) result" where
  "covered_commits git f = rbind (resolve_all (cg_resolve git) (file_commits f)) (\<lambda>cs. Inr (set cs))"

definition coverage_of :: "('e, 'g) subject \<Rightarrow> change_file \<Rightarrow> commit_range \<Rightarrow> ('g, needing) result" where
  "coverage_of s f rng =
     rbind (covered_commits (su_git s) f) (\<lambda>covered.
       commits_needing_entries (su_git s) (rg_commits rng) (subject_scope s) covered)"

text \<open>What a push sends.\<close>

record pushed_ref =
  pr_local :: string
  pr_remote :: string

definition null_object_id :: "string \<Rightarrow> bool" where
  "null_object_id h \<longleftrightarrow> (length h = 40 \<or> length h = 64) \<and> list_all (\<lambda>c. c = CHR ''0'') h"

fun pushed_loop ::
  "'g changelog_git \<Rightarrow> string list \<Rightarrow> string list \<Rightarrow> pushed_ref list \<Rightarrow>
     ('g, string list \<times> pushed_ref list) result" where
  "pushed_loop git exclude sent [] = Inr ([], [])"
| "pushed_loop git exclude sent (ref # refs) =
     (if null_object_id (pr_local ref) then pushed_loop git exclude sent refs
      else rbind (if null_object_id (pr_remote ref) then Inr (Some (''--remotes'' # exclude))
                  else rbind (cg_resolve git (pr_remote ref)) (\<lambda>found.
                         Inr (if found = None then None else Some (pr_remote ref # exclude)))) (\<lambda>stop.
           case stop of
             None \<Rightarrow> rbind (pushed_loop git exclude sent refs) (\<lambda>(cs, rw). Inr (cs, ref # rw))
           | Some stop \<Rightarrow>
               rbind (cg_commits git [pr_local ref] stop) (\<lambda>commits.
               let fresh = dedupe_loop sent commits
               in rbind (pushed_loop git exclude (sent @ fresh) refs) (\<lambda>(cs, rw). Inr (fresh @ cs, rw)))))"

definition pushed_commits ::
  "'g changelog_git \<Rightarrow> pushed_ref list \<Rightarrow> string list \<Rightarrow> ('g, string list \<times> pushed_ref list) result" where
  "pushed_commits git refs exclude = pushed_loop git exclude [] refs"

definition push_coverage :: "'g changelog_git \<Rightarrow> change_file list \<Rightarrow> string list \<Rightarrow> ('g, string list) result" where
  "push_coverage git files pushed =
     rbind (filter_exempt git pushed) (\<lambda>(needing, _).
     rbind (resolve_all (cg_resolve git) (concat (map file_commits files))) (\<lambda>covered.
       Inr (map short_sha (filter (\<lambda>c. c \<notin> set covered) needing))))"

definition tracked_records :: "releasables \<Rightarrow> string \<Rightarrow> string list" where
  "tracked_records d r =
     [unreleased_path (changelog_dir r), changelog_home d r] @ (if is_workspace d then [markdown_name] else [])"

section \<open>Findings\<close>

definition max_commits_per_entry :: nat where "max_commits_per_entry = 5"
definition max_entries_per_commit :: nat where "max_entries_per_commit = 5"

datatype finding =
    DoesNotResolve nat string string nat nat
  | NotUnreleased nat string string string string
  | NoChangelogCovers nat string string string string
  | WrongReleasable nat string string string "owner_part list" string string
  | StaleEntry nat string nat nat nat "string list" string
  | TooManyCommits nat string nat "string list" string
  | TooManyEntries string nat "string list"

fun line_hash_findings :: "'g resolver \<Rightarrow> string list \<Rightarrow> ('g, string list) result" where
  "line_hash_findings res [] = Inr []"
| "line_hash_findings res (h # hs) =
     rbind (res h) (\<lambda>full.
     rbind (line_hash_findings res hs) (\<lambda>bad. Inr (if full = None then h # bad else bad)))"

definition hash_findings :: "'g resolver \<Rightarrow> change_file \<Rightarrow> ('g, finding list) result" where
  "hash_findings res f =
     rbind (rmap (\<lambda>l. let cs = ch_commits (ln_change l)
                      in rbind (line_hash_findings res cs) (\<lambda>bad.
                           Inr (map (\<lambda>h. DoesNotResolve (ln_number l) (cf_path f) h (length cs - length bad) (length cs)) bad)))
             (cf_lines f)) (\<lambda>fs. Inr (concat fs))"

definition type_or_feature :: "change \<Rightarrow> string" where
  "type_or_feature c = (if ch_type c \<noteq> [] then ch_type c else type_feature)"

definition out_of_scope_finding ::
  "('e, 'g) subject \<Rightarrow> change_file \<Rightarrow> change_line \<Rightarrow> string \<Rightarrow> string \<Rightarrow> ('g, finding) result" where
  "out_of_scope_finding s f l raw full =
     rbind (foreign_owner (su_git s) (su_workspace s) (subject_scope s) full) (\<lambda>owner.
       Inr (if owner = [] then NoChangelogCovers (ln_number l) (cf_path f) raw full (removal_command (ln_change l))
            else WrongReleasable (ln_number l) (cf_path f) raw full owner (removal_command (ln_change l))
                   (type_or_feature (ln_change l))))"

text \<open>The loop over the commits of every line, each resolved commit reported once.\<close>

fun range_loop ::
  "('e, 'g) subject \<Rightarrow> change_file \<Rightarrow> commit_range \<Rightarrow> string list \<Rightarrow> string list \<Rightarrow>
     (change_line \<times> string) list \<Rightarrow> ('g, finding list) result" where
  "range_loop s f rng in_scope reported [] = Inr []"
| "range_loop s f rng in_scope reported ((l, raw) # rest) =
     rbind (cg_resolve (su_git s) raw) (\<lambda>full.
       case full of
         None \<Rightarrow> range_loop s f rng in_scope reported rest
       | Some full \<Rightarrow>
           if full \<in> set in_scope \<or> full \<in> set reported then range_loop s f rng in_scope reported rest
           else rbind (if \<not> range_contains rng full
                       then Inr (NotUnreleased (ln_number l) (cf_path f) raw full (su_releasable s))
                       else out_of_scope_finding s f l raw full) (\<lambda>finding.
                rbind (range_loop s f rng in_scope (full # reported) rest) (\<lambda>fs. Inr (finding # fs))))"

definition line_commits :: "change_file \<Rightarrow> (change_line \<times> string) list" where
  "line_commits f = concat (map (\<lambda>l. map (Pair l) (ch_commits (ln_change l))) (cf_lines f))"

definition range_findings :: "('e, 'g) subject \<Rightarrow> change_file \<Rightarrow> commit_range \<Rightarrow> ('g, finding list) result" where
  "range_findings s f rng =
     rbind (filter_commits (cg_files (su_git s)) (rg_commits rng) (subject_scope s)) (\<lambda>in_scope.
       range_loop s f rng in_scope [] (line_commits f))"

datatype place_kind = PlaceUnresolvable | PlaceLive | PlaceOutOfScope | PlaceOutOfRange

definition commit_place :: "('e, 'g) subject \<Rightarrow> string list \<Rightarrow> commit_range \<Rightarrow> string \<Rightarrow> ('g, place_kind) result" where
  "commit_place s in_scope rng h =
     rbind (cg_resolve (su_git s) h) (\<lambda>full.
       Inr (case full of
              None \<Rightarrow> PlaceUnresolvable
            | Some full \<Rightarrow>
                if full \<in> set in_scope then PlaceLive
                else if range_contains rng full then PlaceOutOfScope else PlaceOutOfRange))"

definition at_place :: "place_kind \<Rightarrow> (string \<times> place_kind) list \<Rightarrow> string list" where
  "at_place p hs = map fst (filter (\<lambda>(_, q). q = p) hs)"

definition orphan_line ::
  "('e, 'g) subject \<Rightarrow> change_file \<Rightarrow> string list \<Rightarrow> commit_range \<Rightarrow> change_line \<Rightarrow> ('g, finding list) result" where
  "orphan_line s f in_scope rng l =
     rbind (rmap (commit_place s in_scope rng) (ch_commits (ln_change l))) (\<lambda>places.
       let hs = zip (ch_commits (ln_change l)) places;
           unresolvable = at_place PlaceUnresolvable hs;
           out_of_range = at_place PlaceOutOfRange hs;
           out_of_scope = at_place PlaceOutOfScope hs
       in Inr (if at_place PlaceLive hs \<noteq> [] then []
               else [StaleEntry (ln_number l) (cf_path f) (length unresolvable) (length out_of_range)
                       (length out_of_scope) (unresolvable @ out_of_range @ out_of_scope)
                       (removal_command (ln_change l))]))"

definition orphan_findings :: "('e, 'g) subject \<Rightarrow> change_file \<Rightarrow> commit_range \<Rightarrow> ('g, finding list) result" where
  "orphan_findings s f rng =
     rbind (filter_commits (cg_files (su_git s)) (rg_commits rng) (subject_scope s)) (\<lambda>in_scope.
     rbind (rmap (orphan_line s f in_scope rng) (cf_lines f)) (\<lambda>fs. Inr (concat fs)))"

definition has_user_facing :: "change list \<Rightarrow> bool" where
  "has_user_facing cs = list_ex ch_user_facing cs"

datatype audience_problem = InfraHasUserFacing | NoUserFacing bump

definition user_facing_problem :: "change list \<Rightarrow> bump \<Rightarrow> audience_problem option" where
  "user_facing_problem cs b =
     (if b = bump_infra then (if has_user_facing cs then Some InfraHasUserFacing else None)
      else if \<not> has_user_facing cs then Some (NoUserFacing b) else None)"

definition batch_commit_findings :: "change_file \<Rightarrow> string set \<Rightarrow> finding list" where
  "batch_commit_findings f squashes =
     concat (map (\<lambda>l. let c = ln_change l; counted = length (filter (\<lambda>h. h \<notin> squashes) (ch_commits c))
                      in if counted \<le> max_commits_per_entry \<or> ch_batch_reason c \<noteq> [] then []
                         else [TooManyCommits (ln_number l) (cf_path f) (length (ch_commits c))
                                 (map short_sha (ch_commits c)) (removal_command c)])
       (cf_lines f))"

text \<open>The places of a commit across files: each line that names it, once.\<close>

definition commit_places :: "change_file list \<Rightarrow> string set \<Rightarrow> (string \<times> string) list" where
  "commit_places fs squashes =
     concat (map (\<lambda>f. concat (map (\<lambda>l. map (\<lambda>h. (h, cf_path f @ '':'' @ dec_of_nat (ln_number l)))
         (filter (\<lambda>h. h \<notin> squashes) (dedupe (ch_commits (ln_change l))))) (cf_lines f))) fs)"

definition places_of :: "string \<Rightarrow> (string \<times> string) list \<Rightarrow> string list" where
  "places_of h ps = map snd (filter (\<lambda>(q, _). q = h) ps)"

definition batch_entry_findings :: "change_file list \<Rightarrow> string set \<Rightarrow> finding list" where
  "batch_entry_findings fs squashes =
     (let ps = commit_places fs squashes
      in map (\<lambda>h. TooManyEntries (short_sha h) (length (places_of h ps)) (places_of h ps))
           (filter (\<lambda>h. length (places_of h ps) > max_entries_per_commit) (sorted_set (map fst ps))))"

section \<open>Preparing an entry\<close>

record entry_request =
  rq_commits :: "string list"
  rq_user_facing :: bool
  rq_description :: string
  rq_type :: string
  rq_batch_reason :: string
  rq_unresolved :: bool

datatype 'g prepare_error =
    PrepareGit 'g
  | NamesNoCommit
  | CommitUnresolved string
  | CommitOutsideScope string string "owner_part list"
  | LacksProse
  | NeedsBatchReason nat
  | NeedsNoBatchReason nat
  | EntryRefused line_error
  | AlreadyCovered string string string

datatype overlap_note = AlsoIn string string string

fun resolve_each :: "'g resolver \<Rightarrow> string list \<Rightarrow> ('g prepare_error, string list) result" where
  "resolve_each res [] = Inr []"
| "resolve_each res (c # cs) =
     rbind (with_error PrepareGit (res c)) (\<lambda>full.
       case full of
         None \<Rightarrow> Inl (CommitUnresolved c)
       | Some full \<Rightarrow> rbind (resolve_each res cs) (\<lambda>fulls. Inr (full # fulls)))"

definition require_in_scope :: "('e, 'g) subject \<Rightarrow> string list \<Rightarrow> ('g prepare_error, unit) result" where
  "require_in_scope s commits =
     rbind (with_error PrepareGit (filter_commits (cg_files (su_git s)) commits (subject_scope s))) (\<lambda>kept.
       case List.find (\<lambda>c. c \<notin> set kept) commits of
         None \<Rightarrow> Inr ()
       | Some c \<Rightarrow>
           rbind (with_error PrepareGit (foreign_owner (su_git s) (su_workspace s) (subject_scope s) c)) (\<lambda>owner.
             Inl (CommitOutsideScope (short_sha c) (su_releasable s) owner)))"

definition packages_of :: "('e, 'g) subject \<Rightarrow> string list \<Rightarrow> ('g, string list option) result" where
  "packages_of s commits =
     rbind (rmap (commit_owner_names (su_workspace s) (cg_files (su_git s))) commits) (\<lambda>owners.
       let affected = filter (\<lambda>n. list_ex (\<lambda>names. n \<in> names) owners) (map m_name (scope_members (subject_scope s)))
       in Inr (if affected = [] then None else Some (sorted_set affected)))"

fun overlap_olds :: "change \<Rightarrow> string \<Rightarrow> change list \<Rightarrow> ('g prepare_error, overlap_note list) result" where
  "overlap_olds e c [] = Inr []"
| "overlap_olds e c (old # olds) =
     (if c \<notin> set (ch_commits old) then overlap_olds e c olds
      else (let described = (if ch_description old = [] then ''(no description)'' else ch_description old)
            in if ch_user_facing old = ch_user_facing e \<and> ch_type old = ch_type e
               then Inl (AlreadyCovered (short_sha c) (ch_id old) described)
               else rbind (overlap_olds e c olds) (\<lambda>ns. Inr (AlsoIn (short_sha c) (ch_id old) described # ns))))"

definition overlaps :: "change list \<Rightarrow> change \<Rightarrow> ('g prepare_error, overlap_note list) result" where
  "overlaps existing e =
     rbind (rmap (\<lambda>c. overlap_olds e c existing) (ch_commits e)) (\<lambda>ns. Inr (concat ns))"

definition prepare ::
  "json_reader \<Rightarrow> string \<Rightarrow> ('e, 'g) subject \<Rightarrow> entry_request \<Rightarrow> change list \<Rightarrow>
     ('g prepare_error, change \<times> overlap_note list) result" where
  "prepare J new_id s req existing =
     (let given = filter ((\<noteq>) []) (map trim_space (rq_commits req))
      in rguard (given = []) NamesNoCommit
      (rbind (if rq_unresolved req then Inr given
              else rbind (resolve_each (cg_resolve (su_git s)) given) (\<lambda>commits.
                   rbind (require_in_scope s commits) (\<lambda>_. Inr commits))) (\<lambda>commits.
       rguard (rq_user_facing req \<and> (rq_description req = [] \<or> rq_type req = [])) LacksProse
      (rguard (length commits > max_commits_per_entry \<and> rq_batch_reason req = []) (NeedsBatchReason (length commits))
      (rguard (length commits \<le> max_commits_per_entry \<and> rq_batch_reason req \<noteq> []) (NeedsNoBatchReason (length commits))
      (rbind (if is_workspace (su_workspace s) \<and> \<not> rq_unresolved req
              then with_error PrepareGit (packages_of s commits) else Inr None) (\<lambda>packages.
       let e = \<lparr>ch_id = new_id, ch_commits = commits, ch_user_facing = rq_user_facing req,
                ch_description = rq_description req, ch_type = rq_type req, ch_packages = packages,
                ch_batch_reason = rq_batch_reason req\<rparr>
       in rbind (with_error EntryRefused (validate_change J e)) (\<lambda>_.
          rbind (overlaps existing e) (\<lambda>notes. Inr (e, notes))))))))))"

section \<open>Coverage\<close>

definition claimed :: "'g changelog_git \<Rightarrow> scope \<Rightarrow> string \<Rightarrow> bool" where
  "claimed git sc c = (case cg_files git c of Inr fs \<Rightarrow> claims_any sc fs | Inl _ \<Rightarrow> False)"

lemma filter_commits_claimed:
  "filter_commits (cg_files git) cs sc = Inr kept \<Longrightarrow> kept = filter (claimed git sc) cs"
  by (induction cs arbitrary: kept) (auto simp: rbind_eq_Inr claimed_def)

lemma filter_exempt_Inr:
  assumes "filter_exempt git cs = Inr (kept, stats)"
  shows "kept = filter (\<lambda>c. exemption_of git c = Inr None) cs"
    and "xs_autogenerated stats = length (filter (\<lambda>c. exemption_of git c = Inr (Some ExemptAutogenerated)) cs)"
    and "xs_changelog_only stats = length (filter (\<lambda>c. exemption_of git c = Inr (Some ExemptChangelogOnly)) cs)"
    and "length cs = length kept + xs_autogenerated stats + xs_changelog_only stats"
proof -
  have "kept = filter (\<lambda>c. exemption_of git c = Inr None) cs \<and>
    xs_autogenerated stats = length (filter (\<lambda>c. exemption_of git c = Inr (Some ExemptAutogenerated)) cs) \<and>
    xs_changelog_only stats = length (filter (\<lambda>c. exemption_of git c = Inr (Some ExemptChangelogOnly)) cs) \<and>
    length cs = length kept + xs_autogenerated stats + xs_changelog_only stats"
    using assms
  proof (induction cs arbitrary: kept stats)
    case (Cons c cs)
    then obtain why k st where c: "exemption_of git c = Inr why" and r: "filter_exempt git cs = Inr (k, st)"
      and e: "(kept, stats) = (case why of
          Some ExemptAutogenerated \<Rightarrow> (k, st\<lparr>xs_autogenerated := Suc (xs_autogenerated st)\<rparr>)
        | Some ExemptChangelogOnly \<Rightarrow> (k, st\<lparr>xs_changelog_only := Suc (xs_changelog_only st)\<rparr>)
        | None \<Rightarrow> (c # k, st))"
      by (auto simp: rbind_eq_Inr)
    show ?case
    proof (cases why)
      case None
      with Cons.IH [OF r] c e show ?thesis by simp
    next
      case (Some x)
      with Cons.IH [OF r] c e show ?thesis by (cases x) simp_all
    qed
  qed simp
  then show "kept = filter (\<lambda>c. exemption_of git c = Inr None) cs"
    "xs_autogenerated stats = length (filter (\<lambda>c. exemption_of git c = Inr (Some ExemptAutogenerated)) cs)"
    "xs_changelog_only stats = length (filter (\<lambda>c. exemption_of git c = Inr (Some ExemptChangelogOnly)) cs)"
    "length cs = length kept + xs_autogenerated stats + xs_changelog_only stats" by auto
qed

text \<open>
  C19. Changelog coverage asks an entry for exactly the commits that need one: of the commits it
  is given, those that touch a file the scope claims, that no entry names and that are not
  exempt, each once and sorted; and every commit is accounted for once, as needing an entry,
  autogenerated, changelog-only, covered, or outside the scope.
\<close>

theorem coverage_spec:
  assumes "commits_needing_entries git commits sc covered = Inr nd"
  shows "set (nd_commits nd) = {c \<in> set commits. claimed git sc c \<and> c \<notin> covered \<and> exemption_of git c = Inr None} \<and>
    sorted (nd_commits nd) \<and> distinct (nd_commits nd) \<and>
    card (set commits) = length (nd_commits nd) + xs_autogenerated (nd_stats nd) + xs_changelog_only (nd_stats nd) +
      card {c \<in> set commits. claimed git sc c \<and> c \<in> covered} + nd_outside_scope nd"
proof -
  define scoped where "scoped = filter (claimed git sc) (dedupe commits)"
  define unc where "unc = sort (filter (\<lambda>c. c \<notin> covered) scoped)"
  from assms obtain kept stats where x: "filter_exempt git unc = Inr (kept, stats)"
    and nd: "nd = \<lparr>nd_commits = kept, nd_stats = stats, nd_outside_scope = length (dedupe commits) - length scoped\<rparr>"
    by (auto simp: commits_needing_entries_def Let_def rbind_eq_Inr scoped_def unc_def dest!: filter_commits_claimed)
  note k = filter_exempt_Inr [OF x]
  have d: "distinct scoped" by (simp add: scoped_def)
  have len: "length (dedupe commits) = card (set commits)"
    using distinct_card [OF distinct_dedupe, of commits] by simp
  have "length scoped = length (filter (\<lambda>c. c \<in> covered) scoped) + length unc"
    using sum_length_filter_compl [of "\<lambda>c. c \<in> covered" scoped] by (simp add: unc_def)
  moreover have "length (filter (\<lambda>c. c \<in> covered) scoped) = card {c \<in> set commits. claimed git sc c \<and> c \<in> covered}"
  proof -
    have "set (filter (\<lambda>c. c \<in> covered) scoped) = {c \<in> set commits. claimed git sc c \<and> c \<in> covered}"
      by (auto simp: scoped_def)
    with distinct_card [OF distinct_filter [OF d]] show ?thesis by metis
  qed
  moreover have "length scoped \<le> length (dedupe commits)" by (simp add: scoped_def)
  ultimately have "card (set commits) = length kept + xs_autogenerated stats + xs_changelog_only stats +
      card {c \<in> set commits. claimed git sc c \<and> c \<in> covered} + (length (dedupe commits) - length scoped)"
    using k(4) len by simp
  moreover have "set kept = {c \<in> set commits. claimed git sc c \<and> c \<notin> covered \<and> exemption_of git c = Inr None}"
    by (auto simp: k(1) unc_def scoped_def)
  moreover have "sorted kept" "distinct kept"
    using d sorted_filter [of id unc] by (simp_all add: k(1) unc_def)
  ultimately show ?thesis by (simp add: nd)
qed

section \<open>Prepared entries\<close>

lemma resolve_each_Inr: "resolve_each res cs = Inr fulls \<Longrightarrow> list_all2 (\<lambda>c f. res c = Inr (Some f)) cs fulls"
  by (induction cs arbitrary: fulls) (auto simp: rbind_eq_Inr split: option.splits)

lemma require_in_scope_Inr:
  "require_in_scope s cs = Inr () \<Longrightarrow> c \<in> set cs \<Longrightarrow> claimed (su_git s) (subject_scope s) c"
  by (auto simp: require_in_scope_def rbind_eq_Inr find_None_iff_ball split: option.splits dest!: filter_commits_claimed)

lemma overlap_olds_Inr:
  "overlap_olds e c olds = Inr ns \<Longrightarrow> old \<in> set olds \<Longrightarrow> c \<in> set (ch_commits old) \<Longrightarrow>
     ch_user_facing old \<noteq> ch_user_facing e \<or> ch_type old \<noteq> ch_type e"
  by (induction olds arbitrary: ns) (auto simp: Let_def rbind_eq_Inr split: if_splits)

lemma overlaps_Inr:
  assumes "overlaps olds e = (Inr ns :: ('g prepare_error, overlap_note list) result)" and "old \<in> set olds" and "c \<in> set (ch_commits e)" and "c \<in> set (ch_commits old)"
  shows "ch_user_facing old \<noteq> ch_user_facing e \<or> ch_type old \<noteq> ch_type e"
proof -
  from assms(1,3) obtain n where "overlap_olds e c olds = (Inr n :: ('g prepare_error, overlap_note list) result)"
    by (auto simp: overlaps_def rbind_eq_Inr rmap_Inr_iff list_all2_conv_all_nth in_set_conv_nth)
  with overlap_olds_Inr assms(2,4) show ?thesis by blast
qed

lemma line_hash_findings_none: "(\<And>h. h \<in> set hs \<Longrightarrow> \<exists>f. res h = Inr (Some f)) \<Longrightarrow> line_hash_findings res hs = Inr []"
  by (induction hs) fastforce+

lemma prepare_Inr:
  fixes s :: "('e, 'g) subject"
  assumes "prepare J i s req olds = Inr (e, notes)" and "\<not> rq_unresolved req"
  shows "\<exists>given. list_all2 (\<lambda>c f. cg_resolve (su_git s) c = Inr (Some f)) given (ch_commits e)"
    and "require_in_scope s (ch_commits e) = Inr ()" and "validate_change J e = Inr ()"
    and "overlaps olds e = (Inr notes :: ('g prepare_error, overlap_note list) result)" and "ch_commits e \<noteq> []"
    and "length (ch_commits e) > max_commits_per_entry \<longleftrightarrow> ch_batch_reason e \<noteq> []"
    and "ch_user_facing e \<longrightarrow> ch_description e \<noteq> [] \<and> ch_type e \<noteq> []"
proof -
  define given where "given = filter ((\<noteq>) []) (map trim_space (rq_commits req))"
  from assms obtain commits packages where g: "given \<noteq> []"
    and c: "resolve_each (cg_resolve (su_git s)) given = Inr commits" and sc: "require_in_scope s commits = Inr ()"
    and p: "\<not> (rq_user_facing req \<and> (rq_description req = [] \<or> rq_type req = []))"
      "\<not> (length commits > max_commits_per_entry \<and> rq_batch_reason req = [])"
      "\<not> (length commits \<le> max_commits_per_entry \<and> rq_batch_reason req \<noteq> [])"
    and e: "e = \<lparr>ch_id = i, ch_commits = commits, ch_user_facing = rq_user_facing req,
                ch_description = rq_description req, ch_type = rq_type req, ch_packages = packages,
                ch_batch_reason = rq_batch_reason req\<rparr>"
    and v: "validate_change J e = Inr ()" "overlaps olds e = (Inr notes :: ('g prepare_error, overlap_note list) result)"
    by (auto simp: prepare_def Let_def rguard_eq_Inr rbind_eq_Inr given_def)
  note r = resolve_each_Inr [OF c]
  show "\<exists>given. list_all2 (\<lambda>c f. cg_resolve (su_git s) c = Inr (Some f)) given (ch_commits e)"
    using r e by auto
  show "require_in_scope s (ch_commits e) = Inr ()" "validate_change J e = Inr ()" "overlaps olds e = (Inr notes :: ('g prepare_error, overlap_note list) result)"
    using sc v e by simp_all
  show "ch_commits e \<noteq> []" using r g e by auto
  show "length (ch_commits e) > max_commits_per_entry \<longleftrightarrow> ch_batch_reason e \<noteq> []"
    "ch_user_facing e \<longrightarrow> ch_description e \<noteq> [] \<and> ch_type e \<noteq> []" using p e by auto
qed

text \<open>
  An entry that is accepted passes the checks: with a git that resolves a full id to
  itself, an entry prepared for a releasable gives no finding about commits that do not resolve
  nor about the limit of commits, each of its commits touches the releasable's scope, no
  existing entry of its type and audience names one of them, and once it is in a file the file
  covers every one of them.
\<close>

theorem prepared_entry_clean:
  assumes full: "\<And>h f. cg_resolve (su_git s) h = Inr (Some f) \<Longrightarrow> cg_resolve (su_git s) f = Inr (Some f)"
    and prep: "prepare J i s req olds = Inr (e, notes)" "\<not> rq_unresolved req"
    and f: "cf_lines f = [l]" "ln_change l = e"
  shows "hash_findings (cg_resolve (su_git s)) f = Inr [] \<and> batch_commit_findings f squashes = [] \<and>
    (\<forall>c \<in> set (ch_commits e). claimed (su_git s) (subject_scope s) c \<and>
      (\<forall>old \<in> set olds. c \<in> set (ch_commits old) \<longrightarrow> ch_user_facing old \<noteq> ch_user_facing e \<or> ch_type old \<noteq> ch_type e)) \<and>
    covered_commits (su_git s) f = Inr (set (ch_commits e))"
proof -
  note p = prepare_Inr [OF prep]
  from p(1) obtain given where "list_all2 (\<lambda>c f. cg_resolve (su_git s) c = Inr (Some f)) given (ch_commits e)" by blast
  then have res: "cg_resolve (su_git s) c = Inr (Some c)" if "c \<in> set (ch_commits e)" for c
    using that full by (auto simp: list_all2_conv_all_nth in_set_conv_nth)
  have "hash_findings (cg_resolve (su_git s)) f = Inr []"
    using line_hash_findings_none [of "ch_commits e" "cg_resolve (su_git s)"] res
    by (auto simp: hash_findings_def f Let_def)
  moreover have "batch_commit_findings f squashes = []"
  proof -
    have "length (filter (\<lambda>h. h \<notin> squashes) (ch_commits e)) \<le> length (ch_commits e)" by simp
    then have "length (filter (\<lambda>h. h \<notin> squashes) (ch_commits e)) \<le> max_commits_per_entry \<or> ch_batch_reason e \<noteq> []"
      using p(6) by linarith
    then show ?thesis by (auto simp: batch_commit_findings_def f Let_def)
  qed
  moreover have "resolve_all (cg_resolve (su_git s)) cs = Inr cs" if "set cs \<subseteq> set (ch_commits e)" for cs
    using that by (induction cs) (auto simp: res)
  then have "covered_commits (su_git s) f = Inr (set (ch_commits e))"
    by (simp add: covered_commits_def file_commits_def file_changes_def f)
  ultimately show ?thesis
    using require_in_scope_Inr [OF p(2)] overlaps_Inr [OF p(4)] by blast
qed

section \<open>A repository to apply the properties to\<close>

definition sample_git :: "string changelog_git" where
  "sample_git = \<lparr>cg_resolve = (\<lambda>h. Inr (if h = ''c1'' \<or> h = ''c2'' then Some h else None)),
     cg_files = (\<lambda>c. Inr (if c = ''c1'' then [''main.go''] else [''lib/a.go''])),
     cg_trailers = (\<lambda>_ _. Inr []), cg_bad_trailer = (\<lambda>_ _ _. ''bad trailer''),
     cg_commits = (\<lambda>_ _. Inr [''c2'', ''c1'']), cg_head = Inr ''c2''\<rparr>"

definition sample_subject :: "(string, string) subject" where
  "sample_subject = \<lparr>su_git = sample_git, su_workspace = sample_workspace, su_releasable = ''app'',
     su_record = sample_record, su_exclude = []\<rparr>"

definition sample_prepared :: change where
  "sample_prepared = sample_change\<lparr>ch_packages := Some [''root'']\<rparr>"

definition reader_of :: "change \<Rightarrow> json_reader" where
  "reader_of c = sample_reader\<lparr>jr_decode := (\<lambda>_. Inr \<lparr>rc_format_version = 2, rc_id = ch_id c,
     rc_commits = ch_commits c, rc_user_facing = ch_user_facing c, rc_description = ch_description c,
     rc_type = ch_type c, rc_packages = ch_packages c, rc_batch_reason = ch_batch_reason c\<rparr>)\<rparr>"

definition sample_request :: entry_request where
  "sample_request = \<lparr>rq_commits = [''c1''], rq_user_facing = True, rq_description = ''Adds it'',
     rq_type = type_feature, rq_batch_reason = [], rq_unresolved = False\<rparr>"

lemma sample_needing:
  "commits_needing_entries sample_git [''c2'', ''c1'', ''c2''] (subject_scope sample_subject) {} =
     Inr \<lparr>nd_commits = [''c1''], nd_stats = \<lparr>xs_autogenerated = 0, xs_changelog_only = 0\<rparr>, nd_outside_scope = 1\<rparr>"
  by code_simp

theorem coverage_spec_witness:
  "{''c1''} = {c \<in> {''c1'', ''c2''}. claimed sample_git (subject_scope sample_subject) c \<and>
     exemption_of sample_git c = Inr None}"
  using coverage_spec [OF sample_needing] by (auto simp: insert_commute)

lemma sample_prepares:
  "prepare (reader_of sample_prepared) ''0a'' sample_subject sample_request [] = Inr (sample_prepared, [])"
  by code_simp

theorem prepared_entry_clean_witness:
  "batch_commit_findings ((zero_file ''f.jsonl'')\<lparr>cf_lines := [\<lparr>ln_number = 1, ln_text = [], ln_change = sample_prepared\<rparr>]\<rparr>) {} = [] \<and>
   claimed sample_git (subject_scope sample_subject) ''c1''"
proof -
  have g: "su_git sample_subject = sample_git" by (simp add: sample_subject_def)
  have "cg_resolve (su_git sample_subject) f = Inr (Some f)" if "cg_resolve (su_git sample_subject) h = Inr (Some f)" for h f
    using that by (simp add: g sample_git_def split: if_splits)
  moreover have "\<not> rq_unresolved sample_request" by (simp add: sample_request_def)
  moreover have "''c1'' \<in> set (ch_commits sample_prepared)" by (simp add: sample_prepared_def sample_change_def)
  ultimately show ?thesis
    using prepared_entry_clean [OF _ sample_prepares, where
        f = "(zero_file ''f.jsonl'')\<lparr>cf_lines := [\<lparr>ln_number = 1, ln_text = [], ln_change = sample_prepared\<rparr>]\<rparr>" and
        l = "\<lparr>ln_number = 1, ln_text = [], ln_change = sample_prepared\<rparr>" and squashes = "{}"] g
    by fastforce
qed

end
