(* ===== verification/Run_State.thy ===== *)
theory Run_State
  imports Disk
begin

text \<open>
  internal/runstate: the state of a release in progress with its two markers per step
  (inprogress.go), the retry file and the batch plan (retry.go, batchplan.go), the paths and the
  removal of run state (runstate.go, historyrewrites.go, declassify.go), and the step table of
  internal/release/steps.go. Decoding TOML and quoting its strings and keys are parameters; a
  problem is a constructor.
\<close>

section \<open>Paths\<close>

definition lock_path :: string where "lock_path = release_state_dir @ ''/lock''"
definition batch_plan_path :: string where "batch_plan_path = release_state_dir @ ''/batch-plan.toml''"
definition scrub_result_path :: string where "scrub_result_path = release_state_dir @ ''/scrub-result.json''"
definition declassify_result_path :: string where
  "declassify_result_path = release_state_dir @ ''/declassify-result.json''"

definition in_progress_path :: "string \<Rightarrow> string" where
  "in_progress_path r = run_state_dir r @ ''/in-progress.toml''"

definition retry_path :: "string \<Rightarrow> string" where
  "retry_path r = run_state_dir r @ ''/retry.toml''"

definition reconcile_plan_path :: "string \<Rightarrow> string" where
  "reconcile_plan_path r = run_state_dir r @ ''/reconcile-plan.toml''"

section \<open>The release in progress\<close>

record in_progress =
  ip_releasable :: string
  ip_member :: string
  ip_version :: string
  ip_tag :: string
  ip_companion_tags :: "string list"
  ip_branch :: string
  ip_registry :: string
  ip_bump :: string
  ip_commit_message :: string
  ip_description :: string
  ip_context :: string
  ip_include :: "string list"
  ip_exclude :: "string list"
  ip_pre_release_commit :: string
  ip_pin_commit :: string
  ip_release_commit :: string
  ip_created_commits :: "string list"
  ip_run_all_dispatch_for :: string
  ip_completed :: "string list"
  ip_failed :: "(string \<times> string) list"
  ip_published_targets :: "string list"
  ip_published_members :: "string list"

record raw_in_progress =
  ri_format_version :: int
  ri_releasable :: string
  ri_member :: string
  ri_version :: string
  ri_tag :: string
  ri_companion_tags :: "string list option"
  ri_branch :: string
  ri_registry :: "string option"
  ri_bump :: "string option"
  ri_commit_message :: string
  ri_description :: string
  ri_context :: "string option"
  ri_include :: "string list"
  ri_exclude :: "string list"
  ri_pre_release_commit :: string
  ri_pin_commit :: string
  ri_release_commit :: "string option"
  ri_created_commits :: "string list option"
  ri_run_all_dispatch_for :: "string option"
  ri_completed :: "string list"
  ri_published_targets :: "string list option"
  ri_published_members :: "string list option"
  ri_failed :: "(string \<times> string) list option"

record raw_retry =
  rt_format_version :: int
  rt_ref :: string
  rt_workflows :: "string list"

record plan_item =
  pi_name :: string
  pi_base_version :: string
  pi_target_version :: string
  pi_tag :: string
  pi_registry :: string
  pi_bump :: string

record raw_plan =
  rp_format_version :: int
  rp_batch_file :: "string option"
  rp_items :: "plan_item list"

record toml =
  tm_quote :: "string \<Rightarrow> string"
  tm_quote_key :: "string \<Rightarrow> string"
  tm_in_progress :: "string \<Rightarrow> (string, raw_in_progress) result"
  tm_retry :: "string \<Rightarrow> (string, raw_retry) result"
  tm_plan :: "string \<Rightarrow> (string, raw_plan) result"

datatype state_problem =
    NotDecodable string
  | WrongFormat int nat
  | EmptyField string
  | BothMarkers string
  | OtherReleasable string string
  | BadRef string
  | NoWorkflow
  | EmptyWorkflow
  | WorkflowTwice string
  | NoItem
  | EmptyBatchFile
  | EmptyItemField nat string
  | PlannedTwice nat string

text \<open>FileError: the file and every problem in it.\<close>

datatype 'e state_error =
    StateRefused string "state_problem list"
  | StateDisk "'e disk_error"
  | NoReleasableNamed

definition in_progress_format_version :: nat where "in_progress_format_version = 1"

definition or_empty :: "'a list option \<Rightarrow> 'a list" where
  "or_empty x = (case x of Some xs \<Rightarrow> xs | None \<Rightarrow> [])"

definition state_of_raw :: "raw_in_progress \<Rightarrow> in_progress" where
  "state_of_raw r =
     \<lparr>ip_releasable = ri_releasable r, ip_member = ri_member r, ip_version = ri_version r, ip_tag = ri_tag r,
      ip_companion_tags = or_empty (ri_companion_tags r), ip_branch = ri_branch r,
      ip_registry = or_empty (ri_registry r), ip_bump = or_empty (ri_bump r),
      ip_commit_message = ri_commit_message r, ip_description = ri_description r,
      ip_context = or_empty (ri_context r), ip_include = ri_include r, ip_exclude = ri_exclude r,
      ip_pre_release_commit = ri_pre_release_commit r, ip_pin_commit = ri_pin_commit r,
      ip_release_commit = or_empty (ri_release_commit r), ip_created_commits = or_empty (ri_created_commits r),
      ip_run_all_dispatch_for = or_empty (ri_run_all_dispatch_for r), ip_completed = ri_completed r,
      ip_failed = or_empty (ri_failed r), ip_published_targets = or_empty (ri_published_targets r),
      ip_published_members = or_empty (ri_published_members r)\<rparr>"

definition failed_step :: "in_progress \<Rightarrow> string \<Rightarrow> bool" where
  "failed_step s step \<longleftrightarrow> map_of (ip_failed s) step \<noteq> None"

definition required_texts :: "in_progress \<Rightarrow> (string \<times> string) list" where
  "required_texts s =
     [(''releasable'', ip_releasable s), (''representative_member'', ip_member s), (''version'', ip_version s),
      (''tag'', ip_tag s), (''branch'', ip_branch s), (''commit_message'', ip_commit_message s),
      (''pre_release_commit'', ip_pre_release_commit s), (''pin_commit'', ip_pin_commit s)]"

definition state_problems :: "in_progress \<Rightarrow> state_problem list" where
  "state_problems s =
     map (\<lambda>(name, _). EmptyField name) (filter (\<lambda>(_, val). val = []) (required_texts s)) @
     map BothMarkers (filter (failed_step s) (ip_completed s))"

definition parse_in_progress :: "toml \<Rightarrow> string \<Rightarrow> string \<Rightarrow> ('e state_error, in_progress) result" where
  "parse_in_progress T rel data =
     (case tm_in_progress T data of
        Inl e \<Rightarrow> Inl (StateRefused rel [NotDecodable e])
      | Inr raw \<Rightarrow>
          if ri_format_version raw \<noteq> int in_progress_format_version
          then Inl (StateRefused rel [WrongFormat (ri_format_version raw) in_progress_format_version])
          else (let s = state_of_raw raw
                in if state_problems s \<noteq> [] then Inl (StateRefused rel (state_problems s)) else Inr s))"

definition toml_line :: "string \<Rightarrow> string \<Rightarrow> string" where
  "toml_line key val = key @ '' = '' @ val @ [CHR 0x0A]"

definition string_array :: "toml \<Rightarrow> string list \<Rightarrow> string" where
  "string_array T vs = ''['' @ join '', '' (map (tm_quote T) vs) @ '']''"

definition render_in_progress :: "toml \<Rightarrow> in_progress \<Rightarrow> string" where
  "render_in_progress T s =
     (let tx = (\<lambda>key val. toml_line key (tm_quote T val));
          optional_text = (\<lambda>key val. if val \<noteq> [] then tx key val else []);
          optional_list = (\<lambda>key vs. if vs \<noteq> [] then toml_line key (string_array T vs) else [])
      in toml_line ''format_version'' (dec_of_nat in_progress_format_version)
         @ tx ''releasable'' (ip_releasable s) @ tx ''representative_member'' (ip_member s)
         @ tx ''version'' (ip_version s) @ tx ''tag'' (ip_tag s)
         @ optional_list ''companion_tags'' (ip_companion_tags s) @ tx ''branch'' (ip_branch s)
         @ optional_text ''registry'' (ip_registry s) @ optional_text ''bump'' (ip_bump s)
         @ tx ''commit_message'' (ip_commit_message s) @ tx ''description'' (ip_description s)
         @ optional_text ''context'' (ip_context s)
         @ toml_line ''include'' (string_array T (ip_include s)) @ toml_line ''exclude'' (string_array T (ip_exclude s))
         @ tx ''pre_release_commit'' (ip_pre_release_commit s) @ tx ''pin_commit'' (ip_pin_commit s)
         @ optional_text ''release_commit'' (ip_release_commit s)
         @ optional_list ''created_commits'' (ip_created_commits s)
         @ optional_text ''run_all_dispatch_for'' (ip_run_all_dispatch_for s)
         @ toml_line ''completed_steps'' (string_array T (ip_completed s))
         @ optional_list ''published_targets'' (ip_published_targets s)
         @ optional_list ''published_members'' (ip_published_members s)
         @ (if ip_failed s = [] then []
            else [CHR 0x0A] @ ''[failed_steps]'' @ [CHR 0x0A] @
              concat (map (\<lambda>step. toml_line (tm_quote_key T step) (tm_quote T (the (map_of (ip_failed s) step))))
                (sorted_set (map fst (ip_failed s))))))"

definition read_state :: "string \<Rightarrow> 'e disk \<Rightarrow> ('e state_error, string option) result" where
  "read_state rel d = with_error (StateDisk \<circ> Reading rel) (read_bytes rel d)"

definition load_in_progress :: "toml \<Rightarrow> string \<Rightarrow> 'e disk \<Rightarrow> ('e state_error, in_progress option) result" where
  "load_in_progress T r d =
     (let rel = in_progress_path r
      in rbind (read_state rel d) (\<lambda>data.
         case data of
           None \<Rightarrow> Inr None
         | Some data \<Rightarrow>
             rbind (parse_in_progress T rel data) (\<lambda>s.
               if ip_releasable s \<noteq> r then Inl (StateRefused rel [OtherReleasable (ip_releasable s) r])
               else Inr (Some s))))"

definition save_in_progress :: "toml \<Rightarrow> in_progress \<Rightarrow> ('e disk, 'e state_error, unit) act" where
  "save_in_progress T s =
     aguard (ip_releasable s = []) NoReleasableNamed
       (let rel = in_progress_path (ip_releasable s); data = render_in_progress T s
        in abind (aread (\<lambda>_. parse_in_progress T rel data)) (\<lambda>_.
           awrap StateDisk (write_state_file rel data)))"

definition clear_in_progress :: "string \<Rightarrow> ('e disk, 'e state_error, unit) act" where
  "clear_in_progress r = awrap StateDisk (remove_state_file (in_progress_path r))"

section \<open>Markers\<close>

definition complete_step :: "string \<Rightarrow> in_progress \<Rightarrow> in_progress" where
  "complete_step step s =
     (let s = s\<lparr>ip_failed := filter (\<lambda>(k, _). k \<noteq> step) (ip_failed s)\<rparr>
      in if step \<in> set (ip_completed s) then s else s\<lparr>ip_completed := ip_completed s @ [step]\<rparr>)"

definition fail_step :: "string \<Rightarrow> string \<Rightarrow> in_progress \<Rightarrow> in_progress" where
  "fail_step step message s =
     s\<lparr>ip_failed := filter (\<lambda>(k, _). k \<noteq> step) (ip_failed s) @ [(step, message)],
       ip_completed := filter ((\<noteq>) step) (ip_completed s)\<rparr>"

definition step_completed :: "in_progress \<Rightarrow> string \<Rightarrow> bool" where
  "step_completed s step \<longleftrightarrow> step \<in> set (ip_completed s)"

definition unknown_steps :: "string list \<Rightarrow> in_progress \<Rightarrow> string list" where
  "unknown_steps known s =
     sort (filter (\<lambda>x. x \<notin> set known) (ip_completed s) @ filter (\<lambda>x. x \<notin> set known) (map fst (ip_failed s)))"

definition missing_steps :: "string list \<Rightarrow> in_progress \<Rightarrow> string list" where
  "missing_steps steps s = filter (\<lambda>x. \<not> failed_step s x \<and> \<not> step_completed s x) steps"

definition fatal_failure :: "string list \<Rightarrow> in_progress \<Rightarrow> bool" where
  "fatal_failure fatal s \<longleftrightarrow> list_ex (\<lambda>(k, _). k \<in> set fatal) (ip_failed s)"

definition is_complete :: "string list \<Rightarrow> string list \<Rightarrow> in_progress \<Rightarrow> bool" where
  "is_complete steps fatal s \<longleftrightarrow> missing_steps steps s = [] \<and> \<not> fatal_failure fatal s"

fun releasables_in_progress ::
  "'e disk \<Rightarrow> (string \<times> bool) list \<Rightarrow> ('e state_error, string list) result" where
  "releasables_in_progress d [] = Inr []"
| "releasables_in_progress d ((name, is_dir) # items) =
     (if \<not> is_dir then releasables_in_progress d items
      else rbind (with_error (StateDisk \<circ> Reading (in_progress_path name)) (path_exists (in_progress_path name) d)) (\<lambda>found.
           rbind (releasables_in_progress d items) (\<lambda>names.
             Inr (if found then name # names else names))))"

definition in_progress_releasables :: "'e disk \<Rightarrow> ('e state_error, string list) result" where
  "in_progress_releasables d =
     rbind (with_error (StateDisk \<circ> Listing release_state_dir) (list_dir release_state_dir d)) (\<lambda>items.
       case items of None \<Rightarrow> Inr [] | Some items \<Rightarrow> releasables_in_progress d items)"

section \<open>The retry file and the batch plan\<close>

record retry =
  re_ref :: string
  re_workflows :: "string list"

definition retry_format_version :: nat where "retry_format_version = 1"

fun workflow_problems :: "string list \<Rightarrow> string list \<Rightarrow> state_problem list" where
  "workflow_problems seen [] = []"
| "workflow_problems seen (w # ws) =
     (if trim_space w = [] then [EmptyWorkflow] else if w \<in> set seen then [WorkflowTwice w] else [])
     @ workflow_problems (w # seen) ws"

definition parse_retry :: "toml \<Rightarrow> string \<Rightarrow> string \<Rightarrow> ('e state_error, retry) result" where
  "parse_retry T rel data =
     (case tm_retry T data of
        Inl e \<Rightarrow> Inl (StateRefused rel [NotDecodable e])
      | Inr raw \<Rightarrow>
          (let problems =
             (if rt_format_version raw \<noteq> int retry_format_version
              then [WrongFormat (rt_format_version raw) retry_format_version] else [])
             @ (if trim_space (rt_ref raw) = [] \<or> rt_ref raw \<noteq> trim_space (rt_ref raw) then [BadRef (rt_ref raw)] else [])
             @ (if rt_workflows raw = [] then [NoWorkflow] else [])
             @ workflow_problems [] (rt_workflows raw)
           in if problems \<noteq> [] then Inl (StateRefused rel problems)
              else Inr \<lparr>re_ref = rt_ref raw, re_workflows = rt_workflows raw\<rparr>))"

definition render_retry :: "toml \<Rightarrow> retry \<Rightarrow> string" where
  "render_retry T r =
     toml_line ''format_version'' (dec_of_nat retry_format_version) @ toml_line ''ref'' (tm_quote T (re_ref r))
     @ toml_line ''workflows'' (string_array T (re_workflows r))"

definition load_retry :: "toml \<Rightarrow> string \<Rightarrow> 'e disk \<Rightarrow> ('e state_error, retry option) result" where
  "load_retry T r d =
     rbind (read_state (retry_path r) d) (\<lambda>data.
       case data of
         None \<Rightarrow> Inr None
       | Some data \<Rightarrow> rbind (parse_retry T (retry_path r) data) (\<lambda>x. Inr (Some x)))"

definition save_retry :: "toml \<Rightarrow> string \<Rightarrow> retry \<Rightarrow> ('e disk, 'e state_error, unit) act" where
  "save_retry T r x =
     (let rel = retry_path r; data = render_retry T x
      in abind (aread (\<lambda>_. parse_retry T rel data)) (\<lambda>_. awrap StateDisk (write_state_file rel data)))"

definition remove_retry :: "string \<Rightarrow> ('e disk, 'e state_error, unit) act" where
  "remove_retry r = awrap StateDisk (remove_state_file (retry_path r))"

record batch_plan =
  bp_batch_file :: string
  bp_items :: "plan_item list"

definition batch_plan_format_version :: nat where "batch_plan_format_version = 1"

definition plan_item_named :: "batch_plan \<Rightarrow> string \<Rightarrow> plan_item option" where
  "plan_item_named p name = List.find (\<lambda>it. pi_name it = name) (bp_items p)"

definition item_texts :: "plan_item \<Rightarrow> (string \<times> string) list" where
  "item_texts it = [(''name'', pi_name it), (''base_version'', pi_base_version it),
     (''target_version'', pi_target_version it), (''tag'', pi_tag it), (''bump'', pi_bump it)]"

fun item_problems :: "nat \<Rightarrow> string list \<Rightarrow> plan_item list \<Rightarrow> state_problem list" where
  "item_problems i seen [] = []"
| "item_problems i seen (it # its) =
     map (\<lambda>(name, _). EmptyItemField i name) (filter (\<lambda>(_, val). trim_space val = []) (item_texts it))
     @ (if pi_name it \<in> set seen then [PlannedTwice i (pi_name it)] else [])
     @ item_problems (Suc i) (pi_name it # seen) its"

definition parse_batch_plan :: "toml \<Rightarrow> string \<Rightarrow> string \<Rightarrow> ('e state_error, batch_plan) result" where
  "parse_batch_plan T rel data =
     (case tm_plan T data of
        Inl e \<Rightarrow> Inl (StateRefused rel [NotDecodable e])
      | Inr raw \<Rightarrow>
          (let problems =
             (if rp_format_version raw \<noteq> int batch_plan_format_version
              then [WrongFormat (rp_format_version raw) batch_plan_format_version] else [])
             @ (if rp_items raw = [] then [NoItem] else [])
             @ (case rp_batch_file raw of
                  Some f \<Rightarrow> if trim_space f = [] then [EmptyBatchFile] else []
                | None \<Rightarrow> [])
             @ item_problems 0 [] (rp_items raw)
           in if problems \<noteq> [] then Inl (StateRefused rel problems)
              else Inr \<lparr>bp_batch_file = or_empty (rp_batch_file raw), bp_items = rp_items raw\<rparr>))"

definition render_batch_plan :: "toml \<Rightarrow> batch_plan \<Rightarrow> string" where
  "render_batch_plan T p =
     toml_line ''format_version'' (dec_of_nat batch_plan_format_version)
     @ (if bp_batch_file p \<noteq> [] then toml_line ''batch_file'' (tm_quote T (bp_batch_file p)) else [])
     @ concat (map (\<lambda>it. [CHR 0x0A] @ ''[[items]]'' @ [CHR 0x0A]
         @ toml_line ''name'' (tm_quote T (pi_name it)) @ toml_line ''base_version'' (tm_quote T (pi_base_version it))
         @ toml_line ''target_version'' (tm_quote T (pi_target_version it)) @ toml_line ''tag'' (tm_quote T (pi_tag it))
         @ toml_line ''registry'' (tm_quote T (pi_registry it)) @ toml_line ''bump'' (tm_quote T (pi_bump it)))
       (bp_items p))"

definition load_batch_plan :: "toml \<Rightarrow> 'e disk \<Rightarrow> ('e state_error, batch_plan option) result" where
  "load_batch_plan T d =
     rbind (read_state batch_plan_path d) (\<lambda>data.
       case data of
         None \<Rightarrow> Inr None
       | Some data \<Rightarrow> rbind (parse_batch_plan T batch_plan_path data) (\<lambda>x. Inr (Some x)))"

definition save_batch_plan :: "toml \<Rightarrow> batch_plan \<Rightarrow> ('e disk, 'e state_error, unit) act" where
  "save_batch_plan T p =
     (let data = render_batch_plan T p
      in abind (aread (\<lambda>_. parse_batch_plan T batch_plan_path data)) (\<lambda>_.
         awrap StateDisk (write_state_file batch_plan_path data)))"

definition clear_batch_plan :: "('e disk, 'e state_error, unit) act" where
  "clear_batch_plan = awrap StateDisk (remove_state_file batch_plan_path)"

definition load_scrub_result :: "'e disk \<Rightarrow> ('e state_error, string option) result" where
  "load_scrub_result = read_state scrub_result_path"

definition save_scrub_result :: "string \<Rightarrow> ('e disk, 'e state_error, unit) act" where
  "save_scrub_result data = awrap StateDisk (write_state_file scrub_result_path data)"

definition clear_scrub_result :: "('e disk, 'e state_error, unit) act" where
  "clear_scrub_result = awrap StateDisk (remove_state_file scrub_result_path)"

definition load_reconcile_plan :: "string \<Rightarrow> 'e disk \<Rightarrow> ('e state_error, string option) result" where
  "load_reconcile_plan r = read_state (reconcile_plan_path r)"

definition save_reconcile_plan :: "string \<Rightarrow> string \<Rightarrow> ('e disk, 'e state_error, unit) act" where
  "save_reconcile_plan r data = awrap StateDisk (write_state_file (reconcile_plan_path r) data)"

definition clear_reconcile_plan :: "string \<Rightarrow> ('e disk, 'e state_error, unit) act" where
  "clear_reconcile_plan r = awrap StateDisk (remove_state_file (reconcile_plan_path r))"

definition load_declassify_result :: "'e disk \<Rightarrow> ('e state_error, string option) result" where
  "load_declassify_result = read_state declassify_result_path"

definition save_declassify_result :: "string \<Rightarrow> ('e disk, 'e state_error, unit) act" where
  "save_declassify_result data = awrap StateDisk (write_state_file declassify_result_path data)"

definition clear_declassify_result :: "('e disk, 'e state_error, unit) act" where
  "clear_declassify_result = awrap StateDisk (remove_state_file declassify_result_path)"

section \<open>The step table\<close>

definition step_version_bumped :: string where "step_version_bumped = ''version-bumped''"
definition step_committed :: string where "step_committed = ''committed''"
definition step_candidate_pushed :: string where "step_candidate_pushed = ''candidate-pushed''"
definition step_ci_verified :: string where "step_ci_verified = ''ci-verified''"
definition step_changelog_finalized :: string where "step_changelog_finalized = ''changelog-finalized''"
definition step_release_archived :: string where "step_release_archived = ''release-archived''"
definition step_tagged :: string where "step_tagged = ''tagged''"
definition step_pushed :: string where "step_pushed = ''pushed''"
definition step_github_release :: string where "step_github_release = ''github-release-created''"
definition step_pipelines_published :: string where "step_pipelines_published = ''pipelines-published''"
definition step_deployed :: string where "step_deployed = ''deployed''"
definition step_hooks_run :: string where "step_hooks_run = ''post-release-hooks-run''"

lemmas step_name_defs = step_version_bumped_def step_committed_def step_candidate_pushed_def
  step_ci_verified_def step_changelog_finalized_def step_release_archived_def step_tagged_def step_pushed_def
  step_github_release_def step_pipelines_published_def step_deployed_def step_hooks_run_def

record release_step =
  st_name :: string
  st_fatal :: bool
  st_entries :: "string list"

definition bump_entries :: "string list" where
  "bump_entries =
     [''write-releasable-version'', ''write-target-versions'', ''write-member-versions'', ''bump-selfdoc'',
      ''ensure-keyword'', ''sync-lockfiles'', ''write-scaffold-state'', ''clean-artifacts'', ''build'',
      ''secret-scan'', ''packed-artifact-contents'', ''guard-unexpected-files'']"

definition fatal_step :: "string \<Rightarrow> release_step" where
  "fatal_step name = \<lparr>st_name = name, st_fatal = True, st_entries = []\<rparr>"

definition release_steps :: "release_step list" where
  "release_steps =
     [(fatal_step step_version_bumped)\<lparr>st_entries := bump_entries\<rparr>, fatal_step step_committed,
      fatal_step step_candidate_pushed, fatal_step step_ci_verified, fatal_step step_changelog_finalized,
      fatal_step step_release_archived, fatal_step step_tagged, fatal_step step_pushed,
      fatal_step step_github_release, fatal_step step_pipelines_published, fatal_step step_deployed,
      (fatal_step step_hooks_run)\<lparr>st_fatal := False\<rparr>]"

definition step_names :: "string list" where
  "step_names = map st_name release_steps"

definition fatal_steps :: "string list" where
  "fatal_steps = map st_name (filter st_fatal release_steps)"

definition step_named :: "string \<Rightarrow> release_step option" where
  "step_named name = List.find (\<lambda>s. st_name s = name) release_steps"

definition step_of_entry :: "string \<Rightarrow> (string, string) result" where
  "step_of_entry t =
     (case List.find (\<lambda>s. t \<in> set (st_entries s)) release_steps of
        Some s \<Rightarrow> Inr (st_name s)
      | None \<Rightarrow> Inl t)"

section \<open>The markers as a map\<close>

text \<open>
  What the markers promise their clients: a step has one marker at most, completing or failing
  a step sets its marker and no other.
\<close>

datatype marker = Done | Failed string

locale marker_store =
  fixes marked :: "'s \<Rightarrow> string \<Rightarrow> marker option"
    and done_with :: "string \<Rightarrow> 's \<Rightarrow> 's"
    and failed_with :: "string \<Rightarrow> string \<Rightarrow> 's \<Rightarrow> 's"
    and sound :: "'s \<Rightarrow> bool"
  assumes marked_done: "sound s \<Longrightarrow> marked (done_with x s) = (marked s)(x \<mapsto> Done)"
    and marked_failed: "sound s \<Longrightarrow> marked (failed_with x e s) = (marked s)(x \<mapsto> Failed e)"
    and sound_done: "sound s \<Longrightarrow> sound (done_with x s)"
    and sound_failed: "sound s \<Longrightarrow> sound (failed_with x e s)"
begin

text \<open>The marks of a release, in the order it makes them.\<close>

definition mark :: "string \<times> marker \<Rightarrow> 's \<Rightarrow> 's" where
  "mark xm s = (case snd xm of Done \<Rightarrow> done_with (fst xm) s | Failed e \<Rightarrow> failed_with (fst xm) e s)"

lemma mark_one: "sound s \<Longrightarrow> sound (mark xm s) \<and> marked (mark xm s) = (marked s)(fst xm \<mapsto> snd xm)"
  by (cases "snd xm") (simp_all add: mark_def marked_done marked_failed sound_done sound_failed)

lemma marks: "sound s \<Longrightarrow> sound (fold mark ms s) \<and> marked (fold mark ms s) = marked s ++ map_of (rev ms)"
proof (induction ms arbitrary: s)
  case (Cons m ms)
  from mark_one [OF Cons.prems, of m] Cons.IH [of "mark m s"] show ?case
    by (cases m) (auto simp: fun_eq_iff map_add_def split: option.split)
qed simp

lemma marked_once: "sound s \<Longrightarrow> marked s x = None \<Longrightarrow> x \<in> fst ` set ms \<Longrightarrow> marked (fold mark ms s) x \<noteq> None"
  using marks [of s ms] by (auto simp: map_add_def map_of_eq_None_iff split: option.splits)

end

definition markers_ok :: "in_progress \<Rightarrow> bool" where
  "markers_ok s \<longleftrightarrow> distinct (ip_completed s) \<and> distinct (map fst (ip_failed s)) \<and>
     list_all (\<lambda>x. \<not> failed_step s x) (ip_completed s)"

definition marker_of :: "in_progress \<Rightarrow> string \<Rightarrow> marker option" where
  "marker_of s x = (if step_completed s x then Some Done else map_option Failed (map_of (ip_failed s) x))"

lemma map_of_filter_other: "map_of (filter (\<lambda>(k, _). k \<noteq> x) ps) y = (if y = x then None else map_of ps y)"
  by (induction ps) auto

lemma keys_filter_other: "map fst (filter (\<lambda>(k, _). k \<noteq> x) ps) = filter ((\<noteq>) x) (map fst ps)"
  by (induction ps) auto

interpretation markers: marker_store marker_of complete_step fail_step markers_ok
proof
  fix s :: in_progress and x e
  assume ok: "markers_ok s"
  then have d: "\<forall>y \<in> set (ip_completed s). map_of (ip_failed s) y = None"
    by (simp add: markers_ok_def failed_step_def list_all_iff)
  show "marker_of (complete_step x s) = (marker_of s)(x \<mapsto> Done)"
    by (rule ext) (auto simp: marker_of_def complete_step_def Let_def step_completed_def map_of_filter_other)
  show "marker_of (fail_step x e s) = (marker_of s)(x \<mapsto> Failed e)"
    by (rule ext) (auto simp: marker_of_def fail_step_def step_completed_def map_of_filter_other map_add_def
        split: option.split)
  show "markers_ok (complete_step x s)"
    using ok d by (auto simp: markers_ok_def complete_step_def Let_def failed_step_def list_all_iff
        map_of_filter_other keys_filter_other)
  show "markers_ok (fail_step x e s)"
    using ok d by (auto simp: markers_ok_def fail_step_def failed_step_def list_all_iff
        map_of_filter_other keys_filter_other map_add_def split: option.splits)
qed

definition record_marks :: "(string \<times> marker) list \<Rightarrow> in_progress \<Rightarrow> in_progress" where
  "record_marks ms s = fold markers.mark ms s"

lemma failed_marker: "markers_ok s \<Longrightarrow> failed_step s x \<longleftrightarrow> (\<exists>e. marker_of s x = Some (Failed e))"
  by (auto simp: markers_ok_def failed_step_def marker_of_def step_completed_def list_all_iff)

lemma completed_marker: "step_completed s x \<longleftrightarrow> marker_of s x = Some Done"
  by (auto simp: marker_of_def)

lemma failed_step_iff: "failed_step s x \<longleftrightarrow> x \<in> fst ` set (ip_failed s)"
  by (simp add: failed_step_def map_of_eq_None_iff)

lemma fatal_failure_iff: "fatal_failure fatal s \<longleftrightarrow> (\<exists>x \<in> set fatal. failed_step s x)"
  unfolding failed_step_iff fatal_failure_def list_ex_iff by (auto simp: image_iff)

lemma is_complete_markers:
  assumes "markers_ok s"
  shows "is_complete steps fatal s \<longleftrightarrow> (\<forall>x \<in> set steps. marker_of s x \<noteq> None) \<and>
    (\<forall>x \<in> set fatal. \<forall>e. marker_of s x \<noteq> Some (Failed e))"
proof -
  have "missing_steps steps s = [] \<longleftrightarrow> (\<forall>x \<in> set steps. marker_of s x \<noteq> None)"
    by (auto simp: missing_steps_def filter_empty_conv failed_step_def marker_of_def)
  then show ?thesis using failed_marker [OF assms] by (auto simp: is_complete_def fatal_failure_iff)
qed

text \<open>
  C20. The run state records a release's steps as a map: whatever steps a release completes and
  fails, in whatever order and how often, the marker of every step is the last one set, the
  markers of a step never coexist, so the state it saves is never refused for them, and the
  state is complete exactly when every step of the table has a marker and no fatal one failed.
\<close>

theorem run_state_markers:
  assumes "markers_ok s"
  shows "marker_of (record_marks ms s) = marker_of s ++ map_of (rev ms) \<and>
    (\<forall>x. BothMarkers x \<notin> set (state_problems (record_marks ms s))) \<and>
    (is_complete step_names fatal_steps (record_marks ms s) \<longleftrightarrow>
      (\<forall>x \<in> set step_names. (marker_of s ++ map_of (rev ms)) x \<noteq> None) \<and>
      (\<forall>x \<in> set fatal_steps. \<forall>e. (marker_of s ++ map_of (rev ms)) x \<noteq> Some (Failed e)))"
proof -
  have ok: "markers_ok (record_marks ms s)" and m: "marker_of (record_marks ms s) = marker_of s ++ map_of (rev ms)"
    using markers.marks [OF assms, of ms] by (simp_all add: record_marks_def)
  have "filter (failed_step (record_marks ms s)) (ip_completed (record_marks ms s)) = []"
    using ok by (auto simp: markers_ok_def filter_empty_conv list_all_iff)
  then have "BothMarkers x \<notin> set (state_problems (record_marks ms s))" for x
    by (auto simp: state_problems_def)
  with m is_complete_markers [OF ok] show ?thesis by simp
qed

definition sample_state :: in_progress where
  "sample_state = \<lparr>ip_releasable = ''app'', ip_member = ''root'', ip_version = ''1.0.0'', ip_tag = ''v1.0.0'',
     ip_companion_tags = [], ip_branch = ''main'', ip_registry = [], ip_bump = ''minor'',
     ip_commit_message = ''release'', ip_description = ''First'', ip_context = [], ip_include = [], ip_exclude = [],
     ip_pre_release_commit = ''c0'', ip_pin_commit = ''c0'', ip_release_commit = [], ip_created_commits = [],
     ip_run_all_dispatch_for = [], ip_completed = [], ip_failed = [], ip_published_targets = [],
     ip_published_members = []\<rparr>"

theorem run_state_markers_witness:
  "marker_of (record_marks [(step_tagged, Failed ''x''), (step_tagged, Done)] sample_state) step_tagged = Some Done"
proof -
  have "markers_ok sample_state" by (simp add: markers_ok_def sample_state_def)
  from run_state_markers [OF this, of "[(step_tagged, Failed ''x''), (step_tagged, Done)]"] show ?thesis
    by (simp add: map_add_def)
qed

text \<open>Every step of the table is fatal but the last, and the table names each once.\<close>

lemma step_table: "distinct step_names" "set step_names = insert step_hooks_run (set fatal_steps)"
  by code_simp+

end
