(* ===== verification/Release_Lock.thy ===== *)
theory Release_Lock
  imports Run_State
begin

text \<open>
  internal/runstate/lock.go: the advisory lock of a repository. The kernel's flock is a holder
  process at most; a process counts its nested acquires in a map of its own, so an inner release
  does not drop the outer holder's lock. Processes are numbers; a process that dies loses its
  lock and its handles.
\<close>

section \<open>Acquiring and releasing\<close>

record 'e lock_state =
  lk_disk :: "'e disk"
  lk_holder :: "nat option"
  lk_depth :: "nat \<Rightarrow> nat option"
  lk_flock_fails :: "nat \<Rightarrow> 'e option"

type_synonym wait = string

definition wait_for_holder :: wait where "wait_for_holder = ''wait''"
definition refuse_when_held :: wait where "refuse_when_held = ''refuse''"

record acquire_options =
  ao_dry_run :: bool
  ao_wait :: wait
  ao_on_wait :: bool

record lock_handle =
  lh_process :: nat
  lh_took :: bool
  lh_released :: bool

datatype 'e lock_error =
    UnknownWait wait
  | NeedsOnWait
  | LockDisk "'e disk_error"
  | LockNotOpened "'e io_error"
  | LockFails 'e
  | LockHeld string
  | ReleasedTwice
  | NotHeldHere

datatype acquire_outcome = Got lock_handle | MustWait

definition on_disk :: "('e disk, 'd, 'a) act \<Rightarrow> ('e lock_state, 'd, 'a) act" where
  "on_disk m s = (case m (lk_disk s) of (r, d) \<Rightarrow> (r, s\<lparr>lk_disk := d\<rparr>))"

definition taken_handle :: "nat \<Rightarrow> lock_handle" where
  "taken_handle p = \<lparr>lh_process = p, lh_took = True, lh_released = False\<rparr>"

text \<open>os.Open and a non-blocking flock on the descriptor.\<close>

definition open_lock :: "'e disk \<Rightarrow> ('e lock_error, unit) result" where
  "open_lock d =
     (case read_bytes lock_path d of
        Inl e \<Rightarrow> Inl (LockNotOpened e)
      | Inr None \<Rightarrow> Inl (LockNotOpened (IoMissing lock_path))
      | Inr (Some _) \<Rightarrow> Inr ())"

definition take_flock :: "nat \<Rightarrow> 'e lock_state \<Rightarrow> 'e lock_state" where
  "take_flock p s = s\<lparr>lk_holder := Some p, lk_depth := (lk_depth s)(p \<mapsto> 0)\<rparr>"

definition try_flock :: "nat \<Rightarrow> wait \<Rightarrow> ('e lock_state, 'e lock_error, acquire_outcome) act" where
  "try_flock p w s =
     (case lk_flock_fails s p of
        Some e \<Rightarrow> (Inl (LockFails e), s)
      | None \<Rightarrow>
          (case lk_holder s of
             None \<Rightarrow> (Inr (Got (taken_handle p)), take_flock p s)
           | Some _ \<Rightarrow> if w = refuse_when_held then (Inl (LockHeld lock_path), s) else (Inr MustWait, s)))"

definition create_lock_file :: "('e disk, 'e disk_error, unit) act" where
  "create_lock_file =
     abind ensure_state_dir (\<lambda>_. awrap (Writing lock_path) (eff_write lock_path [] private_mode))"

definition acquire_new :: "nat \<Rightarrow> acquire_options \<Rightarrow> ('e lock_state, 'e lock_error, acquire_outcome) act" where
  "acquire_new p ao =
     abind (aread (\<lambda>s. with_error (LockDisk \<circ> Reading lock_path) (path_exists lock_path (lk_disk s)))) (\<lambda>found.
     if \<not> found \<and> ao_dry_run ao then aret (Got ((taken_handle p)\<lparr>lh_took := False\<rparr>))
     else abind (if found then aret () else awrap LockDisk (on_disk create_lock_file)) (\<lambda>_.
          abind (aread (\<lambda>s. open_lock (lk_disk s))) (\<lambda>_. try_flock p (ao_wait ao))))"

definition acquire :: "nat \<Rightarrow> acquire_options \<Rightarrow> ('e lock_state, 'e lock_error, acquire_outcome) act" where
  "acquire p ao =
     aguard (ao_wait ao \<noteq> wait_for_holder \<and> ao_wait ao \<noteq> refuse_when_held) (UnknownWait (ao_wait ao))
     (aguard (ao_wait ao = wait_for_holder \<and> \<not> ao_on_wait ao) NeedsOnWait
     (\<lambda>s. case lk_depth s p of
        Some n \<Rightarrow> (Inr (Got (taken_handle p)), s\<lparr>lk_depth := (lk_depth s)(p \<mapsto> Suc n)\<rparr>)
      | None \<Rightarrow> acquire_new p ao s))"

text \<open>
  A blocked flock returns once the holder is gone, and the process then registers its holder, or
  it fails.
\<close>

definition granted :: "nat \<Rightarrow> 'e lock_state \<Rightarrow> (('e lock_error, lock_handle) result \<times> 'e lock_state) option" where
  "granted p s =
     (case lk_flock_fails s p of
        Some e \<Rightarrow> Some (Inl (LockFails e), s)
      | None \<Rightarrow> if lk_holder s = None then Some (Inr (taken_handle p), take_flock p s) else None)"

text \<open>
  Unlocking and closing a descriptor this process holds do not fail. The handle is returned with
  its mark.
\<close>

definition release :: "lock_handle \<Rightarrow> 'e lock_state \<Rightarrow> ('e lock_error, unit) result \<times> lock_handle \<times> 'e lock_state" where
  "release h s =
     (if lh_released h then (Inl ReleasedTwice, h, s)
      else (let h = h\<lparr>lh_released := True\<rparr>
            in if \<not> lh_took h then (Inr (), h, s)
               else (case lk_depth s (lh_process h) of
                       None \<Rightarrow> (Inl NotHeldHere, h, s)
                     | Some (Suc n) \<Rightarrow> (Inr (), h, s\<lparr>lk_depth := (lk_depth s)(lh_process h \<mapsto> n)\<rparr>)
                     | Some 0 \<Rightarrow>
                         (Inr (), h, s\<lparr>lk_depth := (lk_depth s)(lh_process h := None), lk_holder := None\<rparr>))))"

definition exists_unheld :: "nat \<Rightarrow> 'e lock_state \<Rightarrow> ('e lock_error, bool) result" where
  "exists_unheld p s =
     rbind (with_error (LockDisk \<circ> Reading lock_path) (path_exists lock_path (lk_disk s))) (\<lambda>found.
       if \<not> found then Inr False
       else rbind (open_lock (lk_disk s)) (\<lambda>_.
            case lk_flock_fails s p of Some e \<Rightarrow> Inl (LockFails e) | None \<Rightarrow> Inr (lk_holder s = None)))"

section \<open>Processes using the lock\<close>

text \<open>The handles not yet released, and the processes blocked in an acquire.\<close>

record 'e lock_run =
  rn_state :: "'e lock_state"
  rn_handles :: "lock_handle list"
  rn_waiting :: "nat list"

definition die :: "nat \<Rightarrow> 'e lock_run \<Rightarrow> 'e lock_run" where
  "die p r =
     \<lparr>rn_state = (rn_state r)\<lparr>lk_holder := (if lk_holder (rn_state r) = Some p then None else lk_holder (rn_state r)),
        lk_depth := (lk_depth (rn_state r))(p := None)\<rparr>,
      rn_handles = filter (\<lambda>h. lh_process h \<noteq> p) (rn_handles r),
      rn_waiting = filter ((\<noteq>) p) (rn_waiting r)\<rparr>"

inductive lock_step :: "'e lock_run \<Rightarrow> 'e lock_run \<Rightarrow> bool" where
  Acquires: "acquire p ao (rn_state r) = (Inr (Got h), s) \<Longrightarrow>
     lock_step r (r\<lparr>rn_state := s, rn_handles := h # rn_handles r\<rparr>)"
| Refused: "acquire p ao (rn_state r) = (Inl e, s) \<Longrightarrow> lock_step r (r\<lparr>rn_state := s\<rparr>)"
| Waits: "acquire p ao (rn_state r) = (Inr MustWait, s) \<Longrightarrow>
     lock_step r (r\<lparr>rn_state := s, rn_waiting := p # rn_waiting r\<rparr>)"
| Granted: "p \<in> set (rn_waiting r) \<Longrightarrow> granted p (rn_state r) = Some (Inr h, s) \<Longrightarrow>
     lock_step r (r\<lparr>rn_state := s, rn_handles := h # rn_handles r, rn_waiting := remove1 p (rn_waiting r)\<rparr>)"
| GivesUp: "p \<in> set (rn_waiting r) \<Longrightarrow> granted p (rn_state r) = Some (Inl e, s) \<Longrightarrow>
     lock_step r (r\<lparr>rn_state := s, rn_waiting := remove1 p (rn_waiting r)\<rparr>)"
| Releases: "h \<in> set (rn_handles r) \<Longrightarrow> release h (rn_state r) = (x, h', s) \<Longrightarrow>
     lock_step r (r\<lparr>rn_state := s, rn_handles := remove1 h (rn_handles r)\<rparr>)"
| Dies: "lock_step r (die p r)"

inductive_cases lock_stepE: "lock_step r r'"

definition free_lock :: "'e disk \<Rightarrow> (nat \<Rightarrow> 'e option) \<Rightarrow> 'e lock_run" where
  "free_lock d fails =
     \<lparr>rn_state = \<lparr>lk_disk = d, lk_holder = None, lk_depth = Map.empty, lk_flock_fails = fails\<rparr>,
      rn_handles = [], rn_waiting = []\<rparr>"

inductive lock_reachable :: "'e lock_run \<Rightarrow> bool" where
  Start: "lock_reachable (free_lock d fails)"
| Step: "lock_reachable r \<Longrightarrow> lock_step r r' \<Longrightarrow> lock_reachable r'"

text \<open>
  The counter of a process is one less than the handles that took the lock, and only the holder
  has any.
\<close>

definition taken_by :: "nat \<Rightarrow> lock_handle list \<Rightarrow> nat" where
  "taken_by p hs = length (filter (\<lambda>h. lh_took h \<and> lh_process h = p) hs)"

definition counts :: "nat \<Rightarrow> nat option \<Rightarrow> nat option \<Rightarrow> nat \<Rightarrow> bool" where
  "counts p holder depth n \<longleftrightarrow>
     (case depth of None \<Rightarrow> n = 0 \<and> holder \<noteq> Some p | Some k \<Rightarrow> n = Suc k \<and> holder = Some p)"

definition lock_ok :: "'e lock_run \<Rightarrow> bool" where
  "lock_ok r \<longleftrightarrow>
     (\<forall>p. counts p (lk_holder (rn_state r)) (lk_depth (rn_state r) p) (taken_by p (rn_handles r))) \<and>
     (\<forall>h \<in> set (rn_handles r). \<not> lh_released h)"

lemma taken_by_simps [simp]:
  "taken_by p [] = 0"
  "taken_by p (h # hs) = (if lh_took h \<and> lh_process h = p then Suc (taken_by p hs) else taken_by p hs)"
  by (simp_all add: taken_by_def)

lemma counts_simps [simp]:
  "counts p holder None n \<longleftrightarrow> n = 0 \<and> holder \<noteq> Some p"
  "counts p holder (Some k) n \<longleftrightarrow> n = Suc k \<and> holder = Some p"
  by (simp_all add: counts_def)

lemma taken_by_pos: "h \<in> set hs \<Longrightarrow> lh_took h \<Longrightarrow> 0 < taken_by (lh_process h) hs"
  by (induction hs) auto

lemma taken_by_remove1:
  "h \<in> set hs \<Longrightarrow> taken_by p (remove1 h hs) = (if lh_took h \<and> lh_process h = p then taken_by p hs - 1 else taken_by p hs)"
proof (induction hs)
  case (Cons g hs)
  then show ?case using taken_by_pos [of h hs] by (cases "h = g") auto
qed simp

lemma taken_by_filter: "taken_by q (filter (\<lambda>h. lh_process h \<noteq> p) hs) = (if q = p then 0 else taken_by q hs)"
  by (induction hs) auto

text \<open>What an acquire does to the lock: nothing, a nested count, or taking a free lock.\<close>

definition same_lock :: "'e lock_state \<Rightarrow> 'e lock_state \<Rightarrow> bool" where
  "same_lock s t \<longleftrightarrow> lk_holder t = lk_holder s \<and> lk_depth t = lk_depth s"

definition takes_lock :: "nat \<Rightarrow> 'e lock_state \<Rightarrow> 'e lock_state \<Rightarrow> bool" where
  "takes_lock p s t \<longleftrightarrow>
     (case lk_depth s p of
        Some n \<Rightarrow> lk_depth t = (lk_depth s)(p \<mapsto> Suc n) \<and> lk_holder t = lk_holder s
      | None \<Rightarrow> lk_depth t = (lk_depth s)(p \<mapsto> 0) \<and> lk_holder s = None \<and> lk_holder t = Some p)"

definition lock_change :: "nat \<Rightarrow> 'e lock_state \<Rightarrow> ('e lock_error, acquire_outcome) result \<Rightarrow> 'e lock_state \<Rightarrow> bool" where
  "lock_change p s r t \<longleftrightarrow>
     (case r of
        Inr (Got h) \<Rightarrow> lh_process h = p \<and> \<not> lh_released h \<and> (if lh_took h then takes_lock p s t else same_lock s t)
      | _ \<Rightarrow> same_lock s t)"

lemma same_lock_refl [simp]: "same_lock s s"
  by (simp add: same_lock_def)

lemma handle_fields [simp]:
  "lh_process (taken_handle p) = p" "lh_took (taken_handle p)" "\<not> lh_released (taken_handle p)"
  by (simp_all add: taken_handle_def)

lemma try_flock_change:
  assumes "try_flock p w u = (x, v)" "same_lock s u" "lk_depth s p = None"
  shows "lock_change p s x v"
  using assms
  by (auto simp: try_flock_def lock_change_def takes_lock_def take_flock_def same_lock_def split: option.splits if_splits)

lemma on_disk_same: "awrap LockDisk (on_disk m) s = (x, t) \<Longrightarrow> same_lock s t"
  by (auto simp: awrap_def on_disk_def same_lock_def split: prod.splits sum.splits)

lemma abind_aread: "abind (aread g) f s = (case g s of Inl e \<Rightarrow> (Inl e, s) | Inr x \<Rightarrow> f x s)"
  by (simp add: abind_def aread_def split: sum.split)

lemma abind_at: "m s = (y, u) \<Longrightarrow> abind m f s = (case y of Inl e \<Rightarrow> (Inl e, u) | Inr x \<Rightarrow> f x u)"
  by (simp add: abind_def split: sum.split)

lemma acquire_new_change:
  assumes a: "acquire_new p ao s = (x, t)" and d: "lk_depth s p = None"
  shows "lock_change p s x t"
proof (cases "path_exists lock_path (lk_disk s)")
  case (Inl e)
  with a show ?thesis by (auto simp: acquire_new_def abind_aread with_error_def lock_change_def)
next
  case (Inr found)
  show ?thesis
  proof (cases "\<not> found \<and> ao_dry_run ao")
    case True
    with a Inr show ?thesis by (auto simp: acquire_new_def abind_aread with_error_def lock_change_def aret_def)
  next
    case False
    let ?file = "if found then aret () else awrap LockDisk (on_disk create_lock_file)"
    obtain y u where u: "?file s = (y, u)" by fastforce
    then have same: "same_lock s u" by (auto simp: aret_def dest: on_disk_same split: if_splits)
    from a Inr False u have "(case y of Inl e \<Rightarrow> (Inl e, u)
        | Inr _ \<Rightarrow> abind (aread (\<lambda>s. open_lock (lk_disk s))) (\<lambda>_. try_flock p (ao_wait ao)) u) = (x, t)"
      by (simp add: acquire_new_def abind_aread abind_at [where m = ?file and s = s, OF u] with_error_def)
    with same d show ?thesis
      by (auto simp: abind_aread dest: try_flock_change split: sum.splits) (simp_all add: lock_change_def)
  qed
qed

lemma acquire_change:
  assumes "acquire p ao s = (x, t)"
  shows "lock_change p s x t"
proof (cases "lk_depth s p")
  case (Some n)
  with assms show ?thesis
    by (auto simp: acquire_def aguard_def afail_def lock_change_def takes_lock_def split: if_splits)
next
  case None
  with assms show ?thesis
    by (auto simp: acquire_def aguard_def afail_def dest: acquire_new_change split: if_splits)
       (simp_all add: lock_change_def)
qed

section \<open>The lock excludes\<close>

lemma lock_okI:
  assumes "\<And>p. counts p (lk_holder (rn_state r)) (lk_depth (rn_state r) p) (taken_by p (rn_handles r))"
    and "\<And>h. h \<in> set (rn_handles r) \<Longrightarrow> \<not> lh_released h"
  shows "lock_ok r"
  using assms by (simp add: lock_ok_def)

lemma lock_okD:
  assumes "lock_ok r"
  shows "counts p (lk_holder (rn_state r)) (lk_depth (rn_state r) p) (taken_by p (rn_handles r))"
    and "h \<in> set (rn_handles r) \<Longrightarrow> \<not> lh_released h"
  using assms by (simp_all add: lock_ok_def)

lemma counts_other: "counts q x d n \<Longrightarrow> x = None \<Longrightarrow> d = None \<and> n = 0"
  by (cases d) auto

lemma lock_ok_same:
  assumes "lock_ok r" "same_lock (rn_state r) s" "\<And>p. taken_by p hs = taken_by p (rn_handles r)"
    "\<And>h. h \<in> set hs \<Longrightarrow> \<not> lh_released h"
  shows "lock_ok (r\<lparr>rn_state := s, rn_handles := hs, rn_waiting := ws\<rparr>)"
proof (rule lock_okI)
  show "counts p (lk_holder (rn_state (r\<lparr>rn_state := s, rn_handles := hs, rn_waiting := ws\<rparr>)))
      (lk_depth (rn_state (r\<lparr>rn_state := s, rn_handles := hs, rn_waiting := ws\<rparr>)) p)
      (taken_by p (rn_handles (r\<lparr>rn_state := s, rn_handles := hs, rn_waiting := ws\<rparr>)))" for p
    using lock_okD(1) [OF assms(1), of p] assms(2,3) by (simp add: same_lock_def)
qed (use assms(4) in auto)

lemma lock_ok_takes:
  assumes ok: "lock_ok r" and t: "takes_lock (lh_process h) (rn_state r) s"
    and h: "lh_took h" "\<not> lh_released h"
  shows "lock_ok (r\<lparr>rn_state := s, rn_handles := h # rn_handles r, rn_waiting := ws\<rparr>)"
proof (rule lock_okI)
  fix q
  note c = lock_okD(1) [OF ok, of q]
  show "counts q (lk_holder (rn_state (r\<lparr>rn_state := s, rn_handles := h # rn_handles r, rn_waiting := ws\<rparr>)))
      (lk_depth (rn_state (r\<lparr>rn_state := s, rn_handles := h # rn_handles r, rn_waiting := ws\<rparr>)) q)
      (taken_by q (rn_handles (r\<lparr>rn_state := s, rn_handles := h # rn_handles r, rn_waiting := ws\<rparr>)))"
  proof (cases "lk_depth (rn_state r) (lh_process h)")
    case (Some n)
    with t c h show ?thesis by (auto simp: takes_lock_def)
  next
    case None
    with t counts_other [OF c] c h show ?thesis by (auto simp: takes_lock_def)
  qed
qed (use lock_okD(2) [OF ok] h in auto)

lemma lock_ok_acquired:
  assumes "lock_ok r" "lock_change p (rn_state r) (Inr (Got h)) s"
  shows "lock_ok (r\<lparr>rn_state := s, rn_handles := h # rn_handles r, rn_waiting := ws\<rparr>)"
proof (cases "lh_took h")
  case True
  with assms show ?thesis by (simp add: lock_change_def lock_ok_takes)
next
  case False
  with assms lock_okD(2) [OF assms(1)] show ?thesis
    by (intro lock_ok_same) (auto simp: lock_change_def)
qed

lemma granted_change:
  assumes "granted p s = Some (x, t)"
  shows "case x of Inl e \<Rightarrow> t = s | Inr h \<Rightarrow> h = taken_handle p \<and> lk_holder s = None \<and> t = take_flock p s"
  using assms by (auto simp: granted_def split: option.splits if_splits)

lemma lock_ok_release:
  assumes ok: "lock_ok r" and h: "h \<in> set (rn_handles r)" and rel: "release h (rn_state r) = (x, h', s)"
  shows "lock_ok (r\<lparr>rn_state := s, rn_handles := remove1 h (rn_handles r)\<rparr>) \<and> x = Inr () \<and> h' = h\<lparr>lh_released := True\<rparr>"
proof -
  note c = lock_okD(1) [OF ok] and live = lock_okD(2) [OF ok]
  have kept: "\<not> lh_released g" if "g \<in> set (remove1 h (rn_handles r))" for g
    using live notin_set_remove1 that by metis
  show ?thesis
  proof (cases "lh_took h")
    case False
    with rel live [OF h] have "x = Inr ()" "s = rn_state r" "h' = h\<lparr>lh_released := True\<rparr>"
      by (simp_all add: release_def Let_def)
    with lock_ok_same [OF ok, of "rn_state r" "remove1 h (rn_handles r)" "rn_waiting r"] False kept show ?thesis
      by (simp add: taken_by_remove1 [OF h])
  next
    case True
    obtain k where k: "lk_depth (rn_state r) (lh_process h) = Some k"
      using c [of "lh_process h"] taken_by_pos [OF h True] by (cases "lk_depth (rn_state r) (lh_process h)") auto
    with c [of "lh_process h"] have hold: "lk_holder (rn_state r) = Some (lh_process h)" by simp
    have "counts q (lk_holder s) (lk_depth s q) (taken_by q (remove1 h (rn_handles r)))" for q
      using c [of q] c [of "lh_process h"] k hold rel live [OF h] True
      by (cases "lk_depth (rn_state r) q")
        (auto simp: release_def Let_def taken_by_remove1 [OF h] split: nat.splits)
    moreover from k rel live [OF h] True have "x = Inr ()" "h' = h\<lparr>lh_released := True\<rparr>"
      by (auto simp: release_def Let_def split: nat.splits)
    ultimately show ?thesis using kept by (auto intro!: lock_okI)
  qed
qed

lemma lock_ok_die:
  assumes ok: "lock_ok r"
  shows "lock_ok (die p r)"
proof (rule lock_okI)
  fix q
  show "counts q (lk_holder (rn_state (die p r))) (lk_depth (rn_state (die p r)) q) (taken_by q (rn_handles (die p r)))"
    using lock_okD(1) [OF ok, of q] by (cases "lk_depth (rn_state r) q") (auto simp: die_def taken_by_filter)
qed (use lock_okD(2) [OF ok] in \<open>auto simp: die_def\<close>)

lemma lock_ok_step:
  assumes ok: "lock_ok r" and step: "lock_step r r'"
  shows "lock_ok r'"
  using step
proof cases
  case (Acquires p ao h s)
  with lock_ok_acquired [OF ok acquire_change, of p ao h s "rn_waiting r"] show ?thesis by simp
next
  case (Refused p ao e s)
  with acquire_change [of p ao "rn_state r" "Inl e" s] lock_ok_same [OF ok, of s "rn_handles r" "rn_waiting r"]
    lock_okD(2) [OF ok] show ?thesis by (simp add: lock_change_def)
next
  case (Waits p ao s)
  with acquire_change [of p ao "rn_state r" "Inr MustWait" s] lock_ok_same [OF ok, of s "rn_handles r" "p # rn_waiting r"]
    lock_okD(2) [OF ok] show ?thesis by (simp add: lock_change_def)
next
  case (Granted p h s)
  from granted_change [OF Granted(3)] have g: "h = taken_handle p" "lk_holder (rn_state r) = None" "s = take_flock p (rn_state r)"
    by simp_all
  with counts_other [OF lock_okD(1) [OF ok, of p]] have "takes_lock p (rn_state r) s"
    by (simp add: takes_lock_def take_flock_def)
  with lock_ok_takes [OF ok, of h s] g Granted show ?thesis by simp
next
  case (GivesUp p e s)
  with granted_change [OF GivesUp(3)] lock_ok_same [OF ok, of s "rn_handles r" "remove1 p (rn_waiting r)"]
    lock_okD(2) [OF ok] show ?thesis by simp
next
  case (Releases h x h' s)
  with lock_ok_release [OF ok] show ?thesis by simp
next
  case (Dies p)
  with lock_ok_die [OF ok] show ?thesis by simp
qed

lemma lock_ok_reachable: "lock_reachable r \<Longrightarrow> lock_ok r"
proof (induction rule: lock_reachable.induct)
  case (Start d fails)
  show ?case by (simp add: lock_ok_def free_lock_def)
next
  case (Step r r')
  then show ?case by (blast intro: lock_ok_step)
qed


definition lock_disk :: "string disk" where
  "lock_disk = \<lparr>dk_root = ''/r'', dk_nodes = [(lock_path, FileNode [] private_mode)], dk_faults = [],
     dk_unreadable = Map.empty, dk_unseen = Map.empty, dk_owner = (\<lambda>p. Inr p)\<rparr>"

definition taken_run :: "string lock_run" where
  "taken_run = \<lparr>rn_state = take_flock 7 (rn_state (free_lock lock_disk Map.empty)),
     rn_handles = [taken_handle 7], rn_waiting = []\<rparr>"

lemma taken_run_reachable: "lock_reachable taken_run"
proof -
  let ?ao = "\<lparr>ao_dry_run = False, ao_wait = refuse_when_held, ao_on_wait = False\<rparr>"
  let ?s = "rn_state (free_lock lock_disk Map.empty)"
  have "path_exists lock_path lock_disk = Inr True" "open_lock lock_disk = Inr ()"
    by code_simp+
  then have "acquire 7 ?ao ?s = (Inr (Got (taken_handle 7)), take_flock 7 ?s)"
    by (simp add: acquire_def acquire_new_def abind_aread abind_def aret_def with_error_def free_lock_def
        try_flock_def wait_for_holder_def refuse_when_held_def)
  from lock_step.Acquires [OF this] have "lock_step (free_lock lock_disk Map.empty) taken_run"
    by (simp add: taken_run_def free_lock_def)
  then show ?thesis by (rule lock_reachable.Step [OF lock_reachable.Start])
qed


end
