(* ===== verification/Act_Rules.thy ===== *)
theory Act_Rules
  imports Prelude
begin

text \<open>
  Weakest preconditions of actions with a postcondition for values and one for errors, and the
  triples built from them. A triple says nothing about how long an action runs: every action is
  a total function.
\<close>

text \<open>An action whose error is handled: the handler goes on from the state the error left.\<close>

definition acatch :: "('s, 'e, 'a) act \<Rightarrow> ('e \<Rightarrow> ('s, 'd, 'b) act) \<Rightarrow> ('a \<Rightarrow> ('s, 'd, 'b) act) \<Rightarrow> ('s, 'd, 'b) act" where
  "acatch m f g s = (case m s of (Inl e, t) \<Rightarrow> f e t | (Inr x, t) \<Rightarrow> g x t)"

lemma acts_acatch:
  assumes "transp R" "acts R m" "\<And>e. acts R (f e)" "\<And>x. acts R (g x)"
  shows "acts R (acatch m f g)"
  unfolding acts_def
proof
  fix s
  have m: "R s (snd (m s))" and k: "R t (snd (f e t))" "R t (snd (g x t))" for t e x
    using assms(2-4) by (simp_all add: acts_def)
  show "R s (snd (acatch m f g s))"
  proof (cases "m s")
    case (Pair r t)
    with m have "R s t" by simp
    with Pair k transpD [OF \<open>transp R\<close>] show ?thesis by (cases r) (auto simp: acatch_def)
  qed
qed

definition wp :: "('s, 'e, 'a) act \<Rightarrow> ('a \<Rightarrow> 's \<Rightarrow> bool) \<Rightarrow> ('e \<Rightarrow> 's \<Rightarrow> bool) \<Rightarrow> 's \<Rightarrow> bool" where
  "wp m Q E s = (case m s of (Inl e, t) \<Rightarrow> E e t | (Inr x, t) \<Rightarrow> Q x t)"

definition triple :: "('s \<Rightarrow> bool) \<Rightarrow> ('s, 'e, 'a) act \<Rightarrow> ('a \<Rightarrow> 's \<Rightarrow> bool) \<Rightarrow> ('e \<Rightarrow> 's \<Rightarrow> bool) \<Rightarrow> bool" where
  "triple P m Q E \<longleftrightarrow> (\<forall>s. P s \<longrightarrow> wp m Q E s)"

text \<open>An action that keeps a predicate whatever its outcome.\<close>

definition keeps :: "('s \<Rightarrow> bool) \<Rightarrow> ('s, 'e, 'a) act \<Rightarrow> bool" where
  "keeps I m \<longleftrightarrow> triple I m (\<lambda>_. I) (\<lambda>_. I)"

named_theorems keeps_intros

lemma wp_aret [simp]: "wp (aret x) Q E s = Q x s"
  by (simp add: wp_def)

lemma wp_afail [simp]: "wp (afail e) Q E s = E e s"
  by (simp add: wp_def)

lemma wp_aread [simp]: "wp (aread g) Q E s = (case g s of Inl e \<Rightarrow> E e s | Inr x \<Rightarrow> Q x s)"
  by (simp add: wp_def)

lemma wp_abind [simp]: "wp (abind m f) Q E s = wp m (\<lambda>x. wp (f x) Q E) E s"
  by (simp add: wp_def abind_def split: sum.split prod.split)

lemma wp_aguard [simp]: "wp (aguard b e m) Q E s = (if b then E e s else wp m Q E s)"
  by (simp add: aguard_def)

lemma wp_awrap [simp]: "wp (awrap w m) Q E s = wp m Q (\<lambda>e. E (w e)) s"
  by (simp add: wp_def awrap_def split: sum.split prod.split)

lemma wp_acatch [simp]: "wp (acatch m f g) Q E s = wp m (\<lambda>x. wp (g x) Q E) (\<lambda>e. wp (f e) Q E) s"
  by (simp add: wp_def acatch_def split: sum.split prod.split)

lemma wp_if: "wp (if b then m else n) Q E s = (if b then wp m Q E s else wp n Q E s)"
  by simp

lemma wp_mono: "wp m Q E s \<Longrightarrow> (\<And>x t. Q x t \<Longrightarrow> Q' x t) \<Longrightarrow> (\<And>e t. E e t \<Longrightarrow> E' e t) \<Longrightarrow> wp m Q' E' s"
  by (auto simp: wp_def split: sum.splits prod.splits)

lemma tripleI: "(\<And>s. P s \<Longrightarrow> wp m Q E s) \<Longrightarrow> triple P m Q E"
  by (simp add: triple_def)

lemma tripleD: "triple P m Q E \<Longrightarrow> P s \<Longrightarrow> wp m Q E s"
  by (simp add: triple_def)

lemma triple_Inr: "triple P m Q E \<Longrightarrow> P s \<Longrightarrow> m s = (Inr x, t) \<Longrightarrow> Q x t"
  by (auto simp: triple_def wp_def)

lemma triple_Inl: "triple P m Q E \<Longrightarrow> P s \<Longrightarrow> m s = (Inl e, t) \<Longrightarrow> E e t"
  by (auto simp: triple_def wp_def)

lemma triple_seq:
  "triple P m Q E \<Longrightarrow> (\<And>x. triple (Q x) (f x) R E) \<Longrightarrow> triple P (abind m f) R E"
proof (rule tripleI)
  fix s assume m: "triple P m Q E" and f: "\<And>x. triple (Q x) (f x) R E" and "P s"
  then have "wp m Q E s" by (simp add: triple_def)
  moreover have "wp (f x) R E t" if "Q x t" for x t using f that by (simp add: triple_def)
  ultimately show "wp (abind m f) R E s" by (simp add: wp_mono)
qed

lemma triple_conseq:
  "triple P m Q E \<Longrightarrow> (\<And>s. P' s \<Longrightarrow> P s) \<Longrightarrow> (\<And>x t. Q x t \<Longrightarrow> Q' x t) \<Longrightarrow> (\<And>e t. E e t \<Longrightarrow> E' e t) \<Longrightarrow>
   triple P' m Q' E'"
  by (rule tripleI) (auto dest!: tripleD elim: wp_mono)

lemma triple_weak:
  "triple P m Q E \<Longrightarrow> (\<And>x t. Q x t \<Longrightarrow> Q' x t) \<Longrightarrow> (\<And>e t. E e t \<Longrightarrow> E' e t) \<Longrightarrow> triple P m Q' E'"
  by (rule triple_conseq [where P = P and Q = Q and E = E]) auto

lemma keepsD: "keeps I m \<Longrightarrow> triple I m (\<lambda>_. I) (\<lambda>_. I)"
  by (simp add: keeps_def)

lemma keepsI: "(\<And>s r t. I s \<Longrightarrow> m s = (r, t) \<Longrightarrow> I t) \<Longrightarrow> keeps I m"
  by (auto simp: keeps_def triple_def wp_def split: sum.split prod.split)

lemma keeps_run: "keeps I m \<Longrightarrow> I s \<Longrightarrow> m s = (r, t) \<Longrightarrow> I t"
  by (auto simp: keeps_def triple_def wp_def split: sum.splits)

lemma keeps_aret [keeps_intros]: "keeps I (aret x)"
  by (simp add: keeps_def triple_def)

lemma keeps_afail [keeps_intros]: "keeps I (afail e)"
  by (simp add: keeps_def triple_def)

lemma keeps_aread [keeps_intros]: "keeps I (aread f)"
  by (simp add: keeps_def triple_def split: sum.split)

lemma keeps_abind [keeps_intros]: "keeps I m \<Longrightarrow> (\<And>x. keeps I (f x)) \<Longrightarrow> keeps I (abind m f)"
  unfolding keeps_def by (rule triple_seq)

lemma keeps_aguard [keeps_intros]: "keeps I m \<Longrightarrow> keeps I (aguard b e m)"
  by (cases b) (auto intro: keeps_afail)

lemma keeps_awrap [keeps_intros]: "keeps I m \<Longrightarrow> keeps I (awrap w m)"
  by (auto simp: keeps_def triple_def)

lemma keeps_if [keeps_intros]: "keeps I m \<Longrightarrow> keeps I n \<Longrightarrow> keeps I (if b then m else n)"
  by simp

lemma keeps_aeach [keeps_intros]: "(\<And>x. x \<in> set xs \<Longrightarrow> keeps I (f x)) \<Longrightarrow> keeps I (aeach f xs)"
  by (induction xs) (auto intro: keeps_intros)

lemma keeps_afold_acts [keeps_intros]: "(\<And>r x. x \<in> set xs \<Longrightarrow> keeps I (f r x)) \<Longrightarrow> keeps I (afold f r xs)"
  by (induction xs arbitrary: r) (auto intro: keeps_intros)

lemma keeps_option [keeps_intros]:
  "keeps I m \<Longrightarrow> (\<And>x. keeps I (f x)) \<Longrightarrow> keeps I (case y of None \<Rightarrow> m | Some x \<Rightarrow> f x)"
  by (cases y) simp_all

lemma keeps_prod [keeps_intros]: "(\<And>a b. keeps I (f a b)) \<Longrightarrow> keeps I (case p of (a, b) \<Rightarrow> f a b)"
  by (cases p) simp

end
