(* ===== verification/Git_Refs.thy ===== *)
theory Git_Refs
  imports Act_Rules Run_State Release_Record
begin

text \<open>
  The refs a release moves and the checks it makes on them: the guarded updates of internal/git
  (refs.go, refedit.go, worktree.go, history.go), the foreign-commit guard and the candidate window
  of internal/release/guards.go, and the advance of the release checkout of
  internal/release/checkout.go. Git itself is not under src: the commits are a parameter, refs
  are maps, and every call of git takes the next turn of a script, in which other processes move
  refs first and the call then goes through, or stops with an error having taken effect or not.
  Tags point at commits directly; the sentences an error is wrapped in are left out.
\<close>

section \<open>Commits, refs and turns\<close>

record history =
  gr_known :: "string \<Rightarrow> bool"
  gr_ancestors :: "string \<Rightarrow> string list"
  gr_parent :: "string \<Rightarrow> string option"
  gr_changed :: "string \<Rightarrow> string \<Rightarrow> string list"
  gr_shallow :: bool

datatype 'e git_error =
    GitFailed 'e
  | GitTimedOut
  | GitRefused string
  | NotFullRef string
  | NotBranchRef string
  | NotObjectId string
  | NoPushTimeout
  | DeleteWithoutLease string

datatype move =
    MoveRef string "string option"
  | MoveOrigin string "string option"
  | SwitchTo "string option"
  | EditPaths "string list"

datatype 'e turn = Goes "move list" | Stops "move list" "'e git_error" bool

datatype event =
    PushedCandidate string
  | Dispatched string
  | Verdict string bool
  | FinalizedChangelog
  | ArchivedAt string
  | CreatedTag string string
  | PushedTip string
  | PushedTag string string
  | MadeRelease
  | PublishedPipeline string
  | RanDeploy
  | RanHooks

text \<open>The log holds what the release did to the world outside its checkout, newest first.\<close>

record ('e, 'w) world =
  w_script :: "'e turn list"
  w_refs :: "string \<Rightarrow> string option"
  w_origin :: "string \<Rightarrow> string option"
  w_head :: "string option"
  w_edits :: "string list"
  w_checkout :: string
  w_saved :: "in_progress option"
  w_log :: "event list"
  w_rest :: 'w

fun others :: "move list \<Rightarrow> ('e, 'w) world \<Rightarrow> ('e, 'w) world" where
  "others [] w = w"
| "others (MoveRef r c # ms) w = others ms (w\<lparr>w_refs := (w_refs w)(r := c)\<rparr>)"
| "others (MoveOrigin r c # ms) w = others ms (w\<lparr>w_origin := (w_origin w)(r := c)\<rparr>)"
| "others (SwitchTo b # ms) w = others ms (w\<lparr>w_head := b\<rparr>)"
| "others (EditPaths ps # ms) w = others ms (w\<lparr>w_edits := ps\<rparr>)"

definition next_turn :: "('e, 'w) world \<Rightarrow> ('e git_error \<times> bool) option \<times> ('e, 'w) world" where
  "next_turn w =
     (case w_script w of
        [] \<Rightarrow> (None, w)
      | Goes ms # ts \<Rightarrow> (None, others ms (w\<lparr>w_script := ts\<rparr>))
      | Stops ms e landed # ts \<Rightarrow> (Some (e, landed), others ms (w\<lparr>w_script := ts\<rparr>)))"

definition git_read ::
  "(('e, 'w) world \<Rightarrow> ('e git_error, 'a) result) \<Rightarrow> (('e, 'w) world, 'e git_error, 'a) act" where
  "git_read f w =
     (case next_turn w of
        (None, w) \<Rightarrow> (f w, w)
      | (Some (e, _), w) \<Rightarrow> (Inl e, w))"

definition git_write ::
  "(('e, 'w) world \<Rightarrow> ('e git_error, ('e, 'w) world) result) \<Rightarrow> (('e, 'w) world, 'e git_error, unit) act" where
  "git_write f w =
     (case next_turn w of
        (None, w) \<Rightarrow> (case f w of Inl e \<Rightarrow> (Inl e, w) | Inr w' \<Rightarrow> (Inr (), w'))
      | (Some (e, landed), w) \<Rightarrow>
          (Inl e, if landed then (case f w of Inl _ \<Rightarrow> w | Inr w' \<Rightarrow> w') else w))"

section \<open>Questions\<close>

definition full_object_id :: "string \<Rightarrow> bool" where
  "full_object_id s \<longleftrightarrow> (length s = 40 \<or> length s = 64) \<and>
     list_all (\<lambda>c. c \<in> set ''0123456789abcdef'') s"

definition resolve_ref :: "string \<Rightarrow> (('e, 'w) world, 'e git_error, string option) act" where
  "resolve_ref r = git_read (\<lambda>w. Inr (w_refs w r))"

definition resolve_id :: "history \<Rightarrow> string \<Rightarrow> (('e, 'w) world, 'e git_error, string option) act" where
  "resolve_id G c = git_read (\<lambda>_. Inr (if gr_known G c then Some c else None))"

definition checkout_head :: "(('e, 'w) world, 'e git_error, string) act" where
  "checkout_head = git_read (\<lambda>w. Inr (w_checkout w))"

definition head_branch :: "(('e, 'w) world, 'e git_error, string option) act" where
  "head_branch = git_read (\<lambda>w. Inr (w_head w))"

definition remote_ref :: "string \<Rightarrow> (('e, 'w) world, 'e git_error, string option) act" where
  "remote_ref r =
     aguard (\<not> has_prefix r ''refs/'') (NotFullRef r) (git_read (\<lambda>w. Inr (w_origin w r)))"

definition tag_ref :: "string \<Rightarrow> string" where
  "tag_ref tag = ''refs/tags/'' @ tag"

definition tag_commit :: "string \<Rightarrow> (('e, 'w) world, 'e git_error, string option) act" where
  "tag_commit tag = resolve_ref (tag_ref tag)"

definition remote_tag_commit :: "string \<Rightarrow> (('e, 'w) world, 'e git_error, string option) act" where
  "remote_tag_commit tag = git_read (\<lambda>w. Inr (w_origin w (tag_ref tag)))"

definition changed_between :: "history \<Rightarrow> string \<Rightarrow> string \<Rightarrow> (('e, 'w) world, 'e git_error, string list) act" where
  "changed_between G a b =
     git_read (\<lambda>_. if gr_known G a \<and> gr_known G b then Inr (gr_changed G a b) else Inl (GitRefused (a @ ''..'' @ b)))"

text \<open>rev-list of a ref without what a commit reaches, newest first.\<close>

definition commits_since :: "history \<Rightarrow> string \<Rightarrow> string \<Rightarrow> (('e, 'w) world, 'e git_error, string list) act" where
  "commits_since G r base =
     git_read (\<lambda>w. case w_refs w r of
       None \<Rightarrow> Inl (GitRefused r)
     | Some tip \<Rightarrow>
         if gr_known G base then Inr (filter (\<lambda>c. c \<notin> set (gr_ancestors G base)) (gr_ancestors G tip))
         else Inl (GitRefused base))"

definition is_shallow :: "history \<Rightarrow> (('e, 'w) world, 'e git_error, bool) act" where
  "is_shallow G = git_read (\<lambda>_. Inr (gr_shallow G))"

text \<open>merge-base exits 0 for yes and 1 for no; in a shallow repository a no is no answer.\<close>

definition ancestry_of :: "history \<Rightarrow> string \<Rightarrow> string \<Rightarrow> (('e, 'w) world, 'e git_error, ancestry) act" where
  "ancestry_of G c r =
     abind (git_read (\<lambda>w. Inr (case w_refs w r of
         None \<Rightarrow> None
       | Some tip \<Rightarrow> if gr_known G c then Some (c \<in> set (gr_ancestors G tip)) else None))) (\<lambda>answer.
     case answer of
       Some True \<Rightarrow> aret IsAncestor
     | Some False \<Rightarrow> abind (is_shallow G) (\<lambda>shallow. aret (if shallow then AncestryIndeterminable else NotAncestor))
     | None \<Rightarrow> aret AncestryIndeterminable)"

section \<open>Guarded updates\<close>

text \<open>update-ref with an old value, or with the null id that stands for none.\<close>

definition create_ref :: "string \<Rightarrow> string \<Rightarrow> event list \<Rightarrow> (('e, 'w) world, 'e git_error, unit) act" where
  "create_ref r c ev =
     aguard (\<not> has_prefix r ''refs/'') (NotFullRef r)
     (aguard (\<not> full_object_id c) (NotObjectId c)
       (git_write (\<lambda>w. case w_refs w r of
          None \<Rightarrow> Inr (w\<lparr>w_refs := (w_refs w)(r \<mapsto> c), w_log := ev @ w_log w\<rparr>)
        | Some _ \<Rightarrow> Inl (GitRefused r))))"

definition delete_ref :: "string \<Rightarrow> string \<Rightarrow> (('e, 'w) world, 'e git_error, unit) act" where
  "delete_ref r c =
     aguard (\<not> has_prefix r ''refs/'') (NotFullRef r)
     (aguard (\<not> full_object_id c) (NotObjectId c)
       (git_write (\<lambda>w. if w_refs w r = Some c then Inr (w\<lparr>w_refs := (w_refs w)(r := None)\<rparr>)
          else Inl (GitRefused r))))"

definition swap_ref :: "string \<Rightarrow> string \<Rightarrow> string \<Rightarrow> (('e, 'w) world, 'e git_error, unit) act" where
  "swap_ref r new old =
     aguard (\<not> has_prefix r ''refs/'') (NotFullRef r)
     (aguard (\<not> full_object_id new) (NotObjectId new)
     (aguard (\<not> full_object_id old) (NotObjectId old)
       (git_write (\<lambda>w. if w_refs w r = Some old then Inr (w\<lparr>w_refs := (w_refs w)(r \<mapsto> new)\<rparr>)
          else Inl (GitRefused r)))))"

record ref_update =
  ru_ref :: string
  ru_new :: string
  ru_expected :: string

definition lease_holds :: "string \<Rightarrow> string option \<Rightarrow> bool" where
  "lease_holds expected there \<longleftrightarrow> (if expected = [] then there = None else there = Some expected)"

definition bad_ids :: "ref_update \<Rightarrow> string list" where
  "bad_ids u = filter (\<lambda>c. c \<noteq> [] \<and> \<not> full_object_id c) [ru_new u, ru_expected u]"

definition push :: "ref_update \<Rightarrow> nat \<Rightarrow> event list \<Rightarrow> (('e, 'w) world, 'e git_error, unit) act" where
  "push u timeout ev =
     aguard (\<not> has_prefix (ru_ref u) ''refs/'') (NotFullRef (ru_ref u))
     (aguard (ru_new u = [] \<and> ru_expected u = []) (DeleteWithoutLease (ru_ref u))
     (case bad_ids u of c # _ \<Rightarrow> afail (NotObjectId c) | [] \<Rightarrow>
     (aguard (timeout = 0) NoPushTimeout
       (git_write (\<lambda>w.
          if lease_holds (ru_expected u) (w_origin w (ru_ref u))
          then Inr (w\<lparr>w_origin := (w_origin w)(ru_ref u := (if ru_new u = [] then None else Some (ru_new u))),
                 w_log := ev @ w_log w\<rparr>)
          else Inl (GitRefused (ru_ref u)))))))"

text \<open>Without force the remote moves a branch only to a descendant of what it holds.\<close>

definition push_fast_forward ::
  "history \<Rightarrow> string \<Rightarrow> string \<Rightarrow> nat \<Rightarrow> event list \<Rightarrow> (('e, 'w) world, 'e git_error, unit) act" where
  "push_fast_forward G r c timeout ev =
     aguard (\<not> has_prefix r ''refs/heads/'') (NotBranchRef r)
     (aguard (\<not> full_object_id c) (NotObjectId c)
     (aguard (timeout = 0) NoPushTimeout
       (git_write (\<lambda>w.
          if (case w_origin w r of None \<Rightarrow> True | Some there \<Rightarrow> there \<in> set (gr_ancestors G c))
          then Inr (w\<lparr>w_origin := (w_origin w)(r \<mapsto> c), w_log := ev @ w_log w\<rparr>)
          else Inl (GitRefused r)))))"

end
