(* ===== verification/Release_Checkout.thy ===== *)
theory Release_Checkout
  imports Git_Refs Changelog_Files
begin

text \<open>
  The state of a release's walk, what it is built from, and the release checkout it commits in:
  internal/release/checkout.go and the execution of internal/release/execute.go. The context holds
  what does not change during a walk and the operations of the parts it calls (the bump plan, the
  changelog, the archive, CI, GitHub, the pipelines, the hooks), each an action on the rest of the
  world, which holds no ref and no run state. Messages are left out: an error is a constructor.
\<close>

section \<open>Context, state and errors\<close>

datatype ci_verdict = CiGreen | CiNotConfigured | CiTimedOut | CiRed | CiNotRun | CiNoRun

datatype refusal =
    StateUnnamed
  | StateUnsound "state_problem list"
  | ForeignCommits string "string list"
  | Unverified string
  | CiRefused ci_verdict
  | WindowRefused
  | BranchMoved string "string option"
  | LiveTreeConflict "string list"
  | NotOnBranch "string option"
  | BatchUnpushed string
  | UnknownOriginCommit string
  | NoReleasedTree string
  | NothingToArchive
  | OtherTag string string
  | TagElsewhere string string
  | OriginTagElsewhere string string
  | BranchGone
  | NoSuchTarget string
  | FailedSteps "(string \<times> string) list"
  | StepsMissing "string list"
  | CiFailedAfter "string list"
  | NotListed "string list"
  | NothingInProgress
  | UnknownSteps "string list"
  | WrongBranch "string option"
  | NotCovered "string list"

text \<open>An error a stop wraps is under the constructor that says what became of the release.\<close>

datatype 'e release_error =
    GitStopped "'e git_error"
  | OpStopped 'e
  | Refuse refusal
  | Discarded "'e release_error"
  | NotTakenBack "'e release_error" string
  | KeptFor string "'e release_error"
  | PushUnknown "'e release_error"
  | Both "'e release_error" "'e release_error"

record ('e, 'w) candidate_ops =
  op_prepare :: "string \<Rightarrow> ('w, 'e, unit) act"
  op_resumable :: "('w, 'e, unit) act"
  op_plan :: "('w, 'e, string list \<times> bool) act"
  op_bump :: "('w, 'e, string list) act"
  op_commit :: "string \<Rightarrow> string list \<Rightarrow> bool \<Rightarrow> ('w, 'e, string option) act"
  op_fate :: "('w, 'e, fate) act"
  op_filters :: "('w, 'e, (string \<times> string list) list) act"
  op_has_router :: "('w, 'e, bool) act"
  op_scan_range :: "string \<Rightarrow> string list \<Rightarrow> ('w, 'e, unit) act"
  op_dispatch :: "string \<Rightarrow> ('w, 'e, unit) act"
  op_ci_filters :: "('w, 'e, unit) act"
  op_ci :: "string \<Rightarrow> ('w, 'e, ci_verdict) act"
  op_covered :: "string list \<Rightarrow> ('w, 'e, string list) act"

record ('e, 'w) settle_ops =
  op_exists :: "string \<Rightarrow> ('w, 'e, bool) act"
  op_unreleased :: "('w, 'e, string list) act"
  op_make_unreleased :: "('w, 'e, unit) act"
  op_finalize :: "('w, 'e, unit) act"
  op_tree_at :: "string \<Rightarrow> string \<Rightarrow> ('w, 'e, string option) act"
  op_resolved_hits :: "('w, 'e, string list) act"
  op_archive_file :: "release_commit \<Rightarrow> string list \<Rightarrow> ('w, 'e, unit) act"
  op_write_archive :: "release_commit \<Rightarrow> string list \<Rightarrow> ('w, 'e, unit) act"
  op_date :: "string \<Rightarrow> ('w, 'e, string) act"
  op_activate :: "string \<Rightarrow> ('w, 'e, bool) act"
  op_record_file :: string
  op_regenerate :: "('w, 'e, string list) act"
  op_refs :: "('w, 'e, string \<times> string list) act"
  op_scan_texts :: "string list \<Rightarrow> ('w, 'e, unit) act"

record ('e, 'w) ship_ops =
  op_notes :: "('w, 'e, string) act"
  op_release_exists :: "string \<Rightarrow> ('w, 'e, bool) act"
  op_create_release :: "('w, 'e, unit) act"
  op_marker :: "('w, 'e, unit) act"
  op_topic :: "('w, 'e, unit) act"
  op_targets :: "string \<Rightarrow> ('w, 'e, string list) act"
  op_publish :: "string \<Rightarrow> ('w, 'e, unit) act"
  op_deploy :: "('w, 'e, unit) act"
  op_hook_runs :: "('w, 'e, unit) act"
  op_run_hooks :: "('w, 'e, unit) act"
  op_confirm :: "string \<Rightarrow> string \<Rightarrow> ('w, 'e, unit) act"
  op_watch :: "string \<Rightarrow> ('w, 'e, string list) act"
  op_publishable :: "('w, 'e, string list) act"
  op_unlisted :: "string list \<Rightarrow> ('w, 'e, string list) act"
  op_wait :: "nat \<Rightarrow> ('w, 'e, unit) act"
record local_pipeline =
  lp_name :: string
  lp_target :: string
  lp_local :: bool

record ('e, 'w) release_context =
  cx_graph :: history
  cx_prepare :: "('e, 'w) candidate_ops"
  cx_settle :: "('e, 'w) settle_ops"
  cx_ship :: "('e, 'w) ship_ops"
  cx_name :: string
  cx_version :: version
  cx_current :: version
  cx_branch :: string
  cx_resuming :: bool
  cx_entry :: in_progress
  cx_defer :: bool
  cx_verified :: string
  cx_push_timeout :: nat
  cx_workspace :: bool
  cx_matches :: "string list \<Rightarrow> string list \<Rightarrow> bool"
  cx_paths :: "string list"
  cx_markdown :: string
  cx_publishes :: bool
  cx_members :: "(string \<times> local_pipeline list) list"
  cx_deploys :: bool
  cx_tagging :: bool
  cx_from_ci :: bool
  cx_watch :: bool
  cx_text :: "'e release_error \<Rightarrow> string"

record ('e, 'w) execution =
  x_world :: "('e, 'w) world"
  x_state :: in_progress
  x_pushed :: bool
  x_push_attempted :: bool
  x_candidate :: string
  x_tip :: string
  x_last :: "(string \<times> string) option"

type_synonym ('e, 'w, 'a) release_act = "(('e, 'w) execution, 'e release_error, 'a) act"

definition git_call :: "(('e, 'w) world, 'e git_error, 'a) act \<Rightarrow> ('e, 'w, 'a) release_act" where
  "git_call m x = (case m (x_world x) of (r, w) \<Rightarrow> (with_error GitStopped r, x\<lparr>x_world := w\<rparr>))"

text \<open>
  An operation takes a turn as git does; the events it stands for are logged when it is tried.
\<close>

definition op_call :: "event list \<Rightarrow> ('w, 'e, 'a) act \<Rightarrow> ('e, 'w, 'a) release_act" where
  "op_call ev m x =
     (case next_turn (x_world x) of
        (None, w) \<Rightarrow>
          (case m (w_rest w) of (r, rest) \<Rightarrow>
             (with_error OpStopped r, x\<lparr>x_world := w\<lparr>w_rest := rest, w_log := ev @ w_log w\<rparr>\<rparr>))
      | (Some (e, landed), w) \<Rightarrow>
          (Inl (GitStopped e),
           x\<lparr>x_world := (if landed then w\<lparr>w_rest := snd (m (w_rest w)), w_log := ev @ w_log w\<rparr> else w)\<rparr>))"

definition set_walk :: "(('e, 'w) execution \<Rightarrow> ('e, 'w) execution) \<Rightarrow> ('e, 'w, unit) release_act" where
  "set_walk f x = (Inr (), f x)"

definition get_walk :: "(('e, 'w) execution \<Rightarrow> 'a) \<Rightarrow> ('e, 'w, 'a) release_act" where
  "get_walk f x = (Inr (f x), x)"

definition with_state :: "(in_progress \<Rightarrow> in_progress) \<Rightarrow> ('e, 'w, unit) release_act" where
  "with_state f = set_walk (\<lambda>x. x\<lparr>x_state := f (x_state x)\<rparr>)"

text \<open>SaveInProgress refuses a state its reader would refuse.\<close>

definition save_state :: "in_progress \<Rightarrow> ('e, 'w, unit) release_act" where
  "save_state st =
     aguard (ip_releasable st = []) (Refuse StateUnnamed)
     (aguard (state_problems st \<noteq> []) (Refuse (StateUnsound (state_problems st)))
       (git_call (git_write (\<lambda>w. Inr (w\<lparr>w_saved := Some st\<rparr>)))))"

definition clear_state :: "('e, 'w, unit) release_act" where
  "clear_state = git_call (git_write (\<lambda>w. Inr (w\<lparr>w_saved := None\<rparr>)))"

definition save :: "('e, 'w, unit) release_act" where
  "save = abind (get_walk x_state) save_state"

definition complete :: "string \<Rightarrow> ('e, 'w, unit) release_act" where
  "complete step = abind (with_state (complete_step step)) (\<lambda>_. save)"

definition branch_ref :: "('e, 'w) release_context \<Rightarrow> string" where
  "branch_ref X = ''refs/heads/'' @ cx_branch X"

definition completed :: "string \<Rightarrow> ('e, 'w, bool) release_act" where
  "completed step = get_walk (\<lambda>x. step_completed (x_state x) step)"

section \<open>The release checkout\<close>

definition advanced_to :: "string \<Rightarrow> string \<Rightarrow> ('e, 'w) execution \<Rightarrow> ('e, 'w) execution" where
  "advanced_to old new x = x\<lparr>x_tip := new, x_last := Some (old, new)\<rparr>"

definition unwound_to :: "string \<Rightarrow> ('e, 'w) execution \<Rightarrow> ('e, 'w) execution" where
  "unwound_to old x = x\<lparr>x_tip := old, x_last := None\<rparr>"

definition edited_among :: "string list \<Rightarrow> ('e, 'w, string list) release_act" where
  "edited_among paths =
     git_call (git_read (\<lambda>w. Inr (filter (\<lambda>p. p \<in> set paths) (w_edits w))))"

definition restore_paths :: "('e, 'w, unit) release_act" where
  "restore_paths = git_call (git_write (\<lambda>w. Inr w))"

text \<open>A swap that fails is read again: a branch that moved is refused as moved.\<close>

definition swap_or_moved :: "('e, 'w) release_context \<Rightarrow> string \<Rightarrow> string \<Rightarrow> ('e, 'w, unit) release_act" where
  "swap_or_moved X new old =
     acatch (git_call (swap_ref (branch_ref X) new old))
       (\<lambda>e. abind (git_call (resolve_ref (branch_ref X))) (\<lambda>now.
          afail (if now \<noteq> Some old then Refuse (BranchMoved old now) else e)))
       aret"

definition advance :: "('e, 'w) release_context \<Rightarrow> ('e, 'w, unit) release_act" where
  "advance X =
     abind (git_call checkout_head) (\<lambda>new.
     abind (get_walk x_tip) (\<lambda>old.
     if new = old then aret ()
     else
       abind (git_call (resolve_ref (branch_ref X))) (\<lambda>current.
       aguard (current \<noteq> Some old) (Refuse (BranchMoved old current))
      (abind (git_call head_branch) (\<lambda>head.
       aguard (head \<noteq> Some (cx_branch X)) (Refuse (NotOnBranch head))
      (abind (git_call (changed_between (cx_graph X) old new)) (\<lambda>paths.
       abind (edited_among paths) (\<lambda>blocking.
       aguard (blocking \<noteq> []) (Refuse (LiveTreeConflict blocking))
      (abind (swap_or_moved X new old) (\<lambda>_.
       abind restore_paths (\<lambda>_.
       set_walk (advanced_to old new))))))))))))"

text \<open>TakeBack: whether the branch is back, or why it was left alone.\<close>

definition take_back ::
  "('e, 'w) release_context \<Rightarrow> string \<Rightarrow> string \<Rightarrow> ('e, 'w, string option) release_act" where
  "take_back X from to =
     abind (git_call (resolve_ref (branch_ref X))) (\<lambda>current.
     if current \<noteq> Some from then aret (Some ''something was committed on top'')
     else
       abind (git_call (changed_between (cx_graph X) to from)) (\<lambda>paths.
       abind (edited_among paths) (\<lambda>edited.
       if edited \<noteq> [] then aret (Some ''files the release wrote were changed since'')
       else acatch (git_call (swap_ref (branch_ref X) to from))
              (\<lambda>_. aret (Some ''moved while it was being taken back''))
              (\<lambda>_. abind restore_paths (\<lambda>_. aret None)))))"

definition unwind_last_advance :: "('e, 'w) release_context \<Rightarrow> ('e, 'w, string option) release_act" where
  "unwind_last_advance X =
     abind (get_walk x_last) (\<lambda>last.
     case last of
       None \<Rightarrow> aret None
     | Some (old, new) \<Rightarrow>
         abind (take_back X new old) (\<lambda>reason.
         case reason of
           Some why \<Rightarrow> aret (Some why)
         | None \<Rightarrow> abind (set_walk (unwound_to old)) (\<lambda>_. aret None)))"

end
