(* ===== verification/Release_Walk.thy ===== *)
theory Release_Walk
  imports Release_Checkout
begin

text \<open>
  The walk of a release through its step table (internal/release/execute.go), the guards it
  makes on the way (guards.go) and the resume that continues it (run.go).
\<close>

section \<open>Guards\<close>

definition foreign_commits ::
  "history \<Rightarrow> string \<Rightarrow> string \<Rightarrow> string list \<Rightarrow> ('e, 'w, string list) release_act" where
  "foreign_commits G r pin created =
     (if pin = [] then aret []
      else abind (git_call (commits_since G r pin)) (\<lambda>cs. aret (filter (\<lambda>c. c \<notin> set created) cs)))"

definition guard_foreign :: "('e, 'w) release_context \<Rightarrow> string \<Rightarrow> ('e, 'w, unit) release_act" where
  "guard_foreign X checkpoint =
     abind (get_walk x_state) (\<lambda>st.
     abind (foreign_commits (cx_graph X) (branch_ref X) (ip_pin_commit st) (ip_created_commits st)) (\<lambda>foreign.
     aguard (foreign \<noteq> []) (Refuse (ForeignCommits checkpoint foreign)) (aret ())))"

definition checkpoint_entry :: string where "checkpoint_entry = ''mutating entry''"
definition checkpoint_candidate_push :: string where "checkpoint_candidate_push = ''candidate push''"
definition checkpoint_ci_gate :: string where "checkpoint_ci_gate = ''CI gate''"
definition checkpoint_final_push :: string where "checkpoint_final_push = ''final push''"

definition require_recorded_candidate ::
  "('e, 'w) release_context \<Rightarrow> string \<Rightarrow> ('e, 'w, string) release_act" where
  "require_recorded_candidate X recorded =
     aguard (recorded = []) (Refuse (Unverified []))
       (abind (git_call (resolve_id (cx_graph X) recorded)) (\<lambda>found.
        case found of
          None \<Rightarrow> afail (Refuse (Unverified recorded))
        | Some sha \<Rightarrow>
            abind (git_call (ancestry_of (cx_graph X) sha (branch_ref X))) (\<lambda>verdict.
            aguard (verdict \<noteq> IsAncestor) (Refuse (Unverified sha)) (aret sha))))"

datatype candidate_window = WindowTriggers | WindowOwesDispatch

text \<open>
  The base of a window whose candidate is on origin already: the parent of the first of the
  release's own commits git can resolve; an error is passed over.
\<close>

fun first_parent :: "history \<Rightarrow> string list \<Rightarrow> string \<Rightarrow> ('e, 'w, string) release_act" where
  "first_parent G [] base = aret base"
| "first_parent G (c # cs) base =
     acatch (git_call (git_read (\<lambda>_. Inr (gr_parent G c))))
       (\<lambda>_. first_parent G cs base)
       (\<lambda>found. case found of Some parent \<Rightarrow> aret parent | None \<Rightarrow> first_parent G cs base)"

definition judge_candidate_window ::
  "('e, 'w) release_context \<Rightarrow> string \<Rightarrow> string \<Rightarrow> bool \<Rightarrow> bool \<Rightarrow> string list \<Rightarrow> ('e, 'w, candidate_window) release_act" where
  "judge_candidate_window X candidate remote needs_push published_before created =
     (if \<not> cx_workspace X \<or> remote = [] then aret WindowTriggers
      else abind (op_call [] (op_filters (cx_prepare X))) (\<lambda>projects.
        if projects = [] then aret WindowTriggers
        else
          abind (if needs_push then aret remote else first_parent (cx_graph X) created remote) (\<lambda>base.
          abind (git_call (changed_between (cx_graph X) base candidate)) (\<lambda>changed.
          if list_ex (\<lambda>(_, patterns). cx_matches X changed patterns) projects then aret WindowTriggers
          else
            abind (op_call [] (op_has_router (cx_prepare X))) (\<lambda>router.
            if router \<and> needs_push \<and> published_before then aret WindowOwesDispatch
            else afail (Refuse WindowRefused))))))"

definition push_is_clean :: "('e, 'w) release_context \<Rightarrow> string \<Rightarrow> string \<Rightarrow> ('e, 'w, unit) release_act" where
  "push_is_clean X tip remote =
     (if remote = [] then op_call [] (op_scan_range (cx_prepare X) tip [])
      else abind (git_call (resolve_id (cx_graph X) remote)) (\<lambda>found.
        aguard (found = None) (Refuse (UnknownOriginCommit remote))
          (op_call [] (op_scan_range (cx_prepare X) tip [remote]))))"

section \<open>Committing\<close>

definition commit_call ::
  "('e, 'w) release_context \<Rightarrow> string \<Rightarrow> string list \<Rightarrow> bool \<Rightarrow> ('e, 'w, bool) release_act" where
  "commit_call X message paths require x =
     (let m = op_commit (cx_prepare X) message paths require;
          made = (\<lambda>r w. case r of Inr (Some c) \<Rightarrow> w\<lparr>w_checkout := c\<rparr> | _ \<Rightarrow> w)
      in case next_turn (x_world x) of
           (None, w) \<Rightarrow>
             (case m (w_rest w) of (r, rest) \<Rightarrow>
                (case r of Inl e \<Rightarrow> Inl (OpStopped e) | Inr c \<Rightarrow> Inr (c \<noteq> None), x\<lparr>x_world := made r (w\<lparr>w_rest := rest\<rparr>)\<rparr>))
         | (Some (e, landed), w) \<Rightarrow>
             (Inl (GitStopped e),
              x\<lparr>x_world := (if landed then (case m (w_rest w) of (r, rest) \<Rightarrow> made r (w\<lparr>w_rest := rest\<rparr>)) else w)\<rparr>))"

definition add_created :: "string \<Rightarrow> in_progress \<Rightarrow> in_progress" where
  "add_created c st =
     (if c \<in> set (ip_created_commits st) then st else st\<lparr>ip_created_commits := ip_created_commits st @ [c]\<rparr>)"

definition record_created :: "('e, 'w, unit) release_act" where
  "record_created = abind (git_call checkout_head) (\<lambda>c. abind (with_state (add_created c)) (\<lambda>_. save))"

definition commit ::
  "('e, 'w) release_context \<Rightarrow> string \<Rightarrow> string list \<Rightarrow> bool \<Rightarrow> ('e, 'w, unit) release_act" where
  "commit X message paths require =
     abind (commit_call X message paths require) (\<lambda>committed.
     abind (if committed then record_created else aret ()) (\<lambda>_.
     advance X))"

definition path_set :: "string list \<Rightarrow> string list" where
  "path_set ps = fold (\<lambda>p out. if p \<noteq> [] \<and> p \<notin> set out then out @ [p] else out) ps []"

definition bump_and_commit :: "('e, 'w) release_context \<Rightarrow> ('e, 'w, unit) release_act" where
  "bump_and_commit X =
     abind (completed step_committed) (\<lambda>done.
     if done then aret ()
     else
       abind (op_call [] (op_plan (cx_prepare X))) (\<lambda>(planned, already).
       abind (op_call [] (op_bump (cx_prepare X))) (\<lambda>written.
       abind (complete step_version_bumped) (\<lambda>_.
       abind (get_walk x_state) (\<lambda>st.
       abind (commit X (ip_commit_message st) (path_set (planned @ written)) (cx_current X \<noteq> cx_version X \<and> \<not> already)) (\<lambda>_.
       complete step_committed))))))"

section \<open>The candidate\<close>

definition set_candidate :: "string \<Rightarrow> ('e, 'w, unit) release_act" where
  "set_candidate c = set_walk (\<lambda>x. x\<lparr>x_candidate := c\<rparr>)"

definition set_pushed :: "('e, 'w, unit) release_act" where
  "set_pushed = set_walk (\<lambda>x. x\<lparr>x_pushed := True\<rparr>)"

definition set_push_attempted :: "('e, 'w, unit) release_act" where
  "set_push_attempted = set_walk (\<lambda>x. x\<lparr>x_push_attempted := True\<rparr>)"

definition state_release_commit :: "string \<Rightarrow> ('e, 'w, unit) release_act" where
  "state_release_commit c = with_state (\<lambda>st. st\<lparr>ip_release_commit := c\<rparr>)"

definition state_run_all :: "string \<Rightarrow> ('e, 'w, unit) release_act" where
  "state_run_all c = with_state (\<lambda>st. st\<lparr>ip_run_all_dispatch_for := c\<rparr>)"

definition adopt_batch_candidate :: "('e, 'w) release_context \<Rightarrow> ('e, 'w, unit) release_act" where
  "adopt_batch_candidate X =
     abind (completed step_candidate_pushed) (\<lambda>pushed.
     aguard (\<not> pushed) (Refuse (BatchUnpushed (cx_verified X)))
    (abind (git_call (ancestry_of (cx_graph X) (cx_verified X) (branch_ref X))) (\<lambda>verdict.
     aguard (verdict \<noteq> IsAncestor) (Refuse (Unverified (cx_verified X)))
    (abind (set_candidate (cx_verified X)) (\<lambda>_.
     abind set_pushed (\<lambda>_.
     abind (state_release_commit (cx_verified X)) (\<lambda>_.
     complete step_ci_verified)))))))"

definition push_new_candidate :: "('e, 'w) release_context \<Rightarrow> ('e, 'w, unit) release_act" where
  "push_new_candidate X =
     abind (get_walk x_tip) (\<lambda>candidate.
     abind (set_candidate candidate) (\<lambda>_.
     abind (state_release_commit candidate) (\<lambda>_.
     abind save (\<lambda>_.
     abind (guard_foreign X checkpoint_candidate_push) (\<lambda>_.
     abind (git_call (remote_ref (branch_ref X))) (\<lambda>found.
     let remote = (case found of None \<Rightarrow> [] | Some c \<Rightarrow> c); needs_push = (remote \<noteq> candidate) in
     abind (get_walk x_state) (\<lambda>st.
     abind (judge_candidate_window X candidate remote needs_push (step_completed st step_candidate_pushed) (ip_created_commits st)) (\<lambda>window.
     abind (if window = WindowOwesDispatch then abind (state_run_all candidate) (\<lambda>_. save) else aret ()) (\<lambda>_.
     abind (if needs_push
            then abind (push_is_clean X candidate remote) (\<lambda>_.
                 abind set_push_attempted (\<lambda>_.
                 git_call (push_fast_forward (cx_graph X) (branch_ref X) candidate (cx_push_timeout X)
                   [PushedCandidate candidate])))
            else aret ()) (\<lambda>_.
     abind set_pushed (\<lambda>_.
     complete step_candidate_pushed)))))))))))"

definition push_candidate :: "('e, 'w) release_context \<Rightarrow> ('e, 'w, unit) release_act" where
  "push_candidate X =
     abind (completed step_ci_verified) (\<lambda>verified.
     if verified then
       abind (op_call [] (op_fate (cx_prepare X))) (\<lambda>_.
       abind (get_walk x_state) (\<lambda>st.
       abind (require_recorded_candidate X (ip_release_commit st)) (\<lambda>c.
       abind (set_candidate c) (\<lambda>_. set_pushed))))
     else if cx_verified X \<noteq> [] then adopt_batch_candidate X
     else push_new_candidate X)"

definition log_event :: "event \<Rightarrow> ('e, 'w, unit) release_act" where
  "log_event ev = set_walk (\<lambda>x. x\<lparr>x_world := (x_world x)\<lparr>w_log := ev # w_log (x_world x)\<rparr>\<rparr>)"

definition ci_passes :: "ci_verdict \<Rightarrow> bool" where
  "ci_passes v \<longleftrightarrow> v = CiGreen \<or> v = CiNotConfigured"

definition verify_ci :: "('e, 'w) release_context \<Rightarrow> ('e, 'w, unit) release_act" where
  "verify_ci X =
     abind (completed step_ci_verified) (\<lambda>verified.
     if verified then aret ()
     else
       abind (get_walk x_candidate) (\<lambda>candidate.
       abind (get_walk x_state) (\<lambda>st.
       abind (if ip_run_all_dispatch_for st = candidate
              then abind (op_call [Dispatched candidate] (op_dispatch (cx_prepare X) candidate)) (\<lambda>_.
                   abind (state_run_all []) (\<lambda>_. save))
              else aret ()) (\<lambda>_.
       abind (op_call [] (op_ci_filters (cx_prepare X))) (\<lambda>_.
       abind (op_call [] (op_ci (cx_prepare X) candidate)) (\<lambda>verdict.
       abind (log_event (Verdict candidate (ci_passes verdict))) (\<lambda>_.
       aguard (\<not> ci_passes verdict) (Refuse (CiRefused verdict))
      (abind (state_release_commit candidate) (\<lambda>_.
       complete step_ci_verified)))))))))"

section \<open>Settling\<close>

definition roll_up_path :: string where "roll_up_path = ''CHANGELOG.md''"

definition sole_version :: "('e, 'w) release_context \<Rightarrow> string" where
  "sole_version X = version_string (cx_version X)"

definition finalize_changelog :: "('e, 'w) release_context \<Rightarrow> ('e, 'w, unit) release_act" where
  "finalize_changelog X =
     (let released = changelog_dir (cx_name X) @ ''/'' @ version_name (cx_version X);
          unreleased = changelog_dir (cx_name X) @ ''/'' @ unreleased_name;
          paths = [released, unreleased, cx_markdown X] @ (if cx_workspace X then [roll_up_path] else []) in
      abind (op_call [] (op_exists (cx_settle X) released)) (\<lambda>there.
      abind (op_call [] (op_unreleased (cx_settle X))) (\<lambda>entries.
      if there \<and> entries = [] then complete step_changelog_finalized
      else
        abind (op_call [] (op_exists (cx_settle X) unreleased)) (\<lambda>begun.
        abind (if begun then aret () else op_call [] (op_make_unreleased (cx_settle X))) (\<lambda>_.
        abind (op_call [FinalizedChangelog] (op_finalize (cx_settle X))) (\<lambda>_.
        abind (commit X (''chore: finalize changelog for '' @ sole_version X) paths False) (\<lambda>_.
        complete step_changelog_finalized)))))))"

definition tree_of :: "('e, 'w) release_context \<Rightarrow> string \<Rightarrow> string \<Rightarrow> ('e, 'w, string \<times> string) release_act" where
  "tree_of X candidate p =
     abind (op_call [] (op_tree_at (cx_settle X) candidate p)) (\<lambda>found.
     case found of None \<Rightarrow> afail (Refuse (NoReleasedTree p)) | Some tree \<Rightarrow> aret (p, tree))"

definition trees_of :: "('e, 'w) release_context \<Rightarrow> string \<Rightarrow> ('e, 'w, (string \<times> string) list) release_act" where
  "trees_of X candidate =
     afold (\<lambda>trees p. abind (tree_of X candidate p) (\<lambda>t. aret (trees @ [t]))) []
       (if cx_workspace X then cx_paths X else [''.''])"

definition archive_release :: "('e, 'w) release_context \<Rightarrow> ('e, 'w, unit) release_act" where
  "archive_release X =
     (let archived = archive_path (archive_dir (cx_name X)) (cx_version X);
          file = release_file_path (cx_name X) in
      abind (get_walk x_candidate) (\<lambda>candidate.
      abind (trees_of X candidate) (\<lambda>trees.
      let rc = \<lparr>rc_commit = candidate, rc_trees = trees\<rparr> in
      abind (op_call [] (op_exists (cx_settle X) file)) (\<lambda>has_file.
      abind (op_call [] (op_exists (cx_settle X) archived)) (\<lambda>has_archive.
      abind (op_call [] (op_resolved_hits (cx_settle X))) (\<lambda>resolved.
      abind (get_walk x_state) (\<lambda>st.
      abind (if has_file \<or> has_archive
             then op_call [ArchivedAt candidate] (op_archive_file (cx_settle X) rc resolved)
             else aguard (isl (parse_bump (ip_bump st)) \<or> trim_space (ip_description st) = []) (Refuse NothingToArchive)
               (op_call [ArchivedAt candidate] (op_write_archive (cx_settle X) rc resolved))) (\<lambda>_.
      abind (op_call [] (op_date (cx_settle X) candidate)) (\<lambda>date.
      abind (op_call [] (op_activate (cx_settle X) date)) (\<lambda>converted.
      abind (op_call [] (op_regenerate (cx_settle X))) (\<lambda>regenerated.
      abind (commit X (''chore: finalize release file for '' @ sole_version X)
        ([archived, file] @ (if converted then [op_record_file (cx_settle X)] else []) @ regenerated) False) (\<lambda>_.
      complete step_release_archived))))))))))))"

definition tag_one :: "('e, 'w) release_context \<Rightarrow> string \<Rightarrow> string \<Rightarrow> ('e, 'w, unit) release_act" where
  "tag_one X candidate tag =
     abind (git_call (tag_commit tag)) (\<lambda>found.
     case found of
       Some sha \<Rightarrow> aguard (sha \<noteq> candidate) (Refuse (TagElsewhere tag sha)) (aret ())
     | None \<Rightarrow> git_call (create_ref (tag_ref tag) candidate [CreatedTag tag candidate]))"

definition tag_release :: "('e, 'w) release_context \<Rightarrow> ('e, 'w, unit) release_act" where
  "tag_release X =
     abind (op_call [] (op_refs (cx_settle X))) (\<lambda>(primary, companions).
     abind (get_walk x_state) (\<lambda>st.
     aguard (primary \<noteq> ip_tag st) (Refuse (OtherTag (ip_tag st) primary))
    (abind (op_call [] (op_scan_texts (cx_settle X) (primary # companions))) (\<lambda>_.
     abind (get_walk x_candidate) (\<lambda>candidate.
     abind (aeach (tag_one X candidate) (primary # companions)) (\<lambda>_.
     abind (with_state (\<lambda>st. st\<lparr>ip_companion_tags := companions\<rparr>)) (\<lambda>_.
     complete step_tagged)))))))"

definition push_tag :: "('e, 'w) release_context \<Rightarrow> string \<Rightarrow> string \<Rightarrow> ('e, 'w, unit) release_act" where
  "push_tag X candidate tag =
     abind (git_call (remote_tag_commit tag)) (\<lambda>there.
     case there of
       Some sha \<Rightarrow> aguard (sha \<noteq> candidate) (Refuse (OriginTagElsewhere tag sha)) (aret ())
     | None \<Rightarrow> git_call (push \<lparr>ru_ref = tag_ref tag, ru_new = candidate, ru_expected = []\<rparr> (cx_push_timeout X)
         [PushedTag tag candidate]))"

definition push_release :: "('e, 'w) release_context \<Rightarrow> ('e, 'w, unit) release_act" where
  "push_release X =
     abind (guard_foreign X checkpoint_final_push) (\<lambda>_.
     abind (git_call (resolve_ref (branch_ref X))) (\<lambda>tip.
     case tip of
       None \<Rightarrow> afail (Refuse BranchGone)
     | Some tip \<Rightarrow>
         abind (git_call (remote_ref (branch_ref X))) (\<lambda>found.
         let remote = (case found of None \<Rightarrow> [] | Some c \<Rightarrow> c) in
         abind (if remote \<noteq> tip
                then abind (push_is_clean X tip remote) (\<lambda>_.
                     abind set_push_attempted (\<lambda>_.
                     git_call (push_fast_forward (cx_graph X) (branch_ref X) tip (cx_push_timeout X) [PushedTip tip])))
                else aret ()) (\<lambda>_.
         abind (get_walk x_state) (\<lambda>st.
         abind (get_walk x_candidate) (\<lambda>candidate.
         abind (aeach (push_tag X candidate) (ip_tag st # ip_companion_tags st)) (\<lambda>_.
         complete step_pushed)))))))"

section \<open>Shipping\<close>

text \<open>A creation GitHub answers with an error may still have made the release.\<close>

definition create_release :: "('e, 'w) release_context \<Rightarrow> string \<Rightarrow> ('e, 'w, bool) release_act" where
  "create_release X tag =
     acatch (op_call [MadeRelease] (op_create_release (cx_ship X)))
       (\<lambda>cerr. acatch (op_call [] (op_release_exists (cx_ship X) tag))
          (\<lambda>_. afail cerr) (\<lambda>made. if made then aret True else afail cerr))
       (\<lambda>_. aret False)"

definition github_release :: "('e, 'w) release_context \<Rightarrow> ('e, 'w, unit) release_act" where
  "github_release X =
     abind (op_call [] (op_notes (cx_ship X))) (\<lambda>tag.
     abind (op_call [] (op_release_exists (cx_ship X) tag)) (\<lambda>there.
     abind (if there then aret True else create_release X tag) (\<lambda>there.
     abind (if there then op_call [] (op_marker (cx_ship X)) else aret ()) (\<lambda>_.
     abind (if cx_tagging X \<and> cx_publishes X then op_call [] (op_topic (cx_ship X)) else aret ()) (\<lambda>_.
     complete step_github_release)))))"

definition pipeline_key :: "string \<Rightarrow> local_pipeline \<Rightarrow> string" where
  "pipeline_key member p = member @ ''/'' @ lp_name p"

definition add_published :: "string \<Rightarrow> in_progress \<Rightarrow> in_progress" where
  "add_published key st = st\<lparr>ip_published_targets := ip_published_targets st @ [key]\<rparr>"

definition publish_pipeline ::
  "('e, 'w) release_context \<Rightarrow> string \<Rightarrow> string list \<Rightarrow> local_pipeline \<Rightarrow> ('e, 'w, unit) release_act" where
  "publish_pipeline X member targets p =
     (let key = pipeline_key member p in
      if \<not> lp_local p then aret ()
      else abind (get_walk x_state) (\<lambda>st.
        if key \<in> set (ip_published_targets st) then aret ()
        else
          aguard (lp_target p \<notin> set targets) (Refuse (NoSuchTarget key))
         (abind (op_call [PublishedPipeline key] (op_publish (cx_ship X) key)) (\<lambda>_.
          abind (with_state (add_published key)) (\<lambda>_. save)))))"

definition publish_member ::
  "('e, 'w) release_context \<Rightarrow> string \<times> local_pipeline list \<Rightarrow> ('e, 'w, unit) release_act" where
  "publish_member X m =
     abind (op_call [] (op_targets (cx_ship X) (fst m))) (\<lambda>targets.
     aeach (publish_pipeline X (fst m) targets) (snd m))"

definition publish_pipelines :: "('e, 'w) release_context \<Rightarrow> ('e, 'w, unit) release_act" where
  "publish_pipelines X =
     abind (if cx_publishes X then aeach (publish_member X) (sort_key fst (cx_members X)) else aret ()) (\<lambda>_.
     complete step_pipelines_published)"

definition deploy :: "('e, 'w) release_context \<Rightarrow> ('e, 'w, unit) release_act" where
  "deploy X =
     abind (if cx_deploys X then op_call [RanDeploy] (op_deploy (cx_ship X)) else aret ()) (\<lambda>_.
     complete step_deployed)"

definition post_release_hooks :: "('e, 'w) release_context \<Rightarrow> ('e, 'w, unit) release_act" where
  "post_release_hooks X =
     abind (completed step_hooks_run) (\<lambda>ran.
     if ran then aret ()
     else abind (op_call [] (op_hook_runs (cx_ship X))) (\<lambda>_.
       acatch (op_call [RanHooks] (op_run_hooks (cx_ship X)))
         (\<lambda>e. abind (with_state (fail_step step_hooks_run (cx_text X e))) (\<lambda>_. save))
         (\<lambda>_. complete step_hooks_run)))"

definition publication_delays :: "nat list" where
  "publication_delays = [0, 5, 15, 30, 60, 90, 120]"

fun await_publication ::
  "(nat \<Rightarrow> ('s, 'e, unit) act) \<Rightarrow> ('s, 'e, string list) act \<Rightarrow> nat list \<Rightarrow> string list \<Rightarrow> ('s, 'e, string list) act" where
  "await_publication pause missing [] out = aret out"
| "await_publication pause missing (d # ds) out =
     abind (if 0 < d then pause d else aret ()) (\<lambda>_.
     abind missing (\<lambda>out. if out = [] then aret [] else await_publication pause missing ds out))"

definition verify_publication :: "('e, 'w) release_context \<Rightarrow> ('e, 'w, unit) release_act" where
  "verify_publication X =
     (if \<not> cx_publishes X then aret ()
      else abind (op_call [] (op_publishable (cx_ship X))) (\<lambda>packages.
        abind (await_publication (\<lambda>d. op_call [] (op_wait (cx_ship X) d))
          (op_call [] (op_unlisted (cx_ship X) packages)) publication_delays []) (\<lambda>missing.
        aguard (missing \<noteq> []) (Refuse (NotListed missing)) (aret ()))))"

definition epilogue :: "('e, 'w) release_context \<Rightarrow> ('e, 'w, unit) release_act" where
  "epilogue X =
     abind (get_walk x_state) (\<lambda>st.
     aguard (ip_failed st \<noteq> []) (Refuse (FailedSteps (sort_key fst (ip_failed st))))
    (aguard (missing_steps step_names st \<noteq> []) (Refuse (StepsMissing (missing_steps step_names st)))
    (abind clear_state (\<lambda>_.
     abind (get_walk x_candidate) (\<lambda>candidate.
     abind (if cx_from_ci X then op_call [] (op_confirm (cx_ship X) (ip_tag st) candidate) else aret ()) (\<lambda>_.
     if \<not> cx_watch X then aret ()
     else abind (op_call [] (op_watch (cx_ship X) candidate)) (\<lambda>failing.
       aguard (failing \<noteq> []) (Refuse (CiFailedAfter failing)) (verify_publication X))))))))"

section \<open>Stopping\<close>

fun is_ci_error :: "'e release_error \<Rightarrow> bool" where
  "is_ci_error (Refuse (CiRefused _)) = True"
| "is_ci_error (Refuse WindowRefused) = True"
| "is_ci_error _ = False"

fun is_guard_error :: "'e release_error \<Rightarrow> bool" where
  "is_guard_error (Refuse (ForeignCommits _ _)) = True"
| "is_guard_error (Refuse (Unverified _)) = True"
| "is_guard_error _ = False"

definition push_timed_out :: "'e release_error \<Rightarrow> bool" where
  "push_timed_out e \<longleftrightarrow> e = GitStopped GitTimedOut"

text \<open>Run an action for an error: the action's own error is joined to it.\<close>

definition then_fail ::
  "('e, 'w, unit) release_act \<Rightarrow> 'e release_error \<Rightarrow> 'e release_error \<Rightarrow> ('e, 'w, 'a) release_act" where
  "then_fail m e final = acatch m (\<lambda>e'. afail (Both e e')) (\<lambda>_. afail final)"

definition discard :: "('e, 'w) release_context \<Rightarrow> 'e release_error \<Rightarrow> ('e, 'w, 'a) release_act" where
  "discard X e =
     acatch (unwind_last_advance X) (\<lambda>e'. afail (Both e e')) (\<lambda>reason.
       case reason of
         Some why \<Rightarrow>
           then_fail (abind (with_state (fail_step step_candidate_pushed (cx_text X e))) (\<lambda>_. save)) e
             (NotTakenBack e why)
       | None \<Rightarrow> then_fail (if cx_resuming X then save_state (cx_entry X) else clear_state) e (Discarded e))"

definition stop :: "('e, 'w) release_context \<Rightarrow> string \<Rightarrow> 'e release_error \<Rightarrow> ('e, 'w, 'a) release_act" where
  "stop X step e =
     abind (get_walk (\<lambda>x. (x_pushed x, x_push_attempted x))) (\<lambda>(pushed, attempted).
     let timed_out = (attempted \<and> push_timed_out e) in
     if \<not> pushed \<and> \<not> timed_out \<and> \<not> is_ci_error e then discard X e
     else
       then_fail (abind (with_state (fail_step step (cx_text X e))) (\<lambda>_. save)) e
         (if is_ci_error e \<or> is_guard_error e then e
          else if timed_out \<and> \<not> pushed then PushUnknown e
          else KeptFor step e))"

definition stopping ::
  "('e, 'w) release_context \<Rightarrow> string \<Rightarrow> ('e, 'w, 'a) release_act \<Rightarrow> ('e, 'w, 'a) release_act" where
  "stopping X step m = acatch m (stop X step) aret"

section \<open>The walk\<close>

definition settle_steps :: "('e, 'w) release_context \<Rightarrow> (string \<times> ('e, 'w, unit) release_act) list" where
  "settle_steps X =
     [(step_changelog_finalized, finalize_changelog X), (step_release_archived, archive_release X),
      (step_tagged, tag_release X), (step_pushed, push_release X), (step_github_release, github_release X),
      (step_pipelines_published, publish_pipelines X), (step_deployed, deploy X)]"

definition take_step ::
  "('e, 'w) release_context \<Rightarrow> string \<times> ('e, 'w, unit) release_act \<Rightarrow> ('e, 'w, unit) release_act" where
  "take_step X s =
     abind (completed (fst s)) (\<lambda>done. if done then aret () else stopping X (fst s) (snd s))"

definition walk_to_verdict :: "('e, 'w) release_context \<Rightarrow> ('e, 'w, unit) release_act" where
  "walk_to_verdict X =
     abind (stopping X step_candidate_pushed (push_candidate X)) (\<lambda>_.
     abind (stopping X step_ci_verified (verify_ci X)) (\<lambda>_.
     stopping X step_changelog_finalized (guard_foreign X checkpoint_ci_gate)))"

definition walk_from_verdict :: "('e, 'w) release_context \<Rightarrow> ('e, 'w, unit) release_act" where
  "walk_from_verdict X =
     abind (aeach (take_step X) (settle_steps X)) (\<lambda>_.
     abind (post_release_hooks X) (\<lambda>_. epilogue X))"

definition run_walk :: "('e, 'w) release_context \<Rightarrow> ('e, 'w, unit) release_act" where
  "run_walk X =
     abind (stopping X step_version_bumped (guard_foreign X checkpoint_entry)) (\<lambda>_.
     abind (stopping X step_committed (bump_and_commit X)) (\<lambda>_.
     if cx_defer X then aret ()
     else abind (walk_to_verdict X) (\<lambda>_. walk_from_verdict X)))"

section \<open>Resuming\<close>

text \<open>The session's entry: the checkout is put at the branch tip.\<close>

definition enter :: "('e, 'w) release_context \<Rightarrow> ('e, 'w, string) release_act" where
  "enter X =
     abind (git_call (resolve_ref (branch_ref X))) (\<lambda>found.
     case found of
       None \<Rightarrow> afail (Refuse (BranchMoved [] None))
     | Some tip \<Rightarrow>
         abind (op_call [] (op_prepare (cx_prepare X) tip)) (\<lambda>_.
         abind (set_walk (\<lambda>x. x\<lparr>x_tip := tip, x_last := None, x_pushed := False, x_push_attempted := False,
           x_candidate := [], x_world := (x_world x)\<lparr>w_checkout := tip\<rparr>\<rparr>)) (\<lambda>_. aret tip)))"

definition drop_step :: "string \<Rightarrow> in_progress \<Rightarrow> in_progress" where
  "drop_step step st = st\<lparr>ip_completed := filter ((\<noteq>) step) (ip_completed st)\<rparr>"

text \<open>
  A resume adopts the commits made since the stop once the changelog covers them; a finalized
  changelog leaves them for the next release. An adopted commit voids the recorded verdict.
\<close>

definition adopt :: "string \<Rightarrow> string list \<Rightarrow> in_progress \<Rightarrow> in_progress" where
  "adopt tip adopted st =
     (let st = (if adopted \<noteq> [] \<and> step_completed st step_ci_verified
                then (drop_step step_ci_verified st)\<lparr>ip_release_commit := []\<rparr> else st)
      in st\<lparr>ip_pin_commit := tip\<rparr>)"

text \<open>A walk begins with nothing pushed and no candidate.\<close>

definition begin_walk :: "in_progress \<Rightarrow> ('e, 'w) execution \<Rightarrow> ('e, 'w) execution" where
  "begin_walk st x = x\<lparr>x_state := st, x_pushed := False, x_push_attempted := False, x_candidate := []\<rparr>"

definition resume_state :: "('e, 'w) release_context \<Rightarrow> in_progress \<Rightarrow> ('e, 'w, unit) release_act" where
  "resume_state X st =
     aguard (unknown_steps step_names st \<noteq> []) (Refuse (UnknownSteps (unknown_steps step_names st)))
    (abind (git_call head_branch) (\<lambda>head.
     aguard (head \<noteq> Some (ip_branch st)) (Refuse (WrongBranch head))
    (abind (git_call checkout_head) (\<lambda>tip.
     abind (foreign_commits (cx_graph X) (branch_ref X) (ip_pin_commit st) (ip_created_commits st)) (\<lambda>since.
     let adopted = (if step_completed st step_changelog_finalized then [] else since) in
     abind (if adopted = [] then aret [] else op_call [] (op_covered (cx_prepare X) adopted)) (\<lambda>uncovered.
     aguard (uncovered \<noteq> []) (Refuse (NotCovered uncovered))
    (abind (op_call [] (op_resumable (cx_prepare X))) (\<lambda>_.
     abind (set_walk (begin_walk (adopt tip adopted st))) (\<lambda>_.
     abind (if step_completed (adopt tip adopted st) step_changelog_finalized then aret []
            else op_call [] (op_regenerate (cx_settle X))) (\<lambda>_.
     abind save (\<lambda>_. run_walk (X\<lparr>cx_resuming := True, cx_entry := st\<rparr>))))))))))))"

definition resume_in :: "('e, 'w) release_context \<Rightarrow> ('e, 'w, unit) release_act" where
  "resume_in X =
     abind (git_call (git_read (\<lambda>w. Inr (w_saved w)))) (\<lambda>saved.
     case saved of
       None \<Rightarrow> afail (Refuse NothingInProgress)
     | Some st \<Rightarrow> resume_state X st)"

definition resume :: "('e, 'w) release_context \<Rightarrow> ('e, 'w, unit) release_act" where
  "resume X = abind (enter X) (\<lambda>_. resume_in X)"

section \<open>A release of one project\<close>

text \<open>
  A context whose operations all succeed and commit the ids the rest of the world hands out.
\<close>

definition cid :: "nat \<Rightarrow> string" where
  "cid n = (''0123456789'' ! (n mod 10)) # replicate 39 (CHR ''0'')"

definition line_graph :: history where
  "line_graph =
     \<lparr>gr_known = (\<lambda>c. c \<in> set (map cid [0..<10])),
      gr_ancestors = (\<lambda>c. case List.find (\<lambda>n. cid n = c) [0..<10] of
        Some n \<Rightarrow> map cid (rev [0..<Suc n]) | None \<Rightarrow> []),
      gr_parent = (\<lambda>c. None), gr_changed = (\<lambda>a b. [''f'']), gr_shallow = False\<rparr>"

definition hand_out :: "(string list, string, string option) act" where
  "hand_out w = (case w of [] \<Rightarrow> (Inr None, w) | c # cs \<Rightarrow> (Inr (Some c), cs))"

definition sample_prepare :: "(string, string list) candidate_ops" where
  "sample_prepare =
     \<lparr>op_prepare = (\<lambda>_. aret ()), op_resumable = aret (), op_plan = aret ([''v''], False), op_bump = aret [],
      op_commit = (\<lambda>_ _ _. hand_out), op_fate = aret FateRecorded, op_filters = aret [], op_has_router = aret False,
      op_scan_range = (\<lambda>_ _. aret ()), op_dispatch = (\<lambda>_. aret ()), op_ci_filters = aret (),
      op_ci = (\<lambda>_. aret CiGreen), op_covered = (\<lambda>_. aret [])\<rparr>"

definition sample_settle :: "(string, string list) settle_ops" where
  "sample_settle =
     \<lparr>op_exists = (\<lambda>_. aret True), op_unreleased = aret [''entry''], op_make_unreleased = aret (),
      op_finalize = aret (), op_tree_at = (\<lambda>_ _. aret (Some (cid 9))), op_resolved_hits = aret [],
      op_archive_file = (\<lambda>_ _. aret ()), op_write_archive = (\<lambda>_ _. aret ()), op_date = (\<lambda>_. aret []),
      op_activate = (\<lambda>_. aret False), op_record_file = [], op_regenerate = aret [],
      op_refs = aret (''v1.0.0'', [''a/v1.0.0'']), op_scan_texts = (\<lambda>_. aret ())\<rparr>"

definition sample_ship :: "(string, string list) ship_ops" where
  "sample_ship =
     \<lparr>op_notes = aret ''v1.0.0'', op_release_exists = (\<lambda>_. aret False), op_create_release = aret (),
      op_marker = aret (), op_topic = aret (), op_targets = (\<lambda>_. aret [''go'']), op_publish = (\<lambda>_. aret ()),
      op_deploy = aret (), op_hook_runs = aret (), op_run_hooks = aret (), op_confirm = (\<lambda>_ _. aret ()),
      op_watch = (\<lambda>_. aret []), op_publishable = aret [''app''], op_unlisted = (\<lambda>_. aret []),
      op_wait = (\<lambda>_. aret ())\<rparr>"

definition sample_context :: "(string, string list) release_context" where
  "sample_context =
     \<lparr>cx_graph = line_graph, cx_prepare = sample_prepare, cx_settle = sample_settle, cx_ship = sample_ship,
      cx_name = ''app'', cx_version = Version 1 0 0, cx_current = Version 0 9 0, cx_branch = ''main'',
      cx_resuming = False, cx_entry = sample_state, cx_defer = False, cx_verified = [], cx_push_timeout = 300,
      cx_workspace = False, cx_matches = (\<lambda>_ _. False), cx_paths = [''.''], cx_markdown = ''CHANGELOG.md'',
      cx_publishes = True,
      cx_members = [(''root'', [\<lparr>lp_name = ''bin'', lp_target = ''go'', lp_local = True\<rparr>])],
      cx_deploys = True, cx_tagging = True, cx_from_ci = True, cx_watch = True, cx_text = (\<lambda>_. ''stopped'')\<rparr>"

definition sample_walk :: "string turn list \<Rightarrow> (string, string list) execution" where
  "sample_walk ts =
     \<lparr>x_world = \<lparr>w_script = ts, w_refs = [''refs/heads/main'' \<mapsto> cid 0], w_origin = [''refs/heads/main'' \<mapsto> cid 0],
        w_head = Some ''main'', w_edits = [], w_checkout = cid 0, w_saved = None, w_log = [],
        w_rest = [cid 1, cid 2, cid 3]\<rparr>,
      x_state = sample_state\<lparr>ip_pre_release_commit := cid 0, ip_pin_commit := cid 0\<rparr>, x_pushed = False,
      x_push_attempted = False, x_candidate = [], x_tip = cid 0, x_last = None\<rparr>"

end
