(* ===== verification/Release_Order.thy ===== *)
theory Release_Order
  imports Release_Walk
begin

text \<open>
  What a walk does in order, and to which commit: the log of a walk, whatever other processes do
  between its calls and wherever it stops.
\<close>

section \<open>What leaves the log alone\<close>

definition still :: "('e, 'w) execution \<Rightarrow> ('e, 'w) execution \<Rightarrow> bool" where
  "still x y \<longleftrightarrow> x_candidate y = x_candidate x \<and> w_log (x_world y) = w_log (x_world x)"

named_theorems still_intros

lemma still_refl [simp]: "still x x"
  by (simp add: still_def)

lemma still_reflp: "reflp still" and still_transp: "transp still"
  by (auto simp: still_def reflp_def transp_def)

lemma still_abind [still_intros]: "acts still m \<Longrightarrow> (\<And>y. acts still (f y)) \<Longrightarrow> acts still (abind m f)"
  by (rule acts_abind [OF still_transp])

lemma still_aguard [still_intros]: "acts still m \<Longrightarrow> acts still (aguard b e m)"
  by (rule acts_aguard [OF still_reflp])

lemma still_aret [still_intros]: "acts still (aret y)" and still_afail [still_intros]: "acts still (afail e)"
  by (rule acts_aret acts_afail, rule still_reflp)+

lemma still_if [still_intros]: "acts still m \<Longrightarrow> acts still n \<Longrightarrow> acts still (if b then m else n)"
  by simp

lemma still_option [still_intros]:
  "acts still m \<Longrightarrow> (\<And>y. acts still (f y)) \<Longrightarrow> acts still (case z of None \<Rightarrow> m | Some y \<Rightarrow> f y)"
  by (cases z) simp_all

lemma still_prod [still_intros]: "(\<And>a b. acts still (f a b)) \<Longrightarrow> acts still (case p of (a, b) \<Rightarrow> f a b)"
  by (cases p) simp

lemma still_let [still_intros]: "acts still (f y) \<Longrightarrow> acts still (let z = y in f z)"
  by simp

lemma still_aeach [still_intros]: "(\<And>y. acts still (f y)) \<Longrightarrow> acts still (aeach f ys)"
  by (rule acts_aeach [OF still_reflp still_transp])

lemma still_afold [still_intros]: "(\<And>r y. acts still (f r y)) \<Longrightarrow> acts still (afold f r ys)"
  by (rule acts_afold [OF still_reflp still_transp])

lemma still_get_walk [still_intros]: "acts still (get_walk f)"
  by (simp add: acts_def get_walk_def)

lemma still_with_state [still_intros]: "acts still (with_state f)"
  by (simp add: acts_def with_state_def set_walk_def still_def)

lemma still_set_walk: "(\<And>x. still x (f x)) \<Longrightarrow> acts still (set_walk f)"
  by (simp add: acts_def set_walk_def)

lemma still_flags [still_intros]:
  "acts still set_pushed" "acts still set_push_attempted" "acts still (set_walk (advanced_to old new))"
  "acts still (set_walk (unwound_to old))" "acts still (state_release_commit c)" "acts still (state_run_all c)"
  by (auto simp: set_pushed_def set_push_attempted_def state_release_commit_def state_run_all_def still_def
      advanced_to_def unwound_to_def intro!: still_set_walk still_with_state)

lemma log_others [simp]: "w_log (others ms w) = w_log w"
  by (induction ms w rule: others.induct) simp_all

lemma log_next_turn: "next_turn w = (t, w') \<Longrightarrow> w_log w' = w_log w"
  by (auto simp: next_turn_def split: list.splits turn.splits)

definition same_log :: "('e, 'w) world \<Rightarrow> ('e, 'w) world \<Rightarrow> bool" where
  "same_log v w \<longleftrightarrow> w_log w = w_log v"

lemma git_read_log: "acts same_log (git_read f)"
  by (auto simp: acts_def git_read_def same_log_def split: prod.split option.split dest: log_next_turn)

lemma git_write_log: "(\<And>w v. f w = Inr v \<Longrightarrow> w_log v = w_log w) \<Longrightarrow> acts same_log (git_write f)"
  by (auto simp: acts_def git_write_def same_log_def split: prod.splits option.splits sum.splits dest: log_next_turn)

lemma same_log_abind: "acts same_log m \<Longrightarrow> (\<And>y. acts same_log (f y)) \<Longrightarrow> acts same_log (abind m f)"
  by (rule acts_abind) (auto simp: same_log_def transp_def)

lemma same_log_guard: "acts same_log m \<Longrightarrow> acts same_log (aguard b e m)"
  by (rule acts_aguard) (auto simp: same_log_def reflp_def)

lemma same_log_aret: "acts same_log (aret y)"
  by (simp add: acts_def same_log_def)

lemmas same_log_intros = git_read_log git_write_log same_log_abind same_log_guard same_log_aret

lemma git_questions_log:
  "acts same_log (resolve_ref r)" "acts same_log (resolve_id G c)" "acts same_log checkout_head" "acts same_log head_branch"
  "acts same_log (remote_ref r)" "acts same_log (tag_commit tag)" "acts same_log (remote_tag_commit tag)"
  "acts same_log (changed_between G a b)" "acts same_log (commits_since G r b)" "acts same_log (ancestry_of G c r)"
  "acts same_log (swap_ref r new old)" "acts same_log (git_read f)"
  unfolding resolve_ref_def resolve_id_def checkout_head_def head_branch_def remote_ref_def tag_commit_def
    remote_tag_commit_def changed_between_def commits_since_def ancestry_of_def is_shallow_def swap_ref_def
  by (auto intro!: same_log_intros split: option.split bool.split if_splits)

lemma still_git_call: "acts same_log m \<Longrightarrow> acts still (git_call m)"
  by (auto simp: acts_def git_call_def still_def same_log_def split: prod.split) (metis snd_conv)

lemmas still_git = git_questions_log [THEN still_git_call]
declare still_git [still_intros]

lemma still_op_call [still_intros]: "acts still (op_call [] m)"
  by (auto simp: acts_def op_call_def still_def split: prod.split option.split dest: log_next_turn)

lemma still_save_state [still_intros]: "acts still (save_state st)"
  unfolding save_state_def by (auto intro!: still_intros still_git_call git_write_log)

lemma still_clear_state [still_intros]: "acts still clear_state"
  unfolding clear_state_def by (auto intro!: still_git_call git_write_log)

lemma still_save [still_intros]: "acts still save"
  unfolding save_def by (intro still_intros)

lemma still_complete [still_intros]: "acts still (complete step)"
  unfolding complete_def by (intro still_intros)

lemma still_completed [still_intros]: "acts still (completed step)"
  unfolding completed_def by (intro still_intros)

lemma still_restore_paths [still_intros]: "acts still restore_paths"
  unfolding restore_paths_def by (auto intro!: still_git_call git_write_log)

lemma still_edited_among [still_intros]: "acts still (edited_among paths)"
  unfolding edited_among_def by (intro still_intros)

lemma still_acatch [still_intros]:
  "acts still m \<Longrightarrow> (\<And>e. acts still (f e)) \<Longrightarrow> (\<And>y. acts still (g y)) \<Longrightarrow> acts still (acatch m f g)"
  by (rule acts_acatch [OF still_transp])

lemma still_checkout [still_intros]:
  "acts still (swap_or_moved X new old)" "acts still (advance X)" "acts still (take_back X from to)"
  "acts still (unwind_last_advance X)"
  unfolding swap_or_moved_def advance_def take_back_def unwind_last_advance_def by (intro still_intros)+

lemma still_commit_call [still_intros]: "acts still (commit_call X message paths require)"
  by (auto simp: acts_def commit_call_def Let_def still_def split: prod.split option.split sum.split dest: log_next_turn)

lemma still_commit [still_intros]: "acts still (commit X message paths require)"
  unfolding commit_def record_created_def by (intro still_intros)

lemma still_guards [still_intros]:
  "acts still (foreign_commits G r pin created)" "acts still (guard_foreign X checkpoint)"
  "acts still (require_recorded_candidate X recorded)" "acts still (push_is_clean X tip remote)"
  unfolding foreign_commits_def guard_foreign_def require_recorded_candidate_def push_is_clean_def
  by (intro still_intros)+

lemma still_first_parent [still_intros]: "acts still (first_parent G cs base)"
  by (induction cs) (unfold first_parent.simps, (intro still_intros | assumption)+)

lemma still_window [still_intros]: "acts still (judge_candidate_window X candidate remote needs before created)"
  unfolding judge_candidate_window_def by (intro still_intros)

lemma still_stop [still_intros]: "acts still (then_fail m e final)" if "acts still m" for m e final
  unfolding then_fail_def by (intro still_intros that)

lemma still_discard [still_intros]: "acts still (discard X e)"
  unfolding discard_def by (intro still_intros)

lemma still_stop' [still_intros]: "acts still (stop X step e)"
  unfolding stop_def by (intro still_intros)

lemma still_bump_and_commit [still_intros]: "acts still (bump_and_commit X)"
  unfolding bump_and_commit_def by (intro still_intros)

section \<open>What an action logs\<close>

text \<open>
  An action adds events of one kind; when a candidate is named, on a walk that has it, and it
  keeps the candidate.
\<close>

definition adds :: "string option \<Rightarrow> (event \<Rightarrow> bool) \<Rightarrow> ('e, 'w) execution \<Rightarrow> ('e, 'w) execution \<Rightarrow> bool" where
  "adds C P x y \<longleftrightarrow> ((\<forall>c. C = Some c \<longrightarrow> x_candidate x = c) \<longrightarrow> (\<forall>c. C = Some c \<longrightarrow> x_candidate y = c) \<and>
     (\<exists>es. w_log (x_world y) = es @ w_log (x_world x) \<and> list_all P es))"

named_theorems adds_intros

lemma adds_reflp: "reflp (adds C P)"
  by (simp add: adds_def reflp_def)

lemma adds_transp: "transp (adds C P)"
proof (rule transpI)
  fix x y z :: "('e, 'w) execution"
  assume xy: "adds C P x y" and yz: "adds C P y z"
  show "adds C P x z"
    unfolding adds_def
  proof
    assume c: "\<forall>c. C = Some c \<longrightarrow> x_candidate x = c"
    with xy obtain es where y: "\<forall>c. C = Some c \<longrightarrow> x_candidate y = c" "w_log (x_world y) = es @ w_log (x_world x)" "list_all P es"
      by (auto simp: adds_def)
    with yz obtain fs where "\<forall>c. C = Some c \<longrightarrow> x_candidate z = c" "w_log (x_world z) = fs @ w_log (x_world y)" "list_all P fs"
      by (auto simp: adds_def)
    with y show "(\<forall>c. C = Some c \<longrightarrow> x_candidate z = c) \<and> (\<exists>es. w_log (x_world z) = es @ w_log (x_world x) \<and> list_all P es)"
      by (metis append_assoc list_all_append)
  qed
qed

lemma adds_still [adds_intros]: "acts still m \<Longrightarrow> acts (adds C P) m"
  by (auto simp: acts_def still_def adds_def)

lemma adds_abind [adds_intros]: "acts (adds C P) m \<Longrightarrow> (\<And>y. acts (adds C P) (f y)) \<Longrightarrow> acts (adds C P) (abind m f)"
  by (rule acts_abind [OF adds_transp])

lemma adds_candidate [adds_intros]:
  "acts (adds (Some c) P) (f c) \<Longrightarrow> acts (adds (Some c) P) (abind (get_walk x_candidate) f)"
  by (auto simp: acts_def adds_def abind_def get_walk_def)

lemma adds_aguard [adds_intros]: "acts (adds C P) m \<Longrightarrow> acts (adds C P) (aguard b e m)"
  by (rule acts_aguard [OF adds_reflp])

lemma adds_acatch [adds_intros]:
  "acts (adds C P) m \<Longrightarrow> (\<And>e. acts (adds C P) (f e)) \<Longrightarrow> (\<And>y. acts (adds C P) (g y)) \<Longrightarrow> acts (adds C P) (acatch m f g)"
  by (rule acts_acatch [OF adds_transp])

lemma adds_if [adds_intros]: "acts (adds C P) m \<Longrightarrow> acts (adds C P) n \<Longrightarrow> acts (adds C P) (if b then m else n)"
  by simp

lemma adds_option [adds_intros]:
  "acts (adds C P) m \<Longrightarrow> (\<And>y. acts (adds C P) (f y)) \<Longrightarrow> acts (adds C P) (case z of None \<Rightarrow> m | Some y \<Rightarrow> f y)"
  by (cases z) simp_all

lemma adds_prod [adds_intros]: "(\<And>a b. acts (adds C P) (f a b)) \<Longrightarrow> acts (adds C P) (case p of (a, b) \<Rightarrow> f a b)"
  by (cases p) simp

lemma adds_let [adds_intros]: "acts (adds C P) (f y) \<Longrightarrow> acts (adds C P) (let z = y in f z)"
  by simp

lemma adds_aeach [adds_intros]: "(\<And>y. acts (adds C P) (f y)) \<Longrightarrow> acts (adds C P) (aeach f ys)"
  by (rule acts_aeach [OF adds_reflp adds_transp])

lemma adds_op_call [adds_intros]: "list_all P ev \<Longrightarrow> acts (adds C P) (op_call ev m)"
  by (auto simp: acts_def op_call_def adds_def split: prod.split option.split dest: log_next_turn)

lemma adds_create_ref [adds_intros]: "list_all P ev \<Longrightarrow> acts (adds C P) (git_call (create_ref r d ev))"
  by (auto simp: acts_def git_call_def create_ref_def aguard_def afail_def git_write_def adds_def
      split: prod.splits option.splits sum.splits if_splits dest: log_next_turn)

lemma adds_push [adds_intros]: "list_all P ev \<Longrightarrow> acts (adds C P) (git_call (push u t ev))"
  by (auto simp: acts_def git_call_def push_def aguard_def afail_def git_write_def adds_def
      split: list.splits prod.splits option.splits sum.splits if_splits dest: log_next_turn)

lemma adds_push_ff [adds_intros]: "list_all P ev \<Longrightarrow> acts (adds C P) (git_call (push_fast_forward G r d t ev))"
  by (auto simp: acts_def git_call_def push_fast_forward_def aguard_def afail_def git_write_def adds_def
      split: prod.splits option.splits sum.splits if_splits dest: log_next_turn)

lemma adds_set_candidate [adds_intros]: "acts (adds None P) (set_candidate c)"
  by (simp add: acts_def adds_def set_candidate_def set_walk_def)

lemma adds_log_event [adds_intros]: "P ev \<Longrightarrow> acts (adds C P) (log_event ev)"
  by (simp add: acts_def adds_def log_event_def set_walk_def)

lemma adds_stopping [adds_intros]: "acts (adds C P) m \<Longrightarrow> acts (adds C P) (stopping X step m)"
  unfolding stopping_def by (rule adds_acatch, assumption) (rule adds_still, intro still_intros)+

lemma adds_take_step [adds_intros]: "acts (adds C P) (snd s) \<Longrightarrow> acts (adds C P) (take_step X s)"
  unfolding take_step_def
  by (rule adds_abind, rule adds_still, intro still_intros)
     (rule adds_if, rule adds_still, intro still_intros, rule adds_stopping)

section \<open>What each step logs\<close>

fun ship_commit :: "event \<Rightarrow> string option" where
  "ship_commit (ArchivedAt c) = Some c"
| "ship_commit (CreatedTag _ c) = Some c"
| "ship_commit (PushedTag _ c) = Some c"
| "ship_commit _ = None"

fun rank :: "event \<Rightarrow> nat" where
  "rank (PushedCandidate _) = 0"
| "rank (Dispatched _) = 1"
| "rank (Verdict _ _) = 1"
| "rank FinalizedChangelog = 2"
| "rank (ArchivedAt _) = 3"
| "rank (CreatedTag _ _) = 4"
| "rank (PushedTip _) = 5"
| "rank (PushedTag _ _) = 5"
| "rank MadeRelease = 6"
| "rank (PublishedPipeline _) = 7"
| "rank RanDeploy = 8"
| "rank RanHooks = 9"

definition at_rank :: "string \<Rightarrow> nat \<Rightarrow> event \<Rightarrow> bool" where
  "at_rank c n e \<longleftrightarrow> rank e = n \<and> (ship_commit e = None \<or> ship_commit e = Some c)"

lemma at_rank_simps [simp]:
  "at_rank c 2 FinalizedChangelog" "at_rank c 3 (ArchivedAt c)" "at_rank c 4 (CreatedTag t c)"
  "at_rank c 5 (PushedTip d)" "at_rank c 5 (PushedTag t c)" "at_rank c 6 MadeRelease"
  "at_rank c 7 (PublishedPipeline k)" "at_rank c 8 RanDeploy" "at_rank c 9 RanHooks"
  by (simp_all add: at_rank_def)

lemma finalize_adds: "acts (adds (Some c) (at_rank c 2)) (finalize_changelog X)"
  unfolding finalize_changelog_def by (intro adds_intros still_intros) simp_all

lemma archive_adds: "acts (adds (Some c) (at_rank c 3)) (archive_release X)"
  unfolding archive_release_def trees_of_def tree_of_def by (intro adds_intros still_intros) simp_all

lemma tag_adds: "acts (adds (Some c) (at_rank c 4)) (tag_release X)"
  unfolding tag_release_def tag_one_def by (intro adds_intros still_intros) simp_all

lemma push_adds: "acts (adds (Some c) (at_rank c 5)) (push_release X)"
  unfolding push_release_def push_tag_def by (intro adds_intros still_intros) simp_all

lemma github_adds: "acts (adds (Some c) (at_rank c 6)) (github_release X)"
  unfolding github_release_def create_release_def by (intro adds_intros still_intros) simp_all

lemma publish_adds: "acts (adds (Some c) (at_rank c 7)) (publish_pipelines X)"
  unfolding publish_pipelines_def publish_member_def publish_pipeline_def by (intro adds_intros still_intros) simp_all

lemma deploy_adds: "acts (adds (Some c) (at_rank c 8)) (deploy X)"
  unfolding deploy_def by (intro adds_intros still_intros) simp_all

lemma hooks_adds: "acts (adds (Some c) (at_rank c 9)) (post_release_hooks X)"
  unfolding post_release_hooks_def by (intro adds_intros still_intros) simp_all

lemma await_still: "(\<And>d. acts still (pause d)) \<Longrightarrow> acts still missing \<Longrightarrow> acts still (await_publication pause missing ds out)"
  by (induction ds arbitrary: out) (unfold await_publication.simps, (intro still_intros | assumption | blast)+)

lemma epilogue_still: "acts still (epilogue X)"
  unfolding epilogue_def verify_publication_def by (intro still_intros await_still)

lemma candidate_adds: "acts (adds None (at_rank c 0)) (push_candidate X)"
  unfolding push_candidate_def push_new_candidate_def adopt_batch_candidate_def
  by (intro adds_intros still_intros) (simp_all add: at_rank_def)

lemma verdict_adds: "acts (adds None (at_rank c 1)) (verify_ci X)"
  unfolding verify_ci_def
  by (intro adds_intros still_intros) (simp_all add: at_rank_def)

section \<open>The phases of a walk\<close>

text \<open>
  Up to rank n: the log holds no later event, newest first by rank, and every commit the walk
  archived, tagged or pushed as a tag is the candidate.
\<close>

definition in_order :: "event list \<Rightarrow> bool" where
  "in_order log \<longleftrightarrow> sorted_wrt (\<lambda>newer older. rank older \<le> rank newer) log"

definition ships_only :: "string option \<Rightarrow> event list \<Rightarrow> bool" where
  "ships_only C log \<longleftrightarrow> (\<forall>e \<in> set log. ship_commit e = None \<or> ship_commit e = C)"

definition phase :: "string option \<Rightarrow> event list \<Rightarrow> nat \<Rightarrow> ('e, 'w) execution \<Rightarrow> bool" where
  "phase C old n x \<longleftrightarrow>
     (\<forall>c. C = Some c \<longrightarrow> x_candidate x = c) \<and> in_order (w_log (x_world x)) \<and>
     (\<forall>e \<in> set (w_log (x_world x)). rank e \<le> n) \<and> ships_only C (w_log (x_world x)) \<and>
     set old \<subseteq> set (w_log (x_world x))"

lemma phase_mono: "phase C old m x \<Longrightarrow> m \<le> n \<Longrightarrow> phase C old n x"
  unfolding phase_def by (meson order_trans)

lemma in_order_append:
  assumes "in_order log" "\<And>e. e \<in> set log \<Longrightarrow> rank e \<le> n" "\<And>e. e \<in> set es \<Longrightarrow> rank e = n"
  shows "in_order (es @ log)"
  using assms by (induction es) (auto simp: in_order_def)

lemma phase_step:
  assumes x: "phase C old m x" and r: "adds C (at_rank (the C) n) x y" and "m \<le> n" "C = None \<Longrightarrow> n < 2"
  shows "phase C old n y"
proof -
  from x have "\<forall>c. C = Some c \<longrightarrow> x_candidate x = c" by (simp add: phase_def)
  with r obtain es where y: "\<forall>c. C = Some c \<longrightarrow> x_candidate y = c" "w_log (x_world y) = es @ w_log (x_world x)"
    and es: "\<And>e. e \<in> set es \<Longrightarrow> rank e = n \<and> (ship_commit e = None \<or> ship_commit e = Some (the C))"
    by (auto simp: adds_def list_all_iff at_rank_def)
  have early: "rank e < 2 \<Longrightarrow> ship_commit e = None" for e by (cases e) simp_all
  from es have ship: "ship_commit e = None \<or> ship_commit e = C" if "e \<in> set es" for e
    using that assms(4) early [of e] by (cases C) auto
  have "in_order (es @ w_log (x_world x))"
    using x es \<open>m \<le> n\<close> by (intro in_order_append [of _ n]) (auto simp: phase_def)
  moreover have "\<forall>e \<in> set (es @ w_log (x_world x)). rank e \<le> n"
    using x es \<open>m \<le> n\<close> by (auto simp: phase_def)
  moreover have "ships_only C (es @ w_log (x_world x))"
    using x ship by (auto simp: phase_def ships_only_def)
  ultimately show ?thesis using x y by (auto simp: phase_def)
qed

lemma phase_triple:
  fixes a :: "('e, 'w, 'a) release_act"
  assumes "acts (adds C (at_rank (the C) n)) a" "m \<le> n" "C = None \<Longrightarrow> n < 2" "n \<le> k"
  shows "triple (phase C old m) a (\<lambda>_. phase C old n) (\<lambda>_. phase C old k)"
proof (rule tripleI)
  fix x :: "('e, 'w) execution" assume x: "phase C old m x"
  have "phase C old n (snd (a x))"
    using assms(1) by (intro phase_step [OF x _ assms(2,3)]) (simp add: acts_def)
  then show "wp a (\<lambda>_. phase C old n) (\<lambda>_. phase C old k) x"
    using phase_mono \<open>n \<le> k\<close> by (auto simp: wp_def split: prod.split sum.split)
qed

lemma phase_still:
  fixes a :: "('e, 'w, 'a) release_act"
  assumes "acts still a" "m \<le> k"
  shows "triple (phase C old m) a (\<lambda>_. phase C old m) (\<lambda>_. phase C old k)"
proof (rule tripleI)
  fix x :: "('e, 'w) execution" assume "phase C old m x"
  with assms(1) have "phase C old m (snd (a x))" by (auto simp: acts_def still_def phase_def)
  then show "wp a (\<lambda>_. phase C old m) (\<lambda>_. phase C old k) x"
    using phase_mono \<open>m \<le> k\<close> by (auto simp: wp_def split: prod.split sum.split)
qed

lemma phase_each:
  fixes f :: "'s \<Rightarrow> ('e, 'w, unit) release_act"
  assumes "\<And>i. i < length ss \<Longrightarrow> acts (adds (Some c) (at_rank c (m + Suc i))) (f (ss ! i))" "m + length ss \<le> k"
  shows "triple (phase (Some c) old m) (aeach f ss) (\<lambda>_. phase (Some c) old (m + length ss)) (\<lambda>_. phase (Some c) old k)"
  using assms
proof (induction ss arbitrary: m)
  case Nil
  then show ?case using phase_mono by (auto simp: triple_def wp_def)
next
  case (Cons s ss)
  have "triple (phase (Some c) old m) (f s) (\<lambda>_. phase (Some c) old (Suc m)) (\<lambda>_. phase (Some c) old k)"
    by (rule phase_triple) (use Cons.prems(1) [of 0] Cons.prems(2) in simp_all)
  moreover have "triple (phase (Some c) old (Suc m)) (aeach f ss) (\<lambda>_. phase (Some c) old (Suc m + length ss))
      (\<lambda>_. phase (Some c) old k)"
    by (rule Cons.IH) (use Cons.prems(1) [of "Suc _"] Cons.prems(2) in simp_all)
  ultimately show ?case by (simp add: triple_seq)
qed

lemma walk_from_verdict_phase:
  "triple (phase (Some c) old 1) (walk_from_verdict X) (\<lambda>_. phase (Some c) old 9) (\<lambda>_. phase (Some c) old 9)"
proof -
  have "acts (adds (Some c) (at_rank c (1 + Suc i))) (take_step X (settle_steps X ! i))" if "i < length (settle_steps X)" for i
    using that finalize_adds archive_adds tag_adds push_adds github_adds publish_adds deploy_adds
    by (intro adds_take_step) (auto simp: settle_steps_def less_Suc_eq numeral_eq_Suc)
  moreover have "length (settle_steps X) = 7" by (simp add: settle_steps_def)
  ultimately have "triple (phase (Some c) old 1) (aeach (take_step X) (settle_steps X))
      (\<lambda>_. phase (Some c) old 8) (\<lambda>_. phase (Some c) old 9)"
    using phase_each [of "settle_steps X" c 1 "take_step X" 9 old] by simp
  moreover have "triple (phase (Some c) old 8) (post_release_hooks X) (\<lambda>_. phase (Some c) old 9) (\<lambda>_. phase (Some c) old 9)"
    by (intro phase_triple) (simp_all add: hooks_adds)
  moreover have "triple (phase (Some c) old 9) (epilogue X) (\<lambda>_. phase (Some c) old 9) (\<lambda>_. phase (Some c) old 9)"
    by (intro phase_still epilogue_still) simp
  ultimately show ?thesis unfolding walk_from_verdict_def by (blast intro: triple_seq)
qed

text \<open>Before the verdict nothing is archived or tagged.\<close>

lemma walk_to_verdict_phase:
  "triple (phase None old 0) (walk_to_verdict X) (\<lambda>_. phase None old 1) (\<lambda>_. phase None old 1)"
proof -
  have "triple (phase None old 0) (stopping X step_candidate_pushed (push_candidate X)) (\<lambda>_. phase None old 0) (\<lambda>_. phase None old 1)"
    using candidate_adds by (intro phase_triple adds_stopping) simp_all
  moreover have "triple (phase None old 0) (stopping X step_ci_verified (verify_ci X)) (\<lambda>_. phase None old 1) (\<lambda>_. phase None old 1)"
    using verdict_adds by (intro phase_triple adds_stopping) simp_all
  moreover have "triple (phase None old 1) (stopping X step_changelog_finalized (guard_foreign X checkpoint_ci_gate))
      (\<lambda>_. phase None old 1) (\<lambda>_. phase None old 1)"
    unfolding stopping_def by (intro phase_still still_intros) simp_all
  ultimately show ?thesis unfolding walk_to_verdict_def by (blast intro: triple_seq)
qed

section \<open>The verdict a walk ships on\<close>

text \<open>What a part of the run state is kept by an action.\<close>

definition same :: "(in_progress \<Rightarrow> 'p) \<Rightarrow> ('e, 'w) execution \<Rightarrow> ('e, 'w) execution \<Rightarrow> bool" where
  "same f x y \<longleftrightarrow> f (x_state y) = f (x_state x)"

named_theorems same_intros

lemma same_reflp: "reflp (same f)" and same_transp: "transp (same f)"
  by (auto simp: same_def reflp_def transp_def)

lemma same_abind [same_intros]: "acts (same f) m \<Longrightarrow> (\<And>y. acts (same f) (g y)) \<Longrightarrow> acts (same f) (abind m g)"
  by (rule acts_abind [OF same_transp])

lemma same_aguard [same_intros]: "acts (same f) m \<Longrightarrow> acts (same f) (aguard b e m)"
  by (rule acts_aguard [OF same_reflp])

lemma same_acatch [same_intros]:
  "acts (same f) m \<Longrightarrow> (\<And>e. acts (same f) (h e)) \<Longrightarrow> (\<And>y. acts (same f) (g y)) \<Longrightarrow> acts (same f) (acatch m h g)"
  by (rule acts_acatch [OF same_transp])

lemma same_aret [same_intros]: "acts (same f) (aret y)" and same_afail [same_intros]: "acts (same f) (afail e)"
  by (rule acts_aret acts_afail, rule same_reflp)+

lemma same_if [same_intros]: "acts (same f) m \<Longrightarrow> acts (same f) n \<Longrightarrow> acts (same f) (if b then m else n)"
  by simp

lemma same_option [same_intros]:
  "acts (same f) m \<Longrightarrow> (\<And>y. acts (same f) (g y)) \<Longrightarrow> acts (same f) (case z of None \<Rightarrow> m | Some y \<Rightarrow> g y)"
  by (cases z) simp_all

lemma same_prod [same_intros]: "(\<And>a b. acts (same f) (g a b)) \<Longrightarrow> acts (same f) (case p of (a, b) \<Rightarrow> g a b)"
  by (cases p) simp

lemma same_let [same_intros]: "acts (same f) (g y) \<Longrightarrow> acts (same f) (let z = y in g z)"
  by simp

lemma same_calls [same_intros]:
  "acts (same f) (git_call m)" "acts (same f) (op_call ev a)" "acts (same f) (get_walk g)"
  "acts (same f) (commit_call X message paths require)"
  by (auto simp: acts_def same_def git_call_def op_call_def get_walk_def commit_call_def Let_def
      split: prod.split option.split)

lemma same_set_walk [same_intros]:
  "acts (same f) (set_candidate c)" "acts (same f) set_pushed" "acts (same f) set_push_attempted"
  "acts (same f) (set_walk (advanced_to old new))" "acts (same f) (set_walk (unwound_to old))" "acts (same f) (log_event ev)"
  by (simp_all add: acts_def same_def set_walk_def set_candidate_def set_pushed_def set_push_attempted_def
      advanced_to_def unwound_to_def log_event_def)

lemma same_with_state: "(\<And>st. f (g st) = f st) \<Longrightarrow> acts (same f) (with_state g)"
  by (simp add: acts_def same_def with_state_def set_walk_def)

lemma same_saves [same_intros]:
  "acts (same f) (save_state st)" "acts (same f) clear_state" "acts (same f) save" "acts (same f) (completed step)"
  unfolding save_state_def clear_state_def save_def completed_def by (intro same_intros)+

lemma same_checkout [same_intros]:
  "acts (same f) (advance X)" "acts (same f) (foreign_commits G r pin created)" "acts (same f) (guard_foreign X checkpoint)"
  "acts (same f) (require_recorded_candidate X recorded)" "acts (same f) (push_is_clean X tip remote)"
  unfolding advance_def swap_or_moved_def restore_paths_def edited_among_def foreign_commits_def guard_foreign_def
    require_recorded_candidate_def push_is_clean_def
  by (intro same_intros)+

lemma same_first_parent [same_intros]: "acts (same f) (first_parent G cs base)"
  by (induction cs) (unfold first_parent.simps, (intro same_intros | assumption)+)

lemma same_window [same_intros]:
  "acts (same f) (judge_candidate_window X candidate remote needs before created)"
  unfolding judge_candidate_window_def by (intro same_intros)

lemma same_complete: "(\<And>st. f (complete_step step st) = f st) \<Longrightarrow> acts (same f) (complete step)"
  unfolding complete_def by (intro same_intros same_with_state)

definition verdict_part :: "in_progress \<Rightarrow> bool \<times> string" where
  "verdict_part st = (step_completed st step_ci_verified, ip_release_commit st)"

lemma completes_other: "s \<noteq> step \<Longrightarrow> step_completed (complete_step s st) step = step_completed st step"
  by (simp add: step_completed_def complete_step_def Let_def)

lemma complete_step_commit [simp]: "ip_release_commit (complete_step s st) = ip_release_commit st"
  by (simp add: complete_step_def Let_def)

lemma add_created_keeps [simp]:
  "step_completed (add_created c st) step = step_completed st step"
  "ip_release_commit (add_created c st) = ip_release_commit st"
  by (simp_all add: add_created_def step_completed_def)

lemma bump_keeps_verdict: "acts (same verdict_part) (bump_and_commit X)"
  unfolding bump_and_commit_def commit_def record_created_def
  by (intro same_intros same_complete same_with_state)
     (simp_all add: verdict_part_def completes_other step_name_defs)

lemma push_keeps_unverified: "acts (same (\<lambda>st. step_completed st step_ci_verified)) (push_new_candidate X)"
  unfolding push_new_candidate_def state_release_commit_def state_run_all_def
  by (intro same_intros same_complete same_with_state)
     (simp_all add: completes_other step_name_defs, simp_all add: step_completed_def)

lemma acts_at: "acts R m \<Longrightarrow> R s (snd (m s))"
  by (simp add: acts_def)

lemma require_recorded_result: "require_recorded_candidate X recorded x = (Inr c, y) \<Longrightarrow> c = recorded"
  unfolding require_recorded_candidate_def
  by (auto simp: act_Inr git_call_def resolve_id_def git_read_def with_error_def split: prod.splits option.splits if_splits sum.splits)

text \<open>The commits a walk may ship without waiting for CI: the recorded one, or the batch's.\<close>

definition verified_before :: "('e, 'w) release_context \<Rightarrow> bool \<times> string \<Rightarrow> string set" where
  "verified_before X v = (if fst v then {snd v} else if cx_verified X \<noteq> [] then {cx_verified X} else {})"

lemma push_candidate_verified:
  assumes run: "push_candidate X x = (Inr u, y)" and vp: "verdict_part (x_state x) = v"
  shows "step_completed (x_state y) step_ci_verified \<longrightarrow> x_candidate y \<in> verified_before X v"
proof (cases "step_completed (x_state x) step_ci_verified")
  case True
  from run True obtain a x1 c x2 where "op_call [] (op_fate (cx_prepare X)) x = (Inr a, x1)"
    and r: "require_recorded_candidate X (ip_release_commit (x_state x1)) x1 = (Inr c, x2)" and y: "x_candidate y = c"
    by (auto simp: push_candidate_def act_Inr completed_def get_walk_def set_candidate_def set_pushed_def set_walk_def)
  then have "x_state x1 = x_state x"
    using actsD [OF same_calls(2) [of "\<lambda>st. st"]] by (fastforce simp: same_def)
  with require_recorded_result [OF r] y True vp show ?thesis by (auto simp: verified_before_def verdict_part_def)
next
  case False
  show ?thesis
  proof (cases "cx_verified X = []")
    case True
    with run False have "push_new_candidate X x = (Inr u, y)"
      by (auto simp: push_candidate_def act_Inr completed_def get_walk_def)
    from actsD [OF push_keeps_unverified this] False show ?thesis by (simp add: same_def)
  next
    case batch: False
    with run False have "adopt_batch_candidate X x = (Inr u, y)"
      by (auto simp: push_candidate_def act_Inr completed_def get_walk_def)
    then obtain x1 x2 where "set_candidate (cx_verified X) x1 = (Inr (), x2)"
      and rest: "(abind set_pushed (\<lambda>_. abind (state_release_commit (cx_verified X)) (\<lambda>_. complete step_ci_verified))) x2 = (Inr u, y)"
      by (auto simp: adopt_batch_candidate_def act_Inr)
    moreover have "still x2 (snd ((abind set_pushed (\<lambda>_. abind (state_release_commit (cx_verified X)) (\<lambda>_. complete step_ci_verified))) x2))"
      by (rule acts_at) (intro still_intros)
    then have "still x2 y" by (simp only: rest snd_conv)
    ultimately have "x_candidate y = cx_verified X" by (auto simp: set_candidate_def set_walk_def still_def)
    with batch False vp show ?thesis by (auto simp: verified_before_def verdict_part_def)
  qed
qed

definition shown :: "string set \<Rightarrow> ('e, 'w) execution \<Rightarrow> bool" where
  "shown V x \<longleftrightarrow> x_candidate x \<in> V \<or> Verdict (x_candidate x) True \<in> set (w_log (x_world x))"

lemma shown_still: "shown V x \<Longrightarrow> still x y \<Longrightarrow> shown V y"
  by (simp add: shown_def still_def)

lemma verify_ci_shown:
  assumes run: "verify_ci X x = (Inr u, y)" and "step_completed (x_state x) step_ci_verified \<longrightarrow> x_candidate x \<in> V"
  shows "shown V y"
proof (cases "step_completed (x_state x) step_ci_verified")
  case True
  with assms show ?thesis by (auto simp: verify_ci_def abind_def completed_def get_walk_def shown_def)
next
  case False
  let ?c = "x_candidate x"
  let ?last = "abind (state_release_commit ?c) (\<lambda>_. complete step_ci_verified)"
  from run False obtain w x1 x2 x3 verdict z where
    d: "(if ip_run_all_dispatch_for (x_state x) = ?c
         then abind (op_call [Dispatched ?c] (op_dispatch (cx_prepare X) ?c)) (\<lambda>_. abind (state_run_all []) (\<lambda>_. save))
         else aret ()) x = (Inr (), x1)"
    and f: "op_call [] (op_ci_filters (cx_prepare X)) x1 = (Inr w, x2)"
    and ci: "op_call [] (op_ci (cx_prepare X) ?c) x2 = (Inr verdict, x3)"
    and l: "log_event (Verdict ?c (ci_passes verdict)) x3 = (Inr (), z)" and "ci_passes verdict" and e: "?last z = (Inr u, y)"
    by (auto simp: verify_ci_def act_Inr completed_def get_walk_def)
  have "acts (adds (Some ?c) (\<lambda>_. True)) (if ip_run_all_dispatch_for (x_state x) = ?c
         then abind (op_call [Dispatched ?c] (op_dispatch (cx_prepare X) ?c)) (\<lambda>_. abind (state_run_all []) (\<lambda>_. save))
         else aret ())"
    by (intro adds_intros still_intros) simp_all
  from actsD [OF this d] have "x_candidate x1 = ?c" by (simp add: adds_def)
  moreover have "still x1 x2" "still x2 x3" using actsD [OF still_op_call f] actsD [OF still_op_call ci] by simp_all
  ultimately have "x_candidate z = ?c" "Verdict ?c True \<in> set (w_log (x_world z))"
    using l \<open>ci_passes verdict\<close> by (auto simp: log_event_def set_walk_def still_def)
  then have "shown V z" by (simp add: shown_def)
  moreover have "still z (snd (?last z))" by (rule acts_at) (intro still_intros)
  then have "still z y" by (simp only: e snd_conv)
  ultimately show ?thesis by (rule shown_still)
qed

lemma stop_fails [simp]: "stop X step e x \<noteq> (Inr u, y)"
  by (auto simp: stop_def then_fail_def discard_def abind_def acatch_def get_walk_def Let_def split: prod.split sum.split option.split)

lemma stopping_Inr [simp]: "stopping X step m x = (Inr u, y) \<longleftrightarrow> m x = (Inr u, y)"
proof (cases "m x")
  case (Pair r t)
  show ?thesis
  proof (cases r)
    case (Inl e)
    with Pair show ?thesis by (simp add: stopping_def acatch_def)
  qed (simp add: Pair stopping_def acatch_def)
qed

lemma walk_to_verdict_shown:
  assumes run: "walk_to_verdict X x = (Inr u, y)" and vp: "verdict_part (x_state x) = v"
  shows "shown (verified_before X v) y"
proof -
  from run obtain x1 x2 where p: "push_candidate X x = (Inr (), x1)" and c: "verify_ci X x1 = (Inr (), x2)"
    and g: "guard_foreign X checkpoint_ci_gate x2 = (Inr u, y)"
    by (auto simp: walk_to_verdict_def act_Inr)
  from verify_ci_shown [OF c push_candidate_verified [OF p vp]] show ?thesis
    using actsD [OF still_guards(2) g] shown_still by blast
qed

text \<open>
  A log in order that ships one commit, which was verified before or which CI passed in the walk.
\<close>

definition ships_verified :: "string set \<Rightarrow> event list \<Rightarrow> bool" where
  "ships_verified V log \<longleftrightarrow>
     (\<forall>e \<in> set log. \<forall>c. ship_commit e = Some c \<longrightarrow> c \<in> V \<or> Verdict c True \<in> set log) \<and>
     (\<forall>e \<in> set log. \<forall>e' \<in> set log. \<forall>c c'. ship_commit e = Some c \<longrightarrow> ship_commit e' = Some c' \<longrightarrow> c = c')"

lemma phase_ships_none: "phase None old n x \<Longrightarrow> ships_verified V (w_log (x_world x))"
  by (auto simp: phase_def ships_only_def ships_verified_def)

lemma phase_ships_some:
  assumes "phase (Some c) old n x" "c \<in> V \<or> Verdict c True \<in> set old"
  shows "ships_verified V (w_log (x_world x))"
  using assms unfolding phase_def ships_only_def ships_verified_def
  by (metis option.distinct(1) option.inject subsetD)

lemma walk_rest:
  assumes run: "abind (walk_to_verdict X) (\<lambda>_. walk_from_verdict X) x = (r, y)" and x: "phase None [] 0 x"
    and vp: "verdict_part (x_state x) = v"
  shows "in_order (w_log (x_world y)) \<and> ships_verified (verified_before X v) (w_log (x_world y))"
proof (cases "walk_to_verdict X x")
  case (Pair q z)
  have z: "phase None [] 1 z"
    using tripleD [OF walk_to_verdict_phase [of _ X] x] Pair by (auto simp: wp_def split: sum.splits)
  show ?thesis
  proof (cases q)
    case (Inl e)
    with Pair run z phase_ships_none show ?thesis by (auto simp: abind_def phase_def)
  next
    case (Inr u)
    let ?c = "x_candidate z"
    let ?old = "filter ((=) (Verdict ?c True)) (w_log (x_world z))"
    from Pair Inr run have rest: "walk_from_verdict X z = (r, y)" by (simp add: abind_def)
    from z have "phase (Some ?c) ?old 1 z" by (auto simp: phase_def ships_only_def)
    from tripleD [OF walk_from_verdict_phase [of _ _ X] this] rest have y: "phase (Some ?c) ?old 9 y"
      by (auto simp: wp_def split: sum.splits)
    have "?c \<in> verified_before X v \<or> Verdict ?c True \<in> set ?old"
      using walk_to_verdict_shown [OF _ vp] Pair Inr by (fastforce simp: shown_def)
    from y phase_ships_some [OF y this] show ?thesis by (simp add: phase_def)
  qed
qed

lemma walk_log:
  assumes run: "run_walk X x = (r, y)" and new: "w_log (x_world x) = []"
  shows "in_order (w_log (x_world y)) \<and> ships_verified (verified_before X (verdict_part (x_state x))) (w_log (x_world y))"
proof -
  let ?V = "verified_before X (verdict_part (x_state x))"
  let ?good = "\<lambda>t. in_order (w_log (x_world t)) \<and> ships_verified ?V (w_log (x_world t))"
  have start: "phase None [] 0 x" using new by (simp add: phase_def in_order_def ships_only_def)
  have early: "?good t" if "phase None old n t" for old n t
    using that phase_ships_none by (auto simp: phase_def)
  let ?entry = "stopping X step_version_bumped (guard_foreign X checkpoint_entry)"
  let ?bump = "stopping X step_committed (bump_and_commit X)"
  have quiet: "acts still ?entry" "acts still ?bump" unfolding stopping_def by (intro still_intros)+
  have keep: "phase None [] 0 t" if "acts still a" "a s = (q, t)" "phase None [] 0 s"
    for a :: "('a, 'b, unit) release_act" and s q t
    using actsD [OF that(1,2)] that(3) by (auto simp: still_def phase_def)
  show ?thesis
  proof (cases "?entry x")
    case entry: (Pair q x1)
    note x1 = keep [OF quiet(1) entry start]
    show ?thesis
    proof (cases q)
      case (Inl e)
      with run entry x1 early show ?thesis by (auto simp: run_walk_def abind_def)
    next
      case (Inr u)
      show ?thesis
      proof (cases "?bump x1")
        case bump: (Pair q2 x2)
        note x2 = keep [OF quiet(2) bump x1]
        show ?thesis
        proof (cases "isl q2 \<or> cx_defer X")
          case True
          with run entry bump Inr x2 early show ?thesis by (cases q2) (auto simp: run_walk_def abind_def)
        next
          case False
          with run entry bump Inr have rest: "abind (walk_to_verdict X) (\<lambda>_. walk_from_verdict X) x2 = (r, y)"
            by (cases q2) (auto simp: run_walk_def abind_def)
          have "bump_and_commit X x1 = (Inr (), x2)" using bump False by (cases q2) simp_all
          moreover have "guard_foreign X checkpoint_entry x = (Inr (), x1)" using entry Inr by simp
          ultimately have vp: "verdict_part (x_state x2) = verdict_part (x_state x)"
            using actsD [OF bump_keeps_verdict] actsD [OF same_checkout(3) [of verdict_part]] by (fastforce simp: same_def)
          show ?thesis
            using walk_rest [OF rest x2 vp] by simp
        qed
      qed
    qed
  qed
qed

text \<open>
  C22. Whatever other processes do between its calls and wherever it stops, a walk does things in
  the order of the step table: it pushes the candidate before CI judges it, CI judges it before the
  changelog is finalized, the archive is written before a tag is made, every tag is made before one
  is pushed, and the GitHub Release, the local pipelines, the deploy and the hooks follow in that
  order.
\<close>

theorem walk_in_order:
  assumes "w_log (x_world x) = []"
  shows "in_order (w_log (x_world (snd (run_walk X x))))"
  using walk_log [OF _ assms, of X] by (metis prod.collapse)

theorem walk_in_order_witness: "in_order (w_log (x_world (snd (run_walk sample_context (sample_walk [])))))"
  by (rule walk_in_order) (simp add: sample_walk_def)

text \<open>
  C23. Whatever other processes do between its calls and wherever it stops, a walk archives, tags
  and pushes tags for one commit only, and that commit is one CI passed in this walk, or the one
  the run state records as verified, or the batch's verified candidate.
\<close>

theorem walk_ships_verified:
  assumes "w_log (x_world x) = []"
  shows "ships_verified (verified_before X (verdict_part (x_state x))) (w_log (x_world (snd (run_walk X x))))"
  using walk_log [OF _ assms, of X] by (metis prod.collapse)

theorem walk_ships_verified_witness:
  "ships_verified {} (w_log (x_world (snd (run_walk sample_context (sample_walk [Stops [] GitTimedOut True])))))"
proof -
  have "verified_before sample_context (verdict_part (x_state (sample_walk [Stops [] GitTimedOut True]))) = {}"
    by (simp add: verified_before_def verdict_part_def sample_walk_def sample_context_def sample_state_def step_completed_def)
  with walk_ships_verified [of "sample_walk [Stops [] GitTimedOut True]" sample_context] show ?thesis
    by (simp add: sample_walk_def)
qed

end
