(* ===== verification/Release_Stops.thy ===== *)
theory Release_Stops
  imports Release_Order
begin

text \<open>
  What becomes of a release that stops, and what a release that ends has done: the discard, the
  kept state and its resume, the successful walk, the pipelines and the wait for the registries.
\<close>

section \<open>Taking back\<close>

text \<open>A script in which no other process moves anything.\<close>

fun moves_of :: "'e turn \<Rightarrow> move list" where
  "moves_of (Goes ms) = ms"
| "moves_of (Stops ms _ _) = ms"

definition alone :: "('e, 'w) world \<Rightarrow> bool" where
  "alone w \<longleftrightarrow> list_all (\<lambda>t. moves_of t = []) (w_script w)"

definition undisturbed :: "('e, 'w) world \<Rightarrow> ('e, 'w) world \<Rightarrow> bool" where
  "undisturbed v w \<longleftrightarrow> (alone v \<longrightarrow> alone w \<and> w_refs w = w_refs v \<and> w_saved w = w_saved v)"

lemma undisturbed_reflp: "reflp undisturbed" and undisturbed_transp: "transp undisturbed"
  by (auto simp: undisturbed_def reflp_def transp_def)

lemma next_turn_alone: "next_turn w = (t, w') \<Longrightarrow> undisturbed w w'"
  by (auto simp: next_turn_def undisturbed_def alone_def split: list.splits turn.splits)

lemma git_read_undisturbed: "git_read f w = (r, w') \<Longrightarrow> undisturbed w w'"
  by (auto simp: git_read_def split: prod.splits option.splits dest: next_turn_alone)

lemma git_write_Inr: "git_write f w = (Inr (), w') \<longleftrightarrow> (\<exists>v. next_turn w = (None, v) \<and> f v = Inr w')"
  by (auto simp: git_write_def split: prod.splits option.splits sum.splits)

lemma git_call_Inr: "git_call m x = (Inr y, z) \<longleftrightarrow> (\<exists>w. m (x_world x) = (Inr y, w) \<and> z = x\<lparr>x_world := w\<rparr>)"
  by (auto simp: git_call_def with_error_def split: prod.splits sum.splits)

lemma save_state_Inr:
  "save_state st x = (Inr (), y) \<Longrightarrow>
   w_saved (x_world y) = Some st \<and> x_state y = x_state x \<and> (alone (x_world x) \<longrightarrow> w_refs (x_world y) = w_refs (x_world x))"
  unfolding save_state_def
  by (auto simp: act_Inr git_call_Inr git_write_Inr undisturbed_def dest: next_turn_alone)

lemma clear_state_Inr:
  "clear_state x = (Inr (), y) \<Longrightarrow>
   w_saved (x_world y) = None \<and> x_state y = x_state x \<and> (alone (x_world x) \<longrightarrow> w_refs (x_world y) = w_refs (x_world x))"
  unfolding clear_state_def
  by (auto simp: act_Inr git_call_Inr git_write_Inr undisturbed_def dest: next_turn_alone)

lemma acatch_Inr:
  "acatch m f g s = (Inr y, u) \<longleftrightarrow>
   (\<exists>e t. m s = (Inl e, t) \<and> f e t = (Inr y, u)) \<or> (\<exists>x t. m s = (Inr x, t) \<and> g x t = (Inr y, u))"
  by (auto simp: acatch_def split: prod.splits sum.splits)

lemma acatch_Inl:
  "acatch m f g s = (Inl d, u) \<longleftrightarrow>
   (\<exists>e t. m s = (Inl e, t) \<and> f e t = (Inl d, u)) \<or> (\<exists>x t. m s = (Inr x, t) \<and> g x t = (Inl d, u))"
  by (auto simp: acatch_def split: prod.splits sum.splits)

lemma take_back_done:
  assumes run: "take_back X from to x = (Inr None, y)" and alone: "alone (x_world x)"
  shows "w_refs (x_world x) (branch_ref X) = Some from \<and>
    w_refs (x_world y) = (w_refs (x_world x))(branch_ref X \<mapsto> to) \<and> alone (x_world y) \<and> x_state y = x_state x"
proof -
  from run obtain c x1 paths x2 edits x3 x4 where
    1: "git_call (resolve_ref (branch_ref X)) x = (Inr c, x1)" "c = Some from"
    and 2: "git_call (changed_between (cx_graph X) to from) x1 = (Inr paths, x2)"
    and 3: "edited_among paths x2 = (Inr edits, x3)"
    and 4: "git_call (swap_ref (branch_ref X) to from) x3 = (Inr (), x4)"
    and 5: "restore_paths x4 = (Inr (), y)"
    by (auto simp: take_back_def act_Inr acatch_Inr split: if_splits)
  have a: "undisturbed (x_world x) (x_world x1)" "undisturbed (x_world x1) (x_world x2)" "undisturbed (x_world x2) (x_world x3)"
    and s: "x_state x3 = x_state x"
    using 1 2 3 by (auto simp: git_call_Inr resolve_ref_def changed_between_def edited_among_def dest: git_read_undisturbed)
  have c: "w_refs (x_world x) (branch_ref X) = Some from"
    using 1 alone by (auto simp: git_call_Inr resolve_ref_def git_read_def undisturbed_def dest!: next_turn_alone
        split: prod.splits option.splits)
  from 4 obtain v where "next_turn (x_world x3) = (None, v)"
    and x4: "x4 = x3\<lparr>x_world := v\<lparr>w_refs := (w_refs v)(branch_ref X \<mapsto> to)\<rparr>\<rparr>"
    by (auto simp: git_call_Inr swap_ref_def act_Inr git_write_Inr split: if_splits)
  then have v: "undisturbed (x_world x3) v" by (blast dest: next_turn_alone)
  from 5 obtain w where "next_turn (x_world x4) = (None, w)" and y: "y = x4\<lparr>x_world := w\<rparr>"
    by (auto simp: restore_paths_def git_call_Inr git_write_Inr)
  then have w: "undisturbed (x_world x4) w" by (blast dest: next_turn_alone)
  from a v alone have v': "alone v \<and> w_refs v = w_refs (x_world x)" by (simp add: undisturbed_def)
  with x4 have "alone (x_world x4)" by (simp add: alone_def)
  with w v' x4 y c s show ?thesis by (simp add: undisturbed_def)
qed

lemma then_fail_Inl:
  "then_fail m e final x = (Inl d, y) \<longleftrightarrow>
   (\<exists>e' . m x = (Inl e', y) \<and> d = Both e e') \<or> (m x = (Inr (), y) \<and> d = final)"
  by (auto simp: then_fail_def acatch_Inl)

lemma discard_Discarded:
  assumes "discard X e x = (Inl (Discarded d), y)"
  shows "\<exists>x1. unwind_last_advance X x = (Inr None, x1) \<and>
    (if cx_resuming X then save_state (cx_entry X) else clear_state) x1 = (Inr (), y) \<and> d = e"
  using assms by (auto simp: discard_def acatch_Inl then_fail_Inl split: option.splits if_splits)

text \<open>
  C24. A release that stops before its candidate was pushed takes back its last advance: while no
  other process moves anything, the branch is where the advance found it, every other ref is as it
  was, and the run state is gone, or the one the resume began with.
\<close>

theorem discard_restores:
  assumes "discard X e x = (Inl (Discarded d), y)" "alone (x_world x)"
  shows "w_refs (x_world y) =
      (case x_last x of None \<Rightarrow> w_refs (x_world x) | Some (old, new) \<Rightarrow> (w_refs (x_world x))(branch_ref X \<mapsto> old)) \<and>
    (\<forall>old new. x_last x = Some (old, new) \<longrightarrow> w_refs (x_world x) (branch_ref X) = Some new) \<and>
    w_saved (x_world y) = (if cx_resuming X then Some (cx_entry X) else None)"
proof -
  from discard_Discarded [OF assms(1)] obtain x1 where u: "unwind_last_advance X x = (Inr None, x1)"
    and s: "(if cx_resuming X then save_state (cx_entry X) else clear_state) x1 = (Inr (), y)" by blast
  have r: "alone (x_world x1) \<and> w_refs (x_world x1) =
      (case x_last x of None \<Rightarrow> w_refs (x_world x) | Some (old, new) \<Rightarrow> (w_refs (x_world x))(branch_ref X \<mapsto> old)) \<and>
    (\<forall>old new. x_last x = Some (old, new) \<longrightarrow> w_refs (x_world x) (branch_ref X) = Some new)"
  proof (cases "x_last x")
    case None
    with u assms(2) show ?thesis by (auto simp: unwind_last_advance_def act_Inr get_walk_def)
  next
    case (Some p)
    with u obtain x2 where "take_back X (snd p) (fst p) x = (Inr None, x2)" "x_world x1 = x_world x2"
      by (cases p) (auto simp: unwind_last_advance_def act_Inr get_walk_def set_walk_def unwound_to_def split: option.splits)
    with take_back_done [OF _ assms(2)] Some show ?thesis by (cases p) auto
  qed
  with s show ?thesis by (auto dest: save_state_Inr clear_state_Inr split: if_splits)
qed

section \<open>A commit left behind\<close>

lemma sample_ids:
  "full_object_id (cid 0)" "full_object_id (cid 2)" "cid 2 \<noteq> cid 0" "cid 0 \<noteq> cid 2"
  "gr_known line_graph (cid 0)" "gr_known line_graph (cid 2)"
  by code_simp+

lemma sample_branch:
  "branch_ref sample_context = ''refs/heads/main''" "has_prefix ''refs/heads/main'' ''refs/''"
  by code_simp+

lemma sample_context_fields:
  "cx_graph sample_context = line_graph" "cx_branch sample_context = ''main''" "\<not> cx_resuming sample_context"
  by (simp_all add: sample_context_def)

definition advanced_walk :: "string turn list \<Rightarrow> (string, string list) execution" where
  "advanced_walk ts =
     (sample_walk ts)\<lparr>x_world := (x_world (sample_walk ts))\<lparr>w_checkout := cid 2, w_saved := Some sample_state\<rparr>\<rparr>"

lemmas run_simps = abind_def acatch_def git_call_def git_read_def git_write_def next_turn_def get_walk_def
  set_walk_def with_error_def Let_def

lemmas checkout_simps = advance_def swap_or_moved_def restore_paths_def checkout_head_def resolve_ref_def
  head_branch_def changed_between_def edited_among_def swap_ref_def unwound_to_def

lemmas stop_simps = stopping_def stop_def discard_def unwind_last_advance_def then_fail_def clear_state_def
  push_timed_out_def

text \<open>
  C25. A stop can leave its commit on the branch and say that nothing is there: when the files of
  an advance cannot be written after the branch was swapped, the advance is not recorded, so the
  discard takes nothing back, removes the run state, and ends as if it had.
\<close>

theorem discard_leaves_commit:
  "\<exists>x y e. x_last x = None \<and> w_refs (x_world x) (branch_ref sample_context) = Some (x_tip x) \<and> alone (x_world x) \<and>
     stopping sample_context step_committed (advance sample_context) x = (Inl (Discarded e), y) \<and>
     w_refs (x_world y) (branch_ref sample_context) = Some (w_checkout (x_world x)) \<and>
     w_checkout (x_world x) \<noteq> x_tip x \<and> w_saved (x_world y) = None"
  by (rule exI [of _ "advanced_walk [Goes [], Goes [], Goes [], Goes [], Goes [], Goes [], Stops [] (GitFailed ''full disk'') False]"])
     (simp add: advanced_walk_def sample_walk_def alone_def run_simps checkout_simps stop_simps sample_ids sample_branch
        sample_context_fields)
definition stopped_walk :: "(string, string list) execution" where
  "stopped_walk = (sample_walk [])\<lparr>x_tip := cid 2, x_last := Some (cid 0, cid 2),
     x_world := (x_world (sample_walk []))\<lparr>w_refs := [''refs/heads/main'' \<mapsto> cid 2], w_saved := Some sample_state\<rparr>\<rparr>"

lemma discard_stopped: "\<exists>y. discard sample_context e stopped_walk = (Inl (Discarded e), y)"
  by (simp add: stopped_walk_def sample_walk_def run_simps checkout_simps stop_simps take_back_def sample_ids sample_branch
      sample_context_fields)

theorem discard_restores_witness:
  "\<exists>y. discard sample_context (OpStopped ''build'') stopped_walk =
       (Inl (Discarded (OpStopped ''build'')) :: string release_error + unit, y) \<and>
     w_refs (x_world y) (branch_ref sample_context) = Some (cid 0) \<and> w_saved (x_world y) = None"
proof -
  obtain y where y: "discard sample_context (OpStopped ''build'') stopped_walk =
      (Inl (Discarded (OpStopped ''build'')) :: string release_error + unit, y)"
    using discard_stopped by blast
  have a: "alone (x_world stopped_walk)" by (simp add: alone_def stopped_walk_def sample_walk_def)
  have l: "x_last stopped_walk = Some (cid 0, cid 2)" by (simp add: stopped_walk_def)
  from discard_restores [OF y a] l sample_context_fields(3) have "w_refs (x_world y) (branch_ref sample_context) = Some (cid 0) \<and> w_saved (x_world y) = None" by simp
  with y show ?thesis by blast
qed

section \<open>A finalized changelog reopened\<close>

lemma stop_Refuse:
  fixes x :: "('e, 'w) execution"
  assumes "stop X step e x = (Inl (Refuse r) :: 'e release_error + 'r, y)"
  shows "e = Refuse r \<and> w_saved (x_world y) = Some (fail_step step (cx_text X e) (x_state x)) \<and>
    x_state y = fail_step step (cx_text X e) (x_state x)"
proof -
  let ?m = "abind (with_state (fail_step step (cx_text X e))) (\<lambda>_. save)"
  have no: "discard X e x \<noteq> (Inl (Refuse r) :: 'e release_error + 'r, y)"
    by (auto simp: discard_def acatch_Inl then_fail_Inl split: option.splits)
  from assms no obtain final where f: "then_fail ?m e final x = (Inl (Refuse r) :: 'e release_error + 'r, y)"
    and final: "final = e \<or> final = PushUnknown e \<or> final = KeptFor step e"
    by (auto simp: stop_def abind_def [of "get_walk _"] get_walk_def Let_def split: if_splits)
  from f final have e: "e = Refuse r" and m: "?m x = (Inr (), y)" by (auto simp: then_fail_Inl)
  from m have "save_state (fail_step step (cx_text X e) (x_state x)) (x\<lparr>x_state := fail_step step (cx_text X e) (x_state x)\<rparr>) = (Inr (), y)"
    by (auto simp: act_Inr with_state_def set_walk_def save_def get_walk_def)
  with e show ?thesis by (auto dest: save_state_Inr)
qed

lemma fail_step_completed:
  "step_completed (fail_step step text st) s \<longleftrightarrow> s \<noteq> step \<and> step_completed st s"
  by (auto simp: fail_step_def step_completed_def)

lemma adopt_voids:
  "adopted \<noteq> [] \<Longrightarrow> step_completed (adopt tip adopted st) s \<longleftrightarrow> s \<noteq> step_ci_verified \<and> step_completed st s"
  by (auto simp: adopt_def drop_step_def step_completed_def Let_def)

lemma guard_foreign_state: "acts (same f) (guard_foreign X checkpoint)"
  by (rule same_checkout)

text \<open>
  C26. The guard before the settling steps reopens a finalized changelog: a foreign commit it
  refuses is recorded as a failure of changelog-finalized, which unsets that step and leaves
  release-archived set, so the next resume, which adopts commits while the changelog is not
  finalized, voids the verdict and takes a new candidate, while the archive, which is not written
  again, holds the old one.
\<close>

theorem gate_failure_reopens:
  fixes x :: "('a, 'b) execution"
  assumes "stopping X step_changelog_finalized (guard_foreign X checkpoint_ci_gate) x = (Inl (Refuse r), y)"
    "step_completed (x_state x) step_release_archived" "adopted \<noteq> []"
  shows "\<exists>st. w_saved (x_world y) = Some st \<and> \<not> step_completed st step_changelog_finalized \<and>
    \<not> step_completed (adopt tip adopted st) step_ci_verified \<and>
    step_completed (adopt tip adopted st) step_release_archived"
proof -
  from assms(1) obtain e z where g: "guard_foreign X checkpoint_ci_gate x = (Inl e, z)"
    and s: "stop X step_changelog_finalized e z = (Inl (Refuse r) :: 'a release_error + unit, y)"
    by (auto simp: stopping_def acatch_Inl)
  have "x_state z = x_state x" using actsD [OF guard_foreign_state [of id] g] by (simp add: same_def)
  with stop_Refuse [OF s] assms(2,3) show ?thesis
    by (auto simp: fail_step_completed adopt_voids step_name_defs)
qed

definition gated_state :: in_progress where
  "gated_state = complete_step step_release_archived
     (complete_step step_changelog_finalized (complete_step step_ci_verified (x_state (sample_walk []))))"

definition gated_walk :: "(string, string list) execution" where
  "gated_walk = (sample_walk [])\<lparr>x_pushed := True, x_state := gated_state,
     x_world := (x_world (sample_walk []))\<lparr>w_refs := [''refs/heads/main'' \<mapsto> cid 2]\<rparr>\<rparr>"

lemma gated_state_facts:
  "ip_pin_commit gated_state = cid 0" "ip_created_commits gated_state = []" "cid 0 \<noteq> []"
  "filter (\<lambda>c. c \<notin> set (gr_ancestors line_graph (cid 0))) (gr_ancestors line_graph (cid 2)) = [cid 2, cid 1]"
  "state_problems (fail_step step_changelog_finalized ''stopped'' gated_state) = []"
  "ip_releasable (fail_step step_changelog_finalized ''stopped'' gated_state) \<noteq> []"
  "step_completed gated_state step_release_archived"
  "cx_text sample_context e = ''stopped''"
  by code_simp+

lemma gated_walk_stops:
  "\<exists>y. stopping sample_context step_changelog_finalized (guard_foreign sample_context checkpoint_ci_gate) gated_walk =
     (Inl (Refuse (ForeignCommits checkpoint_ci_gate [cid 2, cid 1])) :: string release_error + unit, y)"
  by (simp add: gated_walk_def sample_walk_def run_simps stop_simps guard_foreign_def foreign_commits_def commits_since_def
      aguard_def save_def save_state_def with_state_def sample_ids sample_branch sample_context_fields gated_state_facts)

theorem gate_failure_reopens_witness:
  "\<exists>y st. stopping sample_context step_changelog_finalized (guard_foreign sample_context checkpoint_ci_gate) gated_walk =
     (Inl (Refuse (ForeignCommits checkpoint_ci_gate [cid 2, cid 1])) :: string release_error + unit, y) \<and>
     w_saved (x_world y) = Some st \<and> \<not> step_completed st step_changelog_finalized \<and>
     step_completed (adopt (cid 2) [cid 2] st) step_release_archived"
proof -
  obtain y where y: "stopping sample_context step_changelog_finalized (guard_foreign sample_context checkpoint_ci_gate) gated_walk =
     (Inl (Refuse (ForeignCommits checkpoint_ci_gate [cid 2, cid 1])) :: string release_error + unit, y)"
    using gated_walk_stops by blast
  have "step_completed (x_state gated_walk) step_release_archived" by (simp add: gated_walk_def gated_state_facts)
  from gate_failure_reopens [OF y this, of "[cid 2]" "cid 2"] y show ?thesis by blast
qed

section \<open>A release that ends\<close>

text \<open>What a walk leaves of the run state and of the saved one.\<close>

definition settled :: "('e, 'w) execution \<Rightarrow> ('e, 'w) execution \<Rightarrow> bool" where
  "settled x y \<longleftrightarrow> x_state y = x_state x \<and> w_saved (x_world y) = w_saved (x_world x)"

lemma settled_reflp: "reflp settled" and settled_transp: "transp settled"
  by (auto simp: settled_def reflp_def transp_def)

lemma saved_others [simp]: "w_saved (others ms w) = w_saved w"
  by (induction ms w rule: others.induct) auto

lemma settled_op_call: "acts settled (op_call ev m)"
  by (auto simp: acts_def op_call_def settled_def next_turn_def split: prod.split option.split list.split turn.split)

lemma settled_await:
  "(\<And>d. acts settled (pause d)) \<Longrightarrow> acts settled missing \<Longrightarrow> acts settled (await_publication pause missing ds out)"
  by (induction ds arbitrary: out)
     (auto intro!: acts_abind settled_transp acts_aret settled_reflp)

lemma settled_verify_publication: "acts settled (verify_publication X)"
  unfolding verify_publication_def
  by (auto intro!: acts_abind settled_transp acts_aret settled_reflp acts_aguard settled_op_call settled_await acts_afail)

lemma settled_get_walk: "acts settled (get_walk f)"
  by (simp add: acts_def get_walk_def settled_def)

lemma epilogue_done:
  assumes "epilogue X x = (Inr (), y)"
  shows "ip_failed (x_state y) = [] \<and> missing_steps step_names (x_state y) = [] \<and> w_saved (x_world y) = None"
proof -
  from assms obtain z where st: "ip_failed (x_state x) = []" "missing_steps step_names (x_state x) = []"
    and c: "clear_state x = (Inr (), z)"
    and rest: "abind (get_walk x_candidate) (\<lambda>candidate.
     abind (if cx_from_ci X then op_call [] (op_confirm (cx_ship X) (ip_tag (x_state x)) candidate) else aret ()) (\<lambda>_.
     if \<not> cx_watch X then aret ()
     else abind (op_call [] (op_watch (cx_ship X) candidate)) (\<lambda>failing.
       aguard (failing \<noteq> []) (Refuse (CiFailedAfter failing)) (verify_publication X)))) z = (Inr (), y)"
    unfolding epilogue_def
    by (auto simp: abind_def [of "get_walk x_state"] abind_Inr [of clear_state] aguard_Inr get_walk_def split: if_splits)
  have "acts settled (abind (get_walk x_candidate) (\<lambda>candidate.
     abind (if cx_from_ci X then op_call [] (op_confirm (cx_ship X) (ip_tag (x_state x)) candidate) else aret ()) (\<lambda>_.
     if \<not> cx_watch X then aret ()
     else abind (op_call [] (op_watch (cx_ship X) candidate)) (\<lambda>failing.
       aguard (failing \<noteq> []) (Refuse (CiFailedAfter failing)) (verify_publication X)))))"
    by (auto intro!: acts_abind settled_transp acts_aret settled_reflp acts_aguard settled_op_call settled_verify_publication
        settled_get_walk acts_afail)
  from actsD [OF this rest] st clear_state_Inr [OF c] show ?thesis by (simp add: settled_def)
qed

lemma walk_ends:
  assumes "run_walk X x = (Inr (), y)" "\<not> cx_defer X"
  shows "\<exists>z. epilogue X z = (Inr (), y)"
  using assms by (auto simp: run_walk_def walk_from_verdict_def abind_Inr)

text \<open>
  A walk that ends without an error has every step of the table recorded as done and none as
  failed, the hooks included, and has removed its run state.
\<close>

theorem walk_success:
  assumes "run_walk X x = (Inr (), y)" "\<not> cx_defer X"
  shows "is_complete step_names fatal_steps (x_state y) \<and> (\<forall>s \<in> set step_names. step_completed (x_state y) s) \<and>
    w_saved (x_world y) = None"
proof -
  from walk_ends [OF assms] obtain z where "epilogue X z = (Inr (), y)" ..
  from epilogue_done [OF this] show ?thesis
    by (auto simp: is_complete_def fatal_failure_def missing_steps_def filter_empty_conv failed_step_def)
qed

definition ending_state :: in_progress where
  "ending_state = (x_state (sample_walk []))\<lparr>ip_completed := step_names, ip_release_commit := cid 0\<rparr>"

definition ending_walk :: "(string, string list) execution" where
  "ending_walk = (sample_walk [])\<lparr>x_state := ending_state\<rparr>"

lemma ending_state_facts:
  "ip_pin_commit ending_state = cid 0" "ip_created_commits ending_state = []" "ip_release_commit ending_state = cid 0"
  "filter (\<lambda>c. c \<notin> set (gr_ancestors line_graph (cid 0))) (gr_ancestors line_graph (cid 0)) = []"
  "cid 0 \<in> set (gr_ancestors line_graph (cid 0))" "cid 0 \<noteq> []"
  "ip_failed ending_state = []" "missing_steps step_names ending_state = []"
  by code_simp+

lemma ending_completed: "step_completed ending_state s \<longleftrightarrow> s \<in> set step_names"
  by (simp add: ending_state_def step_completed_def)

lemma step_names_in:
  "step_committed \<in> set step_names" "step_ci_verified \<in> set step_names" "step_changelog_finalized \<in> set step_names"
  "step_release_archived \<in> set step_names" "step_tagged \<in> set step_names" "step_pushed \<in> set step_names"
  "step_github_release \<in> set step_names" "step_pipelines_published \<in> set step_names" "step_deployed \<in> set step_names"
  "step_hooks_run \<in> set step_names"
  by code_simp+

lemma ending_context_fields:
  "op_fate (cx_prepare sample_context) = aret FateRecorded" "\<not> cx_defer sample_context" "cx_from_ci sample_context"
  "op_confirm (cx_ship sample_context) tag c = aret ()" "cx_watch sample_context"
  "op_watch (cx_ship sample_context) c = aret []" "cx_publishes sample_context"
  "op_publishable (cx_ship sample_context) = aret [''app'']" "op_unlisted (cx_ship sample_context) ps = aret []"
  by (simp_all add: sample_context_def sample_prepare_def sample_ship_def)

lemma ending_walk_ends: "\<exists>y. run_walk sample_context ending_walk = (Inr (), y)"
  by (simp add: ending_walk_def sample_walk_def run_simps guard_foreign_def foreign_commits_def commits_since_def aguard_def
      run_walk_def walk_to_verdict_def walk_from_verdict_def stopping_def bump_and_commit_def completed_def push_candidate_def
      op_call_def require_recorded_candidate_def resolve_id_def ancestry_of_def set_candidate_def set_pushed_def verify_ci_def
      settle_steps_def take_step_def post_release_hooks_def epilogue_def clear_state_def verify_publication_def
      publication_delays_def aret_def
      ending_state_facts ending_completed step_names_in ending_context_fields sample_ids sample_branch sample_context_fields)

theorem walk_success_witness:
  "\<exists>y. run_walk sample_context ending_walk = (Inr (), y) \<and> is_complete step_names fatal_steps (x_state y) \<and>
     w_saved (x_world y) = None"
proof -
  obtain y where y: "run_walk sample_context ending_walk = (Inr (), y)" using ending_walk_ends by blast
  from walk_success [OF this] y show ?thesis by (auto simp: ending_context_fields)
qed

section \<open>Waiting for the registries\<close>

lemma await_counts:
  assumes pause: "\<And>d s r t. pause d s = (r, t) \<Longrightarrow> waited t = waited s + d \<and> asked t = asked s"
    and ask: "\<And>s r t. missing s = (r, t) \<Longrightarrow> waited t = waited s \<and> asked t = Suc (asked s)"
    and run: "await_publication pause missing ds out s = (r, t)"
  shows "waited t \<le> waited s + sum_list ds \<and> asked t \<le> asked s + length ds \<and>
    (\<forall>x. r = Inr x \<longrightarrow> x \<noteq> [] \<longrightarrow> waited t = waited s + sum_list ds \<and> asked t = asked s + length ds)"
  using run
proof (induction ds arbitrary: out s)
  case (Cons d ds)
  let ?p = "if 0 < d then pause d else aret ()"
  have p: "waited s' = waited s + d \<and> asked s' = asked s" if "?p s = (q, s')" for q s'
    using that pause by (auto simp: aret_def split: if_splits)
  show ?case
  proof (cases "?p s")
    case a: (Pair q s1)
    show ?thesis
    proof (cases q)
      case (Inl e)
      with a Cons.prems p [OF a] show ?thesis by (auto simp: abind_def)
    next
      case (Inr u)
      obtain q2 s2 where b: "missing s1 = (q2, s2)" by fastforce
      note m = p [OF a] ask [OF b]
      show ?thesis
      proof (cases "\<exists>x. q2 = Inr x \<and> x \<noteq> []")
        case True
        with a b Inr Cons.prems obtain x where "await_publication pause missing ds x s2 = (r, t)"
          by (auto simp: abind_def split: if_splits)
        from Cons.IH [OF this] m show ?thesis by auto
      next
        case False
        with a b Inr Cons.prems m show ?thesis by (cases q2) (auto simp: abind_def aret_def)
      qed
    qed
  qed
qed (auto simp: aret_def)

text \<open>
  The wait for the registries asks at most seven times and waits at most 320 seconds in all,
  and it answers that a package is missing only after it has waited all of them and asked every
  time, which is longer than the five minutes a registry may take to list what it accepted.
\<close>

theorem publication_wait:
  assumes "\<And>d s r t. pause d s = (r, t) \<Longrightarrow> waited t = waited s + d \<and> asked t = asked s"
    and "\<And>s r t. missing s = (r, t) \<Longrightarrow> waited t = waited s \<and> asked t = Suc (asked s)"
    and "await_publication pause missing publication_delays [] s = (r, t)"
  shows "waited t \<le> waited s + 320 \<and> asked t \<le> asked s + 7 \<and>
    (\<forall>x. r = Inr x \<longrightarrow> x \<noteq> [] \<longrightarrow> waited t = waited s + 320 \<and> asked t = asked s + (7 :: nat) \<and> 300 < waited t - waited s)"
proof -
  have total: "sum_list publication_delays = 320" "length publication_delays = 7"
    by (simp_all add: publication_delays_def)
  show ?thesis
    using await_counts [where waited = waited and asked = asked, OF assms(1) assms(2) assms(3)] unfolding total by auto
qed

definition clock_pause :: "nat \<Rightarrow> (nat \<times> nat, string, unit) act" where
  "clock_pause d s = (Inr (), (fst s + d, snd s))"

definition clock_missing :: "(nat \<times> nat, string, string list) act" where
  "clock_missing s = (Inr (if fst s < 50 then [''app''] else []), (fst s, Suc (snd s)))"

theorem publication_wait_witness:
  "await_publication clock_pause clock_missing publication_delays [] (0, 0) = (Inr [], (50, 4)) \<and> (50 :: nat) \<le> 0 + 320"
proof -
  have run: "await_publication clock_pause clock_missing publication_delays [] (0, 0) = (Inr [], (50, 4))"
    by (simp add: publication_delays_def clock_pause_def clock_missing_def abind_def aret_def)
  have p: "fst t = fst s + d \<and> snd t = snd s" if "clock_pause d s = (r, t)" for d s r t
    using that by (auto simp: clock_pause_def)
  have m: "fst t = fst s \<and> snd t = Suc (snd s)" if "clock_missing s = (r, t)" for s r t
    using that by (auto simp: clock_missing_def)
  have "fst (50 :: nat, 4 :: nat) \<le> fst (0 :: nat, 0 :: nat) + 320"
    by (rule publication_wait [where waited = fst and asked = snd and pause = clock_pause and missing = clock_missing,
          OF _ _ run, THEN conjunct1]) (erule p m)+
  with run show ?thesis by simp
qed

end
