(* ===== verification/Go_Regex.thy ===== *)
theory Go_Regex
  imports Go_Strings
begin

text \<open>
  The regular expressions the program writes out, as Go's regexp reads them with the flags i and m:
  a syntax tree, what it matches between two positions of a text, and the search that decides
  it. Texts are bytes; the two letters outside ASCII that Go folds onto k and s are left out.
\<close>

section \<open>Expressions\<close>

datatype char_class = AnyChar | DigitChar | SpaceChar | OtherChar

datatype regex =
    Fail
  | Empty
  | Lit string
  | Class char_class
  | WordEdge
  | LineStart
  | Seq regex regex
  | Alt regex regex
  | Star regex

definition seqs :: "regex list \<Rightarrow> regex" where
  "seqs rs = foldr Seq rs Empty"

definition alts :: "regex list \<Rightarrow> regex" where
  "alts rs = foldr Alt rs Fail"

definition some_of :: "regex \<Rightarrow> regex" where
  "some_of r = Seq r (Star r)"

definition opt :: "regex \<Rightarrow> regex" where
  "opt r = Alt r Empty"

section \<open>Characters and edges\<close>

definition to_lower :: "char \<Rightarrow> char" where
  "to_lower c = (if CHR ''A'' \<le> c \<and> c \<le> CHR ''Z'' then char_of (of_char c + (32 :: nat)) else c)"

definition regex_space :: "char \<Rightarrow> bool" where
  "regex_space c \<longleftrightarrow> c \<in> set [CHR 0x09, CHR 0x0A, CHR 0x0C, CHR 0x0D, CHR 0x20]"

definition word_char :: "char \<Rightarrow> bool" where
  "word_char c \<longleftrightarrow> is_digit c \<or> c = CHR ''_'' \<or> (CHR ''a'' \<le> to_lower c \<and> to_lower c \<le> CHR ''z'')"

fun in_class :: "char_class \<Rightarrow> char \<Rightarrow> bool" where
  "in_class AnyChar c \<longleftrightarrow> c \<noteq> CHR 0x0A"
| "in_class DigitChar c \<longleftrightarrow> is_digit c"
| "in_class SpaceChar c \<longleftrightarrow> regex_space c"
| "in_class OtherChar c \<longleftrightarrow> \<not> regex_space c"

definition word_at :: "string \<Rightarrow> nat \<Rightarrow> bool" where
  "word_at t i \<longleftrightarrow> i < length t \<and> word_char (t ! i)"

definition word_edge :: "string \<Rightarrow> nat \<Rightarrow> bool" where
  "word_edge t i \<longleftrightarrow> (0 < i \<and> word_at t (i - 1)) \<noteq> word_at t i"

definition line_start :: "string \<Rightarrow> nat \<Rightarrow> bool" where
  "line_start t i \<longleftrightarrow> i = 0 \<or> t ! (i - 1) = CHR 0x0A"

definition lit_at :: "string \<Rightarrow> string \<Rightarrow> nat \<Rightarrow> bool" where
  "lit_at t w i \<longleftrightarrow> i + length w \<le> length t \<and> map to_lower (take (length w) (drop i t)) = map to_lower w"

section \<open>What an expression matches\<close>

primrec matched :: "string \<Rightarrow> regex \<Rightarrow> nat \<Rightarrow> nat \<Rightarrow> bool" where
  "matched t Fail = (\<lambda>i j. False)"
| "matched t Empty = (\<lambda>i j. j = i)"
| "matched t (Lit w) = (\<lambda>i j. lit_at t w i \<and> j = i + length w)"
| "matched t (Class c) = (\<lambda>i j. i < length t \<and> in_class c (t ! i) \<and> j = Suc i)"
| "matched t WordEdge = (\<lambda>i j. word_edge t i \<and> j = i)"
| "matched t LineStart = (\<lambda>i j. line_start t i \<and> j = i)"
| "matched t (Seq r s) = (\<lambda>i j. \<exists>k. matched t r i k \<and> matched t s k j)"
| "matched t (Alt r s) = (\<lambda>i j. matched t r i j \<or> matched t s i j)"
| "matched t (Star r) = (matched t r)\<^sup>*\<^sup>*"

section \<open>The search\<close>

text \<open>Where repeated moves of f can end: only moves forward are followed, at most n of them.\<close>

fun star_ends :: "(nat \<Rightarrow> nat list) \<Rightarrow> nat \<Rightarrow> nat \<Rightarrow> nat list" where
  "star_ends f 0 i = [i]"
| "star_ends f (Suc n) i = i # concat (map (star_ends f n) (filter (\<lambda>k. i < k) (f i)))"

primrec ends :: "string \<Rightarrow> regex \<Rightarrow> nat \<Rightarrow> nat list" where
  "ends t Fail = (\<lambda>i. [])"
| "ends t Empty = (\<lambda>i. [i])"
| "ends t (Lit w) = (\<lambda>i. if lit_at t w i then [i + length w] else [])"
| "ends t (Class c) = (\<lambda>i. if i < length t \<and> in_class c (t ! i) then [Suc i] else [])"
| "ends t WordEdge = (\<lambda>i. if word_edge t i then [i] else [])"
| "ends t LineStart = (\<lambda>i. if line_start t i then [i] else [])"
| "ends t (Seq r s) = (\<lambda>i. concat (map (ends t s) (remdups (ends t r i))))"
| "ends t (Alt r s) = (\<lambda>i. ends t r i @ ends t s i)"
| "ends t (Star r) = (\<lambda>i. star_ends (ends t r) (length t - i) i)"

definition regex_matches :: "regex \<Rightarrow> string \<Rightarrow> bool" where
  "regex_matches r t \<longleftrightarrow> list_ex (\<lambda>i. ends t r i \<noteq> []) [0..<Suc (length t)]"

section \<open>The search decides the relation\<close>

lemma matched_bounds: "matched t r i j \<Longrightarrow> i \<le> length t \<Longrightarrow> i \<le> j \<and> j \<le> length t"
proof (induction r arbitrary: i j)
  case (Seq r s)
  then show ?case by (fastforce dest: order_trans)
next
  case (Star r)
  from Star.prems(1) have "(matched t r)\<^sup>*\<^sup>* i j" by simp
  then show ?case
  proof (induction rule: rtranclp_induct)
    case (step k l)
    with Star.IH [OF step(2)] show ?case by simp
  qed (simp add: Star.prems)
qed (auto simp: lit_at_def)

lemma star_ends_sound: "k \<in> set (star_ends f n i) \<Longrightarrow> (\<lambda>a b. b \<in> set (f a))\<^sup>*\<^sup>* i k"
proof (induction n arbitrary: i)
  case (Suc n)
  then show ?case by (auto intro: converse_rtranclp_into_rtranclp)
qed simp

lemma star_ends_complete:
  assumes "(\<lambda>a b. b \<in> set (f a))\<^sup>*\<^sup>* i k" and f: "\<And>a b. b \<in> set (f a) \<Longrightarrow> a \<le> m \<Longrightarrow> a \<le> b \<and> b \<le> m" and "i \<le> m"
  shows "m - i \<le> n \<Longrightarrow> k \<in> set (star_ends f n i)"
  using assms(1,3)
proof (induction arbitrary: n rule: converse_rtranclp_induct)
  case base
  then show ?case by (cases n) auto
next
  case (step i j)
  from f [OF step(1)] step have j: "i \<le> j" "j \<le> m" by auto
  show ?case
  proof (cases "i = j")
    case False
    with j step.prems obtain n' where n: "n = Suc n'" by (cases n) auto
    with j False step have "k \<in> set (star_ends f n' j)" by simp
    with n False j step(1) show ?thesis by (auto intro!: bexI [of _ j])
  qed (use step in auto)
qed

lemma ends_matched: "i \<le> length t \<Longrightarrow> j \<in> set (ends t r i) \<longleftrightarrow> matched t r i j"
proof (induction r arbitrary: i j)
  case (Seq r s)
  have "k \<le> length t" if "matched t r i k" for k using matched_bounds [OF that Seq.prems] ..
  with Seq show ?case by auto
next
  case (Star r)
  have steps: "(\<lambda>a b. b \<in> set (ends t r a))\<^sup>*\<^sup>* i k \<longleftrightarrow> (matched t r)\<^sup>*\<^sup>* i k" for k
  proof
    assume "(\<lambda>a b. b \<in> set (ends t r a))\<^sup>*\<^sup>* i k"
    then have "(matched t r)\<^sup>*\<^sup>* i k \<and> k \<le> length t"
    proof (induction rule: rtranclp_induct)
      case (step a b)
      with Star.IH [of a b] have "matched t r a b" by simp
      with step matched_bounds [OF this] show ?case by auto
    qed (simp add: Star.prems)
    then show "(matched t r)\<^sup>*\<^sup>* i k" ..
  next
    assume "(matched t r)\<^sup>*\<^sup>* i k"
    then have "(\<lambda>a b. b \<in> set (ends t r a))\<^sup>*\<^sup>* i k \<and> k \<le> length t"
    proof (induction rule: rtranclp_induct)
      case (step a b)
      with Star.IH [of a b] matched_bounds [of t r a b] show ?case by (auto intro: rtranclp.rtrancl_into_rtrancl)
    qed (simp add: Star.prems)
    then show "(\<lambda>a b. b \<in> set (ends t r a))\<^sup>*\<^sup>* i k" ..
  qed
  have "a \<le> b \<and> b \<le> length t" if "b \<in> set (ends t r a)" "a \<le> length t" for a b
    using Star.IH [OF that(2)] that(1) matched_bounds [OF _ that(2)] by blast
  then have "(\<lambda>a b. b \<in> set (ends t r a))\<^sup>*\<^sup>* i j \<Longrightarrow> j \<in> set (star_ends (ends t r) (length t - i) i)"
    using star_ends_complete [of "ends t r" i j "length t" "length t - i"] Star.prems by blast
  with star_ends_sound [of j "ends t r" "length t - i" i] steps show ?case by auto
qed auto

lemma regex_matches_iff: "regex_matches r t \<longleftrightarrow> (\<exists>i j. i \<le> length t \<and> matched t r i j)"
proof
  assume "regex_matches r t"
  then obtain i where "i \<le> length t" "ends t r i \<noteq> []"
    by (auto simp: regex_matches_def list_ex_iff less_Suc_eq_le simp del: upt_Suc)
  then obtain j where "j \<in> set (ends t r i)" by (cases "ends t r i") auto
  with \<open>i \<le> length t\<close> show "\<exists>i j. i \<le> length t \<and> matched t r i j" by (auto simp: ends_matched)
next
  assume "\<exists>i j. i \<le> length t \<and> matched t r i j"
  then obtain i j where "i \<le> length t" "j \<in> set (ends t r i)" by (auto simp: ends_matched)
  then show "regex_matches r t" 
    by (auto simp: regex_matches_def list_ex_iff less_Suc_eq_le simp del: upt_Suc intro!: bexI [of _ i])
qed

end
