(* ===== verification/CI_Log.thy ===== *)
theory CI_Log
  imports Go_Regex
begin

text \<open>
  What the log of a failed CI run says: the part of a job's log that is worth reading and the class of
  the failure (internal/ci/watch.go). The signatures are the patterns of the source, written as
  syntax trees.
\<close>

section \<open>The class of a failure\<close>

datatype failure_class = Infrastructure | Deterministic | Transient | Unrecognized

definition spaces :: regex where "spaces = Star (Class SpaceChar)"
definition space_run :: regex where "space_run = some_of (Class SpaceChar)"
definition digits :: regex where "digits = some_of (Class DigitChar)"
definition anything :: regex where "anything = Star (Class AnyChar)"
definition two_digits :: regex where "two_digits = Seq (Class DigitChar) (Class DigitChar)"

definition infrastructure_signatures :: "regex list" where
  "infrastructure_signatures =
     [seqs [Lit ''was not acquired by'', space_run, opt (alts [seqs [Lit ''a'', space_run], seqs [Lit ''the'', space_run]]), Lit ''runner''],
      seqs [Lit ''waiting for a runner to pick up this job'', anything, alts [Lit ''expired'', Lit ''timed out'']],
      Lit ''failed to resolve action download info'',
      seqs [Lit ''unable to '', alts [Lit ''resolve'', Lit ''download''], Lit '' action'']]"

definition deterministic_signatures :: "regex list" where
  "deterministic_signatures =
     [seqs [Lit ''==='', Star (Lit ''=''), spaces, digits, space_run, Lit ''failed''],
      Lit ''short test summary info'',
      seqs [LineStart, Lit ''FAILED'', space_run, Class OtherChar],
      Lit ''--- FAIL:'',
      seqs [LineStart, Lit ''FAIL'', WordEdge],
      Lit ''[build failed]'',
      seqs [Lit ''Tests:'', anything, WordEdge, Lit ''failed''],
      seqs [Lit ''npm ERR!'', space_run, Lit ''Test failed''],
      seqs [Lit ''compilation '', alts [Lit ''failed'', Lit ''error'']],
      seqs [WordEdge, Lit ''build failed'', WordEdge],
      seqs [Lit ''error[E'', digits, Lit '']''],
      seqs [WordEdge, Lit ''SyntaxError'', WordEdge],
      seqs [Lit ''cannot find '', alts [Lit ''module'', Lit ''package'']],
      Lit ''undefined reference to'',
      seqs [Lit ''undefined:'', Class SpaceChar],
      Lit ''strictcli'',
      Lit ''registration error'',
      seqs [WordEdge, Lit ''ConfigError'', WordEdge],
      seqs [WordEdge, Lit ''ValidationError'', WordEdge],
      Lit ''invalid configuration'',
      seqs [Lit ''goreleaser'', WordEdge, anything, WordEdge, alts [Lit ''error'', Lit ''invalid'']],
      Lit ''only configuration files are allowed'',
      Lit ''Invalid workflow file'',
      seqs [Lit ''yaml:'', spaces, Lit ''line'', spaces, digits],
      seqs [Lit ''workflow'', anything, Lit ''syntax error''],
      Lit ''Input required and not supplied'',
      seqs [Lit ''could not read '', alts [Lit ''Username'', Lit ''Password'']],
      Lit ''Permission denied'',
      Lit ''denied: permission_denied'',
      Lit ''authentication failed'',
      seqs [Lit ''remote: Permission to '', anything, Lit '' denied'']]"

definition transient_signatures :: "regex list" where
  "transient_signatures =
     [Lit ''rate limit'',
      seqs [WordEdge, Lit ''429'', WordEdge],
      Lit ''Too Many Requests'',
      Lit ''i/o timeout'',
      seqs [Lit ''connection '', alts [Lit ''reset'', Lit ''refused'', Lit ''timed out'']],
      Lit ''network is unreachable'',
      Lit ''temporary failure in name resolution'',
      Lit ''TLS handshake timeout'',
      seqs [WordEdge, Lit ''dial tcp'', WordEdge],
      seqs [Lit ''HTTP 5'', two_digits],
      seqs [Lit ''5'', two_digits, space_run, alts [Lit ''Server Error'', Lit ''Bad Gateway'', Lit ''Service Unavailable'',
        seqs [Lit ''Gateway Time'', opt (Lit ''-''), Lit ''out'']]],
      Lit ''internal server error'',
      Lit ''The runner has received a shutdown signal'',
      Lit ''lost communication with the server'',
      Lit ''The operation was canceled'',
      seqs [Lit ''received request to '', alts [Lit ''deprovision'', Lit ''cancel'']]]"

definition any_signature :: "regex list \<Rightarrow> string \<Rightarrow> bool" where
  "any_signature rs log \<longleftrightarrow> list_ex (\<lambda>r. regex_matches r log) rs"

definition classify_failure :: "string \<Rightarrow> failure_class" where
  "classify_failure log =
     (if trim_space log = [] then Infrastructure
      else if any_signature infrastructure_signatures log then Infrastructure
      else if any_signature deterministic_signatures log then Deterministic
      else if any_signature transient_signatures log then Transient
      else Unrecognized)"

section \<open>The region of a log\<close>

definition log_tail_lines :: nat where "log_tail_lines = 100"
definition log_error_context :: nat where "log_error_context = 5"
definition log_max_failed_jobs :: nat where "log_max_failed_jobs = 5"

definition last_lines :: "string list \<Rightarrow> string list" where
  "last_lines ls = (if log_tail_lines < length ls then drop (length ls - log_tail_lines) ls else ls)"

definition error_marks :: "string list \<Rightarrow> nat list" where
  "error_marks ls = filter (\<lambda>i. str_contains (ls ! i) ''##[error]'') [0..<length ls]"

definition failure_region :: "string list \<Rightarrow> string list" where
  "failure_region ls =
     (let marks = error_marks ls in
      if marks = [] then last_lines ls
      else last_lines (map ((!) ls) (sort (remdups (concat (map (\<lambda>m. [m - log_error_context..<Suc m]) marks))))))"

lemma last_lines_bound: "length (last_lines ls) \<le> log_tail_lines"
  by (simp add: last_lines_def)

lemma last_lines_suffix: "suffix (last_lines ls) ls"
  by (auto simp: last_lines_def suffix_def intro: append_take_drop_id [symmetric])

lemma last_lines_last: "ls \<noteq> [] \<Longrightarrow> last_lines ls \<noteq> [] \<and> last (last_lines ls) = last ls"
  by (auto simp: last_lines_def log_tail_lines_def)

lemma subseq_sorted_nths:
  "sorted_wrt (<) is \<Longrightarrow> list_all (\<lambda>i. i < length ls) is \<Longrightarrow> subseq (map ((!) ls) is) ls"
proof -
  assume s: "sorted_wrt (<) is" "list_all (\<lambda>i. i < length ls) is"
  have "is = filter (\<lambda>i. i \<in> set is) [0..<length ls]"
    by (rule strict_sorted_equal) (use s in \<open>auto simp: list_all_iff intro: sorted_wrt_filter\<close>)
  then have "subseq is [0..<length ls]" by (metis subseq_filter_left)
  then show ?thesis using subseq_map [of "is" "[0..<length ls]" "(!) ls"] by (simp add: map_nth)
qed

text \<open>The lines of a region before it is cut: each within the context of a mark, in order.\<close>

definition region_indices :: "string list \<Rightarrow> nat list" where
  "region_indices ls = sort (remdups (concat (map (\<lambda>m. [m - log_error_context..<Suc m]) (error_marks ls))))"

lemma region_indices:
  "set (region_indices ls) = {i. \<exists>m \<in> set (error_marks ls). m - log_error_context \<le> i \<and> i \<le> m}"
  "sorted_wrt (<) (region_indices ls)"
proof -
  show "sorted_wrt (<) (region_indices ls)" by (simp add: region_indices_def strict_sorted_iff)
  have "i \<in> set [m - log_error_context..<Suc m] \<longleftrightarrow> m - log_error_context \<le> i \<and> i \<le> m" for i m by auto
  then show "set (region_indices ls) = {i. \<exists>m \<in> set (error_marks ls). m - log_error_context \<le> i \<and> i \<le> m}"
    unfolding region_indices_def by (auto simp del: upt_Suc)
qed

lemma error_mark: "m \<in> set (error_marks ls) \<longleftrightarrow> m < length ls \<and> str_contains (ls ! m) ''##[error]''"
  by (auto simp: error_marks_def)

lemma failure_region_cases:
  "failure_region ls = last_lines (if error_marks ls = [] then ls else map ((!) ls) (region_indices ls))"
  by (simp add: failure_region_def region_indices_def Let_def)

lemma sorted_last: "sorted xs \<Longrightarrow> x \<in> set xs \<Longrightarrow> x \<le> last xs"
  by (induction xs) auto

lemma region_last:
  assumes "error_marks ls \<noteq> []"
  shows "region_indices ls \<noteq> [] \<and> last (region_indices ls) = last (error_marks ls)"
proof -
  let ?m = "last (error_marks ls)"
  have sorted: "sorted (error_marks ls)" unfolding error_marks_def by (intro sorted_filter [where f = id, simplified] sorted_upt)
  have m: "?m \<in> set (error_marks ls)" using assms by simp
  then have in_set: "?m \<in> set (region_indices ls)" unfolding region_indices by (intro CollectI bexI conjI) simp_all
  have max: "i \<le> ?m" if i: "i \<in> set (region_indices ls)" for i
  proof -
    from i obtain k where k: "k \<in> set (error_marks ls)" "i \<le> k" unfolding region_indices by blast
    from sorted_last [OF sorted k(1)] k(2) show ?thesis by (rule order_trans [rotated])
  qed
  have ne: "region_indices ls \<noteq> []" using in_set by (metis empty_iff list.set(1))
  have "sorted (region_indices ls)" by (simp add: region_indices_def)
  from sorted_last [OF this in_set] max [OF last_in_set [OF ne]]
  have "last (region_indices ls) = ?m" by (rule antisym [rotated])
  with ne show ?thesis ..
qed

text \<open>
  The region of a failed job's log has at most a hundred lines, which are lines of the log in
  order, and when the log marks an error it ends with the last line that marks one, and every line
  of it is a mark or one of the five lines before one.
\<close>

theorem failure_region_spec:
  "length (failure_region ls) \<le> 100 \<and> subseq (failure_region ls) ls \<and>
   (error_marks ls \<noteq> [] \<longrightarrow> failure_region ls \<noteq> [] \<and> last (failure_region ls) = ls ! last (error_marks ls) \<and>
     set (failure_region ls) \<subseteq> {ls ! i | i m. m \<in> set (error_marks ls) \<and> m - 5 \<le> i \<and> i \<le> m})"
proof -
  let ?r = "if error_marks ls = [] then ls else map ((!) ls) (region_indices ls)"
  have "list_all (\<lambda>i. i < length ls) (region_indices ls)"
    by (auto simp: list_all_iff region_indices error_mark)
  from subseq_sorted_nths [OF region_indices(2) this] have "subseq ?r ls" by simp
  then have sub: "subseq (failure_region ls) ls"
    unfolding failure_region_cases using last_lines_suffix subseq_order.trans suffix_imp_subseq by blast
  have all: "set (failure_region ls) \<subseteq> set ?r"
    unfolding failure_region_cases using last_lines_suffix set_mono_suffix by blast
  show ?thesis
  proof (intro conjI impI)
    show "length (failure_region ls) \<le> 100"
      using last_lines_bound by (simp add: failure_region_cases log_tail_lines_def)
    show "subseq (failure_region ls) ls" by (rule sub)
  next
    assume m: "error_marks ls \<noteq> []"
    then have r: "failure_region ls = last_lines (map ((!) ls) (region_indices ls))" by (simp add: failure_region_cases)
    from region_last [OF m] last_lines_last [of "map ((!) ls) (region_indices ls)"]
    show "failure_region ls \<noteq> []" "last (failure_region ls) = ls ! last (error_marks ls)"
      by (simp_all add: r last_map)
    show "set (failure_region ls) \<subseteq> {ls ! i | i m. m \<in> set (error_marks ls) \<and> m - 5 \<le> i \<and> i \<le> m}"
      using all m by (simp add: region_indices log_error_context_def image_iff subset_iff) blast
  qed
qed

theorem failure_region_spec_witness:
  "failure_region [''a'', ''##[error] x'', ''b''] = [''a'', ''##[error] x''] \<and>
   last (failure_region [''a'', ''##[error] x'', ''b'']) = ''##[error] x''"
proof -
  have marks: "error_marks [''a'', ''##[error] x'', ''b''] = [1]" by code_simp
  with failure_region_spec [of "[''a'', ''##[error] x'', ''b'']"]
  have "last (failure_region [''a'', ''##[error] x'', ''b'']) = ''##[error] x''" by simp
  moreover have "failure_region [''a'', ''##[error] x'', ''b''] = [''a'', ''##[error] x'']" by code_simp
  ultimately show ?thesis by blast
qed

end
