(* ===== verification/CI_Checks.thy ===== *)
theory CI_Checks
  imports Act_Rules Declarations
begin

text \<open>
  Whether a releasing project's own CI ran and passed on a commit: the check runs of
  internal/ci/checks.go, and the polling step of the wait-for-ci job a publish workflow runs
  (internal/workflows/waitforci.go), which asks the same question before it publishes. Compiling a
  pattern is a parameter, and so are the patterns of the generated workflows.
\<close>

section \<open>Check runs\<close>

definition passing :: string where "passing = ''success''"
definition skipped :: string where "skipped = ''skipped''"
definition completed_status :: string where "completed_status = ''completed''"
definition matrix_entry_suffix :: string where "matrix_entry_suffix = '' (''"

record ci_job =
  jb_id :: int
  jb_name :: string
  jb_status :: string
  jb_conclusion :: string
  jb_started :: string
  jb_url :: string

record check_run =
  cr_id :: int
  cr_name :: string
  cr_status :: string
  cr_conclusion :: string
  cr_started :: string
  cr_url :: string

definition from_jobs :: "ci_job list \<Rightarrow> check_run list" where
  "from_jobs = map (\<lambda>j. \<lparr>cr_id = jb_id j, cr_name = jb_name j, cr_status = jb_status j, cr_conclusion = jb_conclusion j,
     cr_started = jb_started j, cr_url = jb_url j\<rparr>)"

record check_filter =
  cf_label :: string
  cf_pattern :: string

datatype 'e filter_error = NotDeclared string | TargetsFailed 'e | PatternFailed 'e

text \<open>One filter per member of the releasable, the member's name its label.\<close>

definition releasable_filters ::
  "('e, string) result \<Rightarrow> (member \<Rightarrow> ('e, string) result) \<Rightarrow> releasables \<Rightarrow> string \<Rightarrow> ('e filter_error, check_filter list) result" where
  "releasable_filters targets_pattern member_pattern d name =
     (case find_releasable d name of
        None \<Rightarrow> Inl (NotDeclared name)
      | Some r \<Rightarrow>
          if \<not> is_workspace d then
            (case targets_pattern of Inl e \<Rightarrow> Inl (TargetsFailed e) | Inr p \<Rightarrow> Inr [\<lparr>cf_label = name, cf_pattern = p\<rparr>])
          else
            rmap (\<lambda>m. if is_root m \<and> r_check_pattern r \<noteq> [] then Inr \<lparr>cf_label = m_name m, cf_pattern = r_check_pattern r\<rparr>
                else (case member_pattern m of Inl e \<Rightarrow> Inl (PatternFailed e) | Inr p \<Rightarrow> Inr \<lparr>cf_label = m_name m, cf_pattern = p\<rparr>))
              (sort_by (\<lambda>a b. m_name a < m_name b) (members_of d name)))"

definition has_verdict :: "check_run \<Rightarrow> bool" where
  "has_verdict r \<longleftrightarrow> cr_status r = completed_status \<and> cr_conclusion r \<noteq> skipped"

definition newer :: "check_run \<Rightarrow> check_run \<Rightarrow> bool" where
  "newer a b \<longleftrightarrow> (if cr_started a \<noteq> cr_started b then cr_started b < cr_started a else cr_id b < cr_id a)"

definition dec_of_int :: "int \<Rightarrow> string" where
  "dec_of_int i = (if i < 0 then ''-'' @ dec_of_nat (nat (- i)) else dec_of_nat (nat i))"

definition of_run :: "int \<Rightarrow> check_run \<Rightarrow> bool" where
  "of_run run r \<longleftrightarrow> run \<noteq> 0 \<and> str_contains (cr_url r) (''/actions/runs/'' @ dec_of_int run @ ''/'')"

fun newest_run :: "check_run \<Rightarrow> check_run list \<Rightarrow> check_run" where
  "newest_run best [] = best"
| "newest_run best (r # rs) = newest_run (if newer r best then r else best) rs"

fun newest_verdict :: "check_run option \<Rightarrow> check_run list \<Rightarrow> check_run option" where
  "newest_verdict best [] = best"
| "newest_verdict best (r # rs) =
     newest_verdict (if has_verdict r \<and> (case best of None \<Rightarrow> True | Some b \<Rightarrow> newer r b) then Some r else best) rs"

fun chosen_run :: "check_run list \<Rightarrow> check_run option" where
  "chosen_run [] = None"
| "chosen_run (r # rs) =
     (let best = newest_run r rs in
      Some (if cr_conclusion best = skipped
            then (case newest_verdict None (r # rs) of Some v \<Rightarrow> v | None \<Rightarrow> best) else best))"

definition named :: "string \<Rightarrow> check_run list \<Rightarrow> check_run list" where
  "named n = filter (\<lambda>r. cr_name r = n)"

definition latest_check_runs :: "(string \<Rightarrow> bool) \<Rightarrow> int \<Rightarrow> check_run list \<Rightarrow> check_run list" where
  "latest_check_runs pattern exclude runs =
     (let kept = filter (\<lambda>r. pattern (cr_name r) \<and> \<not> of_run exclude r) runs;
          names = sorted_set (map cr_name kept);
          by_name = (\<lambda>n. chosen_run (named n kept));
          covered = (\<lambda>n. list_ex (\<lambda>other. has_prefix other (n @ matrix_entry_suffix) \<and>
            (case by_name other of None \<Rightarrow> False | Some o' \<Rightarrow> has_verdict o')) names)
      in concat (map (\<lambda>n. case by_name n of
             None \<Rightarrow> []
           | Some r \<Rightarrow> if cr_conclusion r = skipped \<and> covered n then [] else [r]) names))"

record failure =
  fl_name :: string
  fl_conclusion :: string

definition failing_check_runs :: "check_run list \<Rightarrow> failure list" where
  "failing_check_runs runs = concat (map (\<lambda>r.
     if cr_status r \<noteq> completed_status then [\<lparr>fl_name = cr_name r, fl_conclusion = (if cr_status r = [] then ''pending'' else cr_status r)\<rparr>]
     else if cr_conclusion r \<noteq> passing then [\<lparr>fl_name = cr_name r, fl_conclusion = (if cr_conclusion r = [] then ''none'' else cr_conclusion r)\<rparr>]
     else []) runs)"

section \<open>The verification\<close>

datatype 'e check_error =
    NoAttempts
  | BadPattern string string
  | FetchFailed 'e
  | NoCheckRun "check_filter list" "string list"
  | NotPassed "(string \<times> failure) list"

definition is_not_run_error :: "'e check_error \<Rightarrow> bool" where
  "is_not_run_error e = (case e of NoCheckRun _ _ \<Rightarrow> True | NotPassed _ \<Rightarrow> True | _ \<Rightarrow> False)"

fun enforced_checks ::
  "(string \<Rightarrow> (string \<Rightarrow> bool) option) \<Rightarrow> check_filter list \<Rightarrow> ('e check_error, (check_filter \<times> (string \<Rightarrow> bool)) list) result" where
  "enforced_checks compile [] = Inr []"
| "enforced_checks compile (f # fs) =
     (if cf_pattern f = [] then enforced_checks compile fs
      else (case compile (cf_pattern f) of
          None \<Rightarrow> Inl (BadPattern (cf_pattern f) (cf_label f))
        | Some p \<Rightarrow> rbind (enforced_checks compile fs) (\<lambda>cs. Inr ((f, p) # cs))))"

text \<open>The runs each label matched; a label met twice keeps its last pattern's.\<close>

definition matched_runs :: "int \<Rightarrow> check_run list \<Rightarrow> (check_filter \<times> (string \<Rightarrow> bool)) list \<Rightarrow> string \<Rightarrow> check_run list" where
  "matched_runs exclude runs checks label =
     fold (\<lambda>(f, p) rs. if cf_label f = label then latest_check_runs p exclude runs else rs) checks []"

fun ask_checks ::
  "('s, 'e, check_run list) act \<Rightarrow> ('s \<Rightarrow> 's) \<Rightarrow> int \<Rightarrow> (check_filter \<times> (string \<Rightarrow> bool)) list \<Rightarrow> nat \<Rightarrow>
   ('s, 'e check_error, check_run list) act" where
  "ask_checks fetch pause exclude checks 0 = afail NoAttempts"
| "ask_checks fetch pause exclude checks (Suc left) =
     abind (awrap FetchFailed fetch) (\<lambda>runs.
     if left = 0 \<or> list_all (\<lambda>(f, p). latest_check_runs p exclude runs \<noteq> []) checks then aret runs
     else (\<lambda>s. ask_checks fetch pause exclude checks left (pause s)))"

definition verify_project_ci_ran ::
  "(string \<Rightarrow> (string \<Rightarrow> bool) option) \<Rightarrow> ('s, 'e, check_run list) act \<Rightarrow> ('s \<Rightarrow> 's) \<Rightarrow> nat \<Rightarrow> int \<Rightarrow> check_filter list \<Rightarrow>
   ('s, 'e check_error, unit) act" where
  "verify_project_ci_ran compile fetch pause attempts exclude filters =
     aguard (attempts < 1) NoAttempts
    (abind (aread (\<lambda>_. enforced_checks compile filters)) (\<lambda>checks.
     if checks = [] then aret ()
     else
       abind (ask_checks fetch pause exclude checks attempts) (\<lambda>runs.
       let found = matched_runs exclude runs checks;
           missing = map fst (filter (\<lambda>(f, _). found (cf_label f) = []) checks);
           failures = concat (map (\<lambda>(f, _). map (\<lambda>x. (cf_label f, x)) (failing_check_runs (found (cf_label f)))) checks) in
       aguard (missing \<noteq> []) (NoCheckRun missing (sorted_set (map cr_name runs)))
      (aguard (failures \<noteq> []) (NotPassed failures) (aret ())))))"

section \<open>The wait-for-ci job\<close>

text \<open>
  The collapse the polling step of a publish workflow asks jq for: groups by name, in each the last
  by start and id, a skip replaced by the last verdict of its group, and a skip dropped when a
  verdict of a matrix entry of its name stands.
\<close>

definition last_started :: "check_run list \<Rightarrow> check_run" where
  "last_started g = last (sort_by (\<lambda>a b. newer b a) g)"

definition group_latest :: "check_run list \<Rightarrow> check_run" where
  "group_latest g =
     (let newest = last_started g; verdicts = filter has_verdict g in
      if cr_conclusion newest = skipped then (if verdicts = [] then newest else last_started verdicts) else newest)"

definition job_collapse :: "(string \<Rightarrow> bool) \<Rightarrow> int \<Rightarrow> check_run list \<Rightarrow> check_run list" where
  "job_collapse pattern exclude runs =
     (let kept = filter (\<lambda>r. pattern (cr_name r) \<and> \<not> of_run exclude r) runs;
          latest = map (\<lambda>n. group_latest (named n kept)) (sorted_set (map cr_name kept))
      in filter (\<lambda>c. cr_conclusion c \<noteq> skipped \<or>
           filter (\<lambda>l. has_prefix (cr_name l) (cr_name c @ '' ('') \<and> cr_status l = completed_status \<and> cr_conclusion l \<noteq> skipped) latest = [])
           latest)"

datatype job_answer = NoRunYet | StillRunning | NotSuccess "check_run list" | AllSucceeded

definition wait_job_answer :: "(string \<Rightarrow> bool) \<Rightarrow> int \<Rightarrow> check_run list \<Rightarrow> job_answer" where
  "wait_job_answer pattern exclude runs =
     (let cs = job_collapse pattern exclude runs; bad = filter (\<lambda>c. cr_conclusion c \<noteq> passing) cs in
      if cs = [] then NoRunYet
      else if filter (\<lambda>c. cr_status c \<noteq> completed_status) cs \<noteq> [] then StillRunning
      else if bad \<noteq> [] then NotSuccess bad
      else AllSucceeded)"

section \<open>The two collapses agree\<close>

lemma newer_irrefl: "\<not> newer a a"
  by (simp add: newer_def)

lemma newer_trans: "newer a b \<Longrightarrow> newer b c \<Longrightarrow> newer a c"
  by (auto simp: newer_def split: if_splits)

lemma newer_cases: "newer a b \<or> newer b a \<or> cr_id a = cr_id b"
  by (auto simp: newer_def)

lemma not_newer_trans: "\<not> newer a b \<Longrightarrow> \<not> newer b c \<Longrightarrow> \<not> newer a c"
  by (auto simp: newer_def split: if_splits)

text \<open>A run of a group that none of the group is newer than.\<close>

definition newest_in :: "check_run list \<Rightarrow> check_run \<Rightarrow> bool" where
  "newest_in g m \<longleftrightarrow> m \<in> set g \<and> (\<forall>r \<in> set g. \<not> newer r m)"

lemma newest_in_unique: "newest_in g m \<Longrightarrow> newest_in g n \<Longrightarrow> inj_on cr_id (set g) \<Longrightarrow> m = n"
  using newer_cases [of m n] by (auto simp: newest_in_def dest: inj_onD)

lemma newest_run_newest: "newest_in (b # rs) (newest_run b rs)"
proof (induction rs arbitrary: b)
  case (Cons r rs)
  let ?b = "if newer r b then r else b"
  let ?m = "newest_run ?b rs"
  have m: "?m \<in> set (?b # rs)" "\<And>x. x \<in> set (?b # rs) \<Longrightarrow> \<not> newer x ?m"
    using Cons.IH [of ?b] by (auto simp only: newest_in_def)
  have b: "\<not> newer r ?b" "\<not> newer b ?b" using newer_irrefl newer_trans [of r b r] by auto
  have "\<not> newer r ?m" "\<not> newer b ?m" using not_newer_trans [OF _ m(2) [of ?b]] b by simp_all
  moreover have "?m \<in> set (b # r # rs)" using m(1) by (auto split: if_splits)
  ultimately show ?case using m(2) by (simp add: newest_in_def)
qed (simp add: newest_in_def newer_irrefl)

lemma newest_verdict_newest:
  "newest_verdict best rs =
     (case (case best of None \<Rightarrow> [] | Some b \<Rightarrow> [b]) @ filter has_verdict rs of [] \<Rightarrow> None | v # vs \<Rightarrow> Some (newest_run v vs))"
proof (induction rs arbitrary: best)
  case (Cons r rs)
  show ?case
  proof (cases "has_verdict r")
    case True
    show ?thesis by (cases best) (simp_all add: True Cons.IH)
  next
    case False
    then show ?thesis by (simp add: Cons.IH)
  qed
qed (simp split: option.split)

lemma last_started_newest: "g \<noteq> [] \<Longrightarrow> newest_in g (last_started g)"
proof -
  assume g: "g \<noteq> []"
  let ?s = "sort_by (\<lambda>a b. newer b a) g"
  have s: "sorted_wrt (\<lambda>a b. \<not> newer a b) ?s"
    by (rule sorted_sort_by [of "\<lambda>a b. newer b a"]) (use newer_irrefl newer_trans not_newer_trans in blast)+
  have ne: "?s \<noteq> []" using g by (metis set_empty set_sort_by)
  from s have "sorted_wrt (\<lambda>a b. \<not> newer a b) (butlast ?s @ [last ?s])" by (simp only: append_butlast_last_id [OF ne])
  then have "\<not> newer r (last ?s)" if "r \<in> set (butlast ?s @ [last ?s])" for r
    using that newer_irrefl unfolding sorted_wrt_append set_append by auto
  then have "\<not> newer r (last ?s)" if "r \<in> set ?s" for r
    using that unfolding append_butlast_last_id [OF ne] by blast
  with last_in_set [OF ne] show "newest_in g (last_started g)" by (simp add: newest_in_def last_started_def)
qed

lemma newest_run_last_started:
  "inj_on cr_id (set (r # rs)) \<Longrightarrow> newest_run r rs = last_started (r # rs)"
  by (rule newest_in_unique [OF newest_run_newest last_started_newest]) simp_all

lemma chosen_run_latest:
  assumes "g \<noteq> []" "inj_on cr_id (set g)"
  shows "chosen_run g = Some (group_latest g)"
proof (cases g)
  case (Cons r rs)
  note best = newest_run_last_started [OF assms(2) [unfolded Cons]]
  have verdict: "newest_verdict None g = (if filter has_verdict g = [] then None else Some (last_started (filter has_verdict g)))"
  proof (cases "filter has_verdict g")
    case (Cons v vs)
    then have "set (v # vs) \<subseteq> set g" by (metis filter_is_subset)
    then have "inj_on cr_id (set (v # vs))" using assms(2) inj_on_subset by blast
    with Cons newest_run_last_started [of v vs] show ?thesis by (simp add: newest_verdict_newest)
  qed (simp add: newest_verdict_newest)
  have "chosen_run g = (let best = newest_run r rs in
      Some (if cr_conclusion best = skipped then (case newest_verdict None g of Some v \<Rightarrow> v | None \<Rightarrow> best) else best))"
    unfolding Cons by (rule chosen_run.simps)
  also have "newest_run r rs = last_started g" unfolding Cons by (rule best)
  finally show ?thesis
    unfolding group_latest_def Let_def verdict by (cases "filter has_verdict g = []") simp_all
qed (use assms in simp)

lemma group_latest_in: "g \<noteq> [] \<Longrightarrow> group_latest g \<in> set g"
  using last_started_newest [of g] last_started_newest [of "filter has_verdict g"]
  by (auto simp: group_latest_def newest_in_def Let_def)

lemma collapse_agrees:
  assumes "inj_on cr_id (set runs)"
  shows "latest_check_runs pattern exclude runs = job_collapse pattern exclude runs"
proof -
  let ?kept = "filter (\<lambda>r. pattern (cr_name r) \<and> \<not> of_run exclude r) runs"
  let ?names = "sorted_set (map cr_name ?kept)"
  let ?latest = "\<lambda>n. group_latest (named n ?kept)"
  have group: "chosen_run (named n ?kept) = Some (?latest n) \<and> cr_name (?latest n) = n" if "n \<in> set ?names" for n
  proof -
    from that have "named n ?kept \<noteq> []" by (auto simp: named_def filter_empty_conv)
    moreover have "inj_on cr_id (set (named n ?kept))" using assms by (rule inj_on_subset) (auto simp: named_def)
    ultimately show ?thesis using chosen_run_latest group_latest_in [of "named n ?kept"] by (simp add: named_def)
  qed
  define covers where "covers n other \<longleftrightarrow> has_prefix other (n @ '' ('') \<and> has_verdict (?latest other)" for n other
  have keep: "concat (map (\<lambda>n. case chosen_run (named n ?kept) of None \<Rightarrow> []
       | Some r \<Rightarrow> if cr_conclusion r = skipped \<and> list_ex (\<lambda>other. has_prefix other (n @ matrix_entry_suffix) \<and>
            (case chosen_run (named other ?kept) of None \<Rightarrow> False | Some v \<Rightarrow> has_verdict v)) ?names then [] else [r]) ns) =
     filter (\<lambda>c. cr_conclusion c \<noteq> skipped \<or> \<not> list_ex (covers (cr_name c)) ?names) (map ?latest ns)"
    if "set ns \<subseteq> set ?names" for ns
    using that
  proof (induction ns)
    case (Cons n ns)
    then have n: "n \<in> set ?names" and ns: "set ns \<subseteq> set ?names" by auto
    have "list_ex (\<lambda>other. has_prefix other (n @ matrix_entry_suffix) \<and>
            (case chosen_run (named other ?kept) of None \<Rightarrow> False | Some v \<Rightarrow> has_verdict v)) ?names \<longleftrightarrow> list_ex (covers n) ?names"
      unfolding list_ex_iff using group by (intro bex_cong refl) (simp add: covers_def matrix_entry_suffix_def)
    with Cons.IH [OF ns] group [OF n] show ?case by simp
  qed simp
  have cover: "list_ex (covers n) ?names \<longleftrightarrow>
     filter (\<lambda>l. has_prefix (cr_name l) (n @ '' ('') \<and> cr_status l = completed_status \<and> cr_conclusion l \<noteq> skipped) (map ?latest ?names) \<noteq> []" for n
    using group by (auto simp: list_ex_iff filter_empty_conv covers_def has_verdict_def)
  show ?thesis
    unfolding latest_check_runs_def job_collapse_def Let_def keep [OF order_refl] cover by simp
qed

section \<open>What the verification shows\<close>

lemma enforced_checks_Inr:
  "enforced_checks compile fs = Inr cs \<Longrightarrow>
   map fst cs = filter (\<lambda>f. cf_pattern f \<noteq> []) fs \<and> (\<forall>(f, p) \<in> set cs. compile (cf_pattern f) = Some p)"
proof (induction fs arbitrary: cs)
  case (Cons f fs)
  then show ?case by (auto simp: rbind_eq_Inr split: if_splits option.splits)
qed simp

lemma fold_other:
  "label \<notin> (\<lambda>(f, p). cf_label f) ` set checks \<Longrightarrow>
   fold (\<lambda>(f, p) rs. if cf_label f = label then latest_check_runs p x runs else rs) checks rs = rs"
  by (induction checks arbitrary: rs) auto

lemma matched_runs_of:
  assumes "distinct (map (\<lambda>(f, p). cf_label f) checks)" "(f, p) \<in> set checks"
  shows "matched_runs x runs checks (cf_label f) = latest_check_runs p x runs"
proof -
  from assms(2) obtain as bs where c: "checks = as @ (f, p) # bs" by (auto dest: split_list)
  with assms(1) have "cf_label f \<notin> (\<lambda>(f, p). cf_label f) ` set bs" by auto
  from fold_other [OF this] show ?thesis by (simp add: c matched_runs_def)
qed

lemma ask_checks_Inr: "ask_checks fetch pause x checks n s = (Inr runs, t) \<Longrightarrow> \<exists>s'. fetch s' = (Inr runs, t)"
proof (induction n arbitrary: s)
  case (Suc n)
  then show ?case by (auto simp: act_Inr split: if_splits)
qed simp

lemma failing_none: "failing_check_runs runs = [] \<longleftrightarrow> (\<forall>r \<in> set runs. cr_status r = completed_status \<and> cr_conclusion r = passing)"
  by (induction runs) (simp_all add: failing_check_runs_def)

lemma all_succeeded:
  "wait_job_answer p x runs = AllSucceeded \<longleftrightarrow>
   job_collapse p x runs \<noteq> [] \<and> (\<forall>c \<in> set (job_collapse p x runs). cr_status c = completed_status \<and> cr_conclusion c = passing)"
  by (auto simp: wait_job_answer_def Let_def filter_empty_conv)

lemma verify_Inr:
  fixes fetch :: "('s, 'e, check_run list) act"
  assumes "verify_project_ci_ran compile fetch pause attempts x filters s = (Inr (), t)"
  shows "\<exists>cs. (enforced_checks compile filters :: ('e check_error, (check_filter \<times> (string \<Rightarrow> bool)) list) result) = Inr cs \<and> (cs \<noteq> [] \<longrightarrow>
    (\<exists>runs. ask_checks fetch pause x cs attempts s = (Inr runs, t) \<and>
      (\<forall>(f, p) \<in> set cs. matched_runs x runs cs (cf_label f) \<noteq> [] \<and> failing_check_runs (matched_runs x runs cs (cf_label f)) = [])))"
proof -
  from assms obtain cs
    where cs: "(enforced_checks compile filters :: ('e check_error, (check_filter \<times> (string \<Rightarrow> bool)) list) result) = Inr cs"
    by (auto simp: verify_project_ci_ran_def act_Inr)
  show ?thesis
  proof (cases "cs = []")
    case False
    with assms cs obtain runs where "ask_checks fetch pause x cs attempts s = (Inr runs, t)"
      "map fst (filter (\<lambda>(f, _). matched_runs x runs cs (cf_label f) = []) cs) = []"
      "concat (map (\<lambda>(f, _). map (\<lambda>y. (cf_label f, y)) (failing_check_runs (matched_runs x runs cs (cf_label f)))) cs) = []"
      by (auto simp: verify_project_ci_ran_def act_Inr Let_def)
    with cs show ?thesis by (fastforce simp: filter_empty_conv)
  qed (use cs in simp)
qed

text \<open>
  The release's verification and the wait-for-ci job of the publish workflow ask one question: when
  the verification accepts a candidate, the job answers that all succeeded, for every project with
  CI of its own, on the check runs the verification read last.
\<close>

lemma verified_candidate_answers:
  fixes fetch :: "('s, 'e, check_run list) act"
  assumes "verify_project_ci_ran compile fetch pause attempts x filters s = (Inr (), t)"
    and "distinct (map cf_label filters)" and "\<And>s r t. fetch s = (Inr r, t) \<Longrightarrow> inj_on cr_id (set r)"
  shows "\<exists>runs. \<forall>f \<in> set filters. cf_pattern f \<noteq> [] \<longrightarrow>
    (\<exists>p. compile (cf_pattern f) = Some p \<and> wait_job_answer p x runs = AllSucceeded)"
proof -
  from verify_Inr [OF assms(1)] obtain cs
    where cs: "(enforced_checks compile filters :: ('e check_error, (check_filter \<times> (string \<Rightarrow> bool)) list) result) = Inr cs"
    and run: "cs \<noteq> [] \<Longrightarrow> \<exists>runs. ask_checks fetch pause x cs attempts s = (Inr runs, t) \<and>
      (\<forall>(f, p) \<in> set cs. matched_runs x runs cs (cf_label f) \<noteq> [] \<and> failing_check_runs (matched_runs x runs cs (cf_label f)) = [])"
    by blast
  note e = enforced_checks_Inr [OF cs]
  have d: "distinct (map (\<lambda>(f, p). cf_label f) cs)"
  proof -
    have "map (\<lambda>(f, p). cf_label f) cs = map cf_label (filter (\<lambda>f. cf_pattern f \<noteq> []) filters)"
      by (simp add: e [THEN conjunct1, symmetric] case_prod_beta)
    then show ?thesis using assms(2) by (simp add: distinct_map_filter)
  qed
  have in_cs: "\<exists>p. (f, p) \<in> set cs \<and> compile (cf_pattern f) = Some p" if "f \<in> set filters" "cf_pattern f \<noteq> []" for f
  proof -
    have "f \<in> set (map fst cs)" unfolding e [THEN conjunct1] using that by simp
    then obtain p where "(f, p) \<in> set cs" by auto
    with e show ?thesis by fastforce
  qed
  show ?thesis
  proof (cases "cs = []")
    case True
    with in_cs show ?thesis by auto
  next
    case False
    from run [OF this] obtain runs where ask: "ask_checks fetch pause x cs attempts s = (Inr runs, t)"
      and found: "\<forall>(f, p) \<in> set cs. matched_runs x runs cs (cf_label f) \<noteq> [] \<and>
        failing_check_runs (matched_runs x runs cs (cf_label f)) = []" by blast
    from ask_checks_Inr [OF ask] assms(3) have inj: "inj_on cr_id (set runs)" by blast
    have "wait_job_answer p x runs = AllSucceeded" if "(f, p) \<in> set cs" for f p
    proof -
      from found that have "matched_runs x runs cs (cf_label f) \<noteq> []"
        "failing_check_runs (matched_runs x runs cs (cf_label f)) = []" by auto
      then show ?thesis by (simp add: matched_runs_of [OF d that] collapse_agrees [OF inj] all_succeeded failing_none)
    qed
    with in_cs show ?thesis by blast
  qed
qed

definition sample_check :: "string \<Rightarrow> int \<Rightarrow> string \<Rightarrow> check_run" where
  "sample_check name i conclusion =
     \<lparr>cr_id = i, cr_name = name, cr_status = completed_status, cr_conclusion = conclusion, cr_started = ''t'', cr_url = []\<rparr>"

definition sample_runs :: "check_run list" where
  "sample_runs = [sample_check ''app / test'' 1 skipped, sample_check ''app / test (3.12)'' 2 passing,
     sample_check ''app / lint'' 3 passing, sample_check ''app / lint'' 4 skipped]"

lemma sample_verified:
  "verify_project_ci_ran (\<lambda>p. Some (\<lambda>n. has_prefix n p)) (aret sample_runs) id 6 0 [\<lparr>cf_label = ''app'', cf_pattern = ''app / ''\<rparr>] () =
     (Inr () :: string check_error + unit, ())"
  by code_simp

end
