(* ===== verification/CI_Watch.thy ===== *)
theory CI_Watch
  imports CI_Log CI_Checks
begin

text \<open>
  The watch of a candidate's CI runs (internal/ci/watch.go): the discovery of its runs, each run to its
  conclusion, the one retry of a failure a second run could change, the verdict, and the check of the
  projects' own CI. GitHub and the clock are the operations of a host on its state; an operation
  may take time and may fail. Times are nanoseconds without a bound; progress messages are left out.
\<close>

section \<open>The host\<close>

definition seconds :: "int \<Rightarrow> int" where "seconds n = n * 1000000000"

record workflow_run =
  wr_id :: int
  wr_name :: string
  wr_branch :: string
  wr_sha :: string
  wr_event :: string

record run_status =
  rs_status :: string
  rs_conclusion :: string

record run_query =
  rq_commit :: string
  rq_workflow :: string
  rq_event :: string

record ('s, 'e) ci_host =
  h_now :: "'s \<Rightarrow> int"
  h_sleep :: "int \<Rightarrow> 's \<Rightarrow> 's"
  h_watch :: "int \<Rightarrow> int \<Rightarrow> ('s, 'e, bool) act"
  h_state :: "int \<Rightarrow> ('s, 'e, run_status) act"
  h_runs :: "run_query \<Rightarrow> ('s, 'e, workflow_run list) act"
  h_run :: "int \<Rightarrow> ('s, 'e, workflow_run) act"
  h_jobs :: "int \<Rightarrow> ('s, 'e, ci_job list) act"
  h_log :: "int \<Rightarrow> ('s, 'e, string) act"
  h_rerun_failed :: "int \<Rightarrow> ('s, 'e, unit) act"
  h_rerun :: "int \<Rightarrow> ('s, 'e, unit) act"
  h_dispatch :: "string \<Rightarrow> ('s, 'e, unit) act"

definition pause :: "('s, 'e) ci_host \<Rightarrow> int \<Rightarrow> ('s, 'd, unit) act" where
  "pause W d s = (Inr (), h_sleep W d s)"

definition clock :: "('s, 'e) ci_host \<Rightarrow> ('s, 'd, int) act" where
  "clock W = aread (\<lambda>s. Inr (h_now W s))"

section \<open>The failure log\<close>

definition failed_job :: "ci_job \<Rightarrow> bool" where
  "failed_job j \<longleftrightarrow> jb_conclusion j \<noteq> [] \<and> jb_conclusion j \<noteq> passing \<and> jb_conclusion j \<noteq> skipped"

definition new_line :: string where "new_line = [CHR 0x0A]"

definition job_section :: "ci_job \<Rightarrow> string \<Rightarrow> string list" where
  "job_section j raw =
     (let region = filter (\<lambda>l. trim_space l \<noteq> []) (failure_region (split_on (CHR 0x0A) raw)) in
      if region = [] then []
      else [''--- '' @ jb_name j @ '' ('' @ jb_conclusion j @ '') ---'' @ new_line @ join new_line region])"

definition failure_log :: "('s, 'e) ci_host \<Rightarrow> int \<Rightarrow> ('s, 'e, string) act" where
  "failure_log W run =
     abind (h_jobs W run) (\<lambda>jobs.
     let failed = filter failed_job jobs; rest = drop log_max_failed_jobs failed in
     abind (afold (\<lambda>sections j. abind (h_log W (jb_id j)) (\<lambda>raw. aret (sections @ job_section j raw))) []
       (take log_max_failed_jobs failed)) (\<lambda>sections.
     if sections = [] then aret []
     else if rest \<noteq> [] then
       aret (join new_line (sections @ [''--- and '' @ dec_of_nat (length rest) @ '' more failing jobs: '' @
         join '', '' (map jb_name rest) @ '' ---'']))
     else aret (join new_line sections)))"

section \<open>One run\<close>

datatype outcome = Passed | Failed | TimedOut | Unresolved

definition state_probe_attempts :: nat where "state_probe_attempts = 3"
definition state_probe_interval :: int where "state_probe_interval = seconds 2"
definition watch_recheck_attempts :: nat where "watch_recheck_attempts = 6"
definition watch_recheck_interval :: int where "watch_recheck_interval = seconds 15"

fun probe_state :: "('s, 'e) ci_host \<Rightarrow> int \<Rightarrow> nat \<Rightarrow> ('s, 'd, run_status option) act" where
  "probe_state W run 0 = aret None"
| "probe_state W run (Suc left) =
     acatch (h_state W run)
       (\<lambda>_. if 0 < left then abind (pause W state_probe_interval) (\<lambda>_. probe_state W run left) else aret None)
       (\<lambda>st. aret (Some st))"

definition run_state :: "('s, 'e) ci_host \<Rightarrow> int \<Rightarrow> ('s, 'd, run_status option) act" where
  "run_state W run = probe_state W run state_probe_attempts"

fun conclude_loop :: "('s, 'e) ci_host \<Rightarrow> int \<Rightarrow> int \<Rightarrow> nat \<Rightarrow> ('s, 'd, outcome) act" where
  "conclude_loop W run deadline 0 = aret Unresolved"
| "conclude_loop W run deadline (Suc left) =
     abind (clock W) (\<lambda>now.
     if deadline - now \<le> 0 then aret TimedOut
     else
       abind (acatch (h_watch W run (deadline - now)) (\<lambda>_. aret False) aret) (\<lambda>passed.
       if passed then aret Passed
       else
         abind (clock W) (\<lambda>now.
         if deadline \<le> now then aret TimedOut
         else
           abind (run_state W run) (\<lambda>found.
           case found of
             None \<Rightarrow> aret Unresolved
           | Some st \<Rightarrow>
               if rs_status st = completed_status \<and> rs_conclusion st = passing then aret Passed
               else if rs_status st = completed_status \<and> rs_conclusion st \<noteq> [] then aret Failed
               else abind (if 0 < left then pause W watch_recheck_interval else aret ()) (\<lambda>_.
                 conclude_loop W run deadline left)))))"

definition to_conclusion :: "('s, 'e) ci_host \<Rightarrow> int \<Rightarrow> int \<Rightarrow> ('s, 'd, outcome) act" where
  "to_conclusion W run timeout =
     abind (clock W) (\<lambda>now. conclude_loop W run (now + timeout) (Suc watch_recheck_attempts))"

record run_result =
  rr_name :: string
  rr_run :: int
  rr_passed :: bool
  rr_unresolved :: bool

definition retry_timeout :: int where "retry_timeout = seconds 3600"

definition run_name :: "workflow_run \<Rightarrow> string" where
  "run_name r = (if wr_name r = [] then ''run '' @ dec_of_int (wr_id r) else wr_name r)"

definition result_of :: "workflow_run \<Rightarrow> bool \<Rightarrow> bool \<Rightarrow> run_result" where
  "result_of r passed unresolved = \<lparr>rr_name = run_name r, rr_run = wr_id r, rr_passed = passed, rr_unresolved = unresolved\<rparr>"

text \<open>The class of a failed run: a log that cannot be read leaves it unrecognized.\<close>

definition failure_class_of :: "('s, 'e) ci_host \<Rightarrow> int \<Rightarrow> ('s, 'd, failure_class) act" where
  "failure_class_of W run = acatch (failure_log W run) (\<lambda>_. aret Unrecognized) (\<lambda>log. aret (classify_failure log))"

text \<open>The second attempt: its watch has a budget of its own, and its log is read for the report only.\<close>

definition second_attempt :: "('s, 'e) ci_host \<Rightarrow> workflow_run \<Rightarrow> ('s, 'd, run_result) act" where
  "second_attempt W r =
     abind (to_conclusion W (wr_id r) retry_timeout) (\<lambda>out.
     case out of
       Passed \<Rightarrow> aret (result_of r True False)
     | Failed \<Rightarrow> acatch (failure_log W (wr_id r)) (\<lambda>_. aret (result_of r False False)) (\<lambda>_. aret (result_of r False False))
     | _ \<Rightarrow> aret (result_of r False True))"

definition watch_run ::
  "('s, 'e) ci_host \<Rightarrow> int \<Rightarrow> workflow_run \<Rightarrow> string list \<Rightarrow> ('s, 'd, run_result \<times> string list) act" where
  "watch_run W timeout r retried =
     abind (to_conclusion W (wr_id r) timeout) (\<lambda>out.
     case out of
       Passed \<Rightarrow> aret (result_of r True False, retried)
     | TimedOut \<Rightarrow> aret (result_of r False True, retried)
     | Unresolved \<Rightarrow> aret (result_of r False True, retried)
     | Failed \<Rightarrow>
         abind (failure_class_of W (wr_id r)) (\<lambda>class.
         if class = Deterministic \<or> run_name r \<in> set retried then aret (result_of r False False, retried)
         else
           acatch (if class = Infrastructure then h_rerun_failed W (wr_id r) else h_rerun W (wr_id r))
             (\<lambda>_. aret (result_of r False False, run_name r # retried))
             (\<lambda>_. abind (second_attempt W r) (\<lambda>res. aret (res, run_name r # retried)))))"

section \<open>The verdict\<close>

datatype verdict = Green | Red | Timeout | NotConfigured

fun aggregate_loop :: "bool \<Rightarrow> run_result list \<Rightarrow> verdict" where
  "aggregate_loop all [] = (if all then Green else Timeout)"
| "aggregate_loop all (r # rs) =
     (if rr_passed r then aggregate_loop all rs
      else if \<not> rr_unresolved r then Red
      else aggregate_loop False rs)"

definition aggregate :: "run_result list \<Rightarrow> verdict" where
  "aggregate rs = aggregate_loop True rs"

text \<open>A decoded value of a workflow; keys of a mapping are distinct.\<close>

datatype yaml = Text string | Items "yaml list" | Fields "(string \<times> yaml) list" | Null | OtherValue

fun triggers_push :: "yaml option \<Rightarrow> bool" where
  "triggers_push (Some (Text t)) \<longleftrightarrow> t = ''push''"
| "triggers_push (Some (Items es)) \<longleftrightarrow> Text ''push'' \<in> set es"
| "triggers_push (Some (Fields fs)) \<longleftrightarrow> map_of fs ''push'' \<noteq> None"
| "triggers_push _ \<longleftrightarrow> False"

record 'e workflow_file =
  wf_name :: string
  wf_dir :: bool
  wf_data :: "('e, string) result"

datatype 'e workflow_error = Unreadable 'e | NotWorkflow string

fun push_triggered_loop ::
  "(string \<Rightarrow> (string \<times> yaml) list option) \<Rightarrow> 'e workflow_file list \<Rightarrow> ('e workflow_error, string list) result" where
  "push_triggered_loop unmarshal [] = Inr []"
| "push_triggered_loop unmarshal (f # fs) =
     (if wf_dir f \<or> \<not> (has_suffix (wf_name f) ''.yml'' \<or> has_suffix (wf_name f) ''.yaml'') then push_triggered_loop unmarshal fs
      else (case wf_data f of
          Inl e \<Rightarrow> Inl (Unreadable e)
        | Inr data \<Rightarrow> (case unmarshal data of
            None \<Rightarrow> Inl (NotWorkflow (wf_name f))
          | Some doc \<Rightarrow> rbind (push_triggered_loop unmarshal fs) (\<lambda>names.
              Inr (if triggers_push (map_of doc ''on'') then wf_name f # names else names)))))"

definition push_triggered_workflows ::
  "(string \<Rightarrow> (string \<times> yaml) list option) \<Rightarrow> ('e, 'e workflow_file list option) result \<Rightarrow> ('e workflow_error, string list) result" where
  "push_triggered_workflows unmarshal listing =
     (case listing of
        Inl e \<Rightarrow> Inl (Unreadable e)
      | Inr None \<Rightarrow> Inr []
      | Inr (Some files) \<Rightarrow> rbind (push_triggered_loop unmarshal files) (\<lambda>names. Inr (sort names)))"

section \<open>The wait\<close>

definition discovery_grace :: int where "discovery_grace = seconds 300"
definition discovery_interval :: int where "discovery_interval = seconds 5"
definition discovery_budget_share :: int where "discovery_budget_share = 2"
definition minimum_completion_wait :: int where "minimum_completion_wait = seconds 30"
definition late_run_pause :: int where "late_run_pause = seconds 5"

definition runs_of :: "string \<Rightarrow> run_query" where
  "runs_of commit = \<lparr>rq_commit = commit, rq_workflow = [], rq_event = []\<rparr>"

text \<open>
  The discovery polls until a run appears or the grace has passed; fuel bounds the number of polls, and
  an answer of None is fuel that ran out.
\<close>

fun discover_loop :: "('s, 'e) ci_host \<Rightarrow> string \<Rightarrow> int \<Rightarrow> nat \<Rightarrow> 's \<Rightarrow> (workflow_run list \<times> 's) option" where
  "discover_loop W commit deadline 0 s = None"
| "discover_loop W commit deadline (Suc fuel) s =
     (case h_runs W (runs_of commit) s of
        (r, t) \<Rightarrow>
          (case r of
             Inr (x # xs) \<Rightarrow> Some (x # xs, t)
           | _ \<Rightarrow>
               if deadline \<le> h_now W t then Some ([], t)
               else discover_loop W commit deadline fuel (h_sleep W discovery_interval t)))"

definition discover_fuel :: "int \<Rightarrow> nat" where
  "discover_fuel grace = nat (grace div discovery_interval) + 3"

definition discover :: "('s, 'e) ci_host \<Rightarrow> string \<Rightarrow> int \<Rightarrow> ('s, 'd, workflow_run list) act" where
  "discover W commit grace s =
     (case discover_loop W commit (h_now W s + grace) (discover_fuel grace) s of
        None \<Rightarrow> (Inr [], s)
      | Some (runs, t) \<Rightarrow> (Inr runs, t))"

record 'e wait_inputs =
  wi_commit :: string
  wi_expected :: "('e workflow_error, string list) result"
  wi_timeout :: int
  wi_grace :: int
  wi_filters :: "check_filter list"
  wi_compile :: "string \<Rightarrow> (string \<Rightarrow> bool) option"

datatype 'e wait_error =
    WorkflowsUnread "'e workflow_error"
  | NoRun string "string list"
  | ListingFailed 'e
  | NotProven "'e check_error"

definition discovery_limit :: "int \<Rightarrow> int \<Rightarrow> int" where
  "discovery_limit timeout grace = min grace (max (timeout div discovery_budget_share) discovery_interval)"

definition unresolved_all :: "workflow_run list \<Rightarrow> run_result list" where
  "unresolved_all = map (\<lambda>r. \<lparr>rr_name = wr_name r, rr_run = wr_id r, rr_passed = False, rr_unresolved = True\<rparr>)"

definition remaining :: "('s, 'e) ci_host \<Rightarrow> int \<Rightarrow> int \<Rightarrow> ('s, 'd, int) act" where
  "remaining W timeout start = abind (clock W) (\<lambda>now. aret (timeout - (now - start)))"

text \<open>Each run is watched with what is left of the budget when its turn comes.\<close>

definition watch_each ::
  "('s, 'e) ci_host \<Rightarrow> ('s, 'd, int) act \<Rightarrow> workflow_run list \<Rightarrow> run_result list \<times> string list \<Rightarrow>
   ('s, 'd, run_result list \<times> string list) act" where
  "watch_each W budget runs acc =
     afold (\<lambda>(results, retried) r.
       abind budget (\<lambda>left.
       abind (watch_run W left r retried) (\<lambda>(res, retried). aret (results @ [res], retried)))) acc runs"

definition check_attempts :: nat where "check_attempts = 6"
definition check_interval :: int where "check_interval = seconds 5"

definition jobs_of_runs :: "('s, 'e) ci_host \<Rightarrow> int list \<Rightarrow> ('s, 'e, check_run list) act" where
  "jobs_of_runs W ids =
     afold (\<lambda>all i. abind (h_jobs W i) (\<lambda>jobs. aret (all @ from_jobs jobs))) [] ids"

definition first_seen :: "int list \<Rightarrow> int list" where
  "first_seen = foldl (\<lambda>ids i. if i \<in> set ids then ids else ids @ [i]) []"

definition late_runs :: "workflow_run list \<Rightarrow> workflow_run list \<Rightarrow> workflow_run list" where
  "late_runs runs again = filter (\<lambda>r. wr_id r \<notin> wr_id ` set runs) again"

definition judge_runs ::
  "('s, 'e) ci_host \<Rightarrow> 'e wait_inputs \<Rightarrow> run_result list \<Rightarrow> ('s, 'e wait_error, verdict \<times> run_result list) act" where
  "judge_runs W i results =
     (if aggregate results \<noteq> Green then aret (aggregate results, results)
      else
        abind (awrap NotProven (verify_project_ci_ran (wi_compile i) (jobs_of_runs W (first_seen (map rr_run results)))
          (h_sleep W check_interval) check_attempts 0 (wi_filters i))) (\<lambda>_. aret (Green, results)))"

definition watch_late ::
  "('s, 'e) ci_host \<Rightarrow> int \<Rightarrow> int \<Rightarrow> workflow_run list \<Rightarrow> run_result list \<times> string list \<Rightarrow>
   ('s, 'd, run_result list) act" where
  "watch_late W timeout start late acc =
     (if late = [] then aret (fst acc)
      else
        abind (remaining W timeout start) (\<lambda>left.
        if left < minimum_completion_wait then aret (fst acc @ unresolved_all late)
        else abind (watch_each W (remaining W timeout start) late acc) (\<lambda>acc. aret (fst acc))))"

definition wait_for_ci_green ::
  "('s, 'e) ci_host \<Rightarrow> 'e wait_inputs \<Rightarrow> ('s, 'e wait_error, verdict \<times> run_result list) act" where
  "wait_for_ci_green W i =
     (case wi_expected i of
        Inl e \<Rightarrow> afail (WorkflowsUnread e)
      | Inr [] \<Rightarrow> aret (NotConfigured, [])
      | Inr expected \<Rightarrow>
          abind (clock W) (\<lambda>start.
          abind (discover W (wi_commit i) (discovery_limit (wi_timeout i) (wi_grace i))) (\<lambda>runs.
          aguard (runs = []) (NoRun (wi_commit i) expected)
         (abind (remaining W (wi_timeout i) start) (\<lambda>left.
          if left < minimum_completion_wait then aret (Timeout, unresolved_all runs)
          else
            abind (watch_each W (remaining W (wi_timeout i) start) runs ([], [])) (\<lambda>acc.
            abind (pause W late_run_pause) (\<lambda>_.
            abind (awrap ListingFailed (h_runs W (runs_of (wi_commit i)))) (\<lambda>again.
            abind (watch_late W (wi_timeout i) start (late_runs runs again) acc) (\<lambda>results.
            judge_runs W i results)))))))))"

section \<open>The dispatch and the watch command\<close>

definition router_file :: string where "router_file = ''ci-router.yml''"
definition run_all_attempts :: nat where "run_all_attempts = 12"
definition run_all_interval :: int where "run_all_interval = seconds 5"

datatype 'e dispatch_error = DispatchFailed 'e | NotStarted string

fun find_dispatched :: "('s, 'e) ci_host \<Rightarrow> string \<Rightarrow> nat \<Rightarrow> ('s, 'e dispatch_error, workflow_run) act" where
  "find_dispatched W commit 0 = afail (NotStarted commit)"
| "find_dispatched W commit (Suc left) =
     (let again = abind (if 0 < left then pause W run_all_interval else aret ()) (\<lambda>_. find_dispatched W commit left) in
      acatch (h_runs W \<lparr>rq_commit = commit, rq_workflow = router_file, rq_event = ''workflow_dispatch''\<rparr>)
        (\<lambda>_. again)
        (\<lambda>runs. case List.find (\<lambda>r. wr_sha r = commit) runs of Some r \<Rightarrow> aret r | None \<Rightarrow> again))"

definition dispatch_run_all :: "('s, 'e) ci_host \<Rightarrow> string \<Rightarrow> string \<Rightarrow> ('s, 'e dispatch_error, workflow_run) act" where
  "dispatch_run_all W branch commit =
     abind (awrap DispatchFailed (h_dispatch W branch)) (\<lambda>_. find_dispatched W commit run_all_attempts)"

definition watch_discovery :: int where "watch_discovery = seconds 120"
definition watch_timeout :: int where "watch_timeout = seconds 3600"

definition watch_commit :: "('s, 'e) ci_host \<Rightarrow> string \<Rightarrow> ('s, 'e wait_error, run_result list) act" where
  "watch_commit W commit =
     abind (discover W commit watch_discovery) (\<lambda>runs.
     aguard (runs = []) (NoRun commit [])
    (abind (watch_each W (aret watch_timeout) runs ([], [])) (\<lambda>acc.
     abind (pause W late_run_pause) (\<lambda>_.
     abind (awrap ListingFailed (h_runs W (runs_of commit))) (\<lambda>again.
     abind (watch_each W (aret watch_timeout) (late_runs runs again) acc) (\<lambda>acc. aret (fst acc)))))))"

definition watch_run_ids :: "('s, 'e) ci_host \<Rightarrow> int list \<Rightarrow> ('s, 'e wait_error, run_result list) act" where
  "watch_run_ids W ids =
     abind (afold (\<lambda>runs i. abind (awrap ListingFailed (h_run W i)) (\<lambda>r. aret (runs @ [r]))) [] ids) (\<lambda>runs.
     abind (watch_each W (aret watch_timeout) runs ([], [])) (\<lambda>acc. aret (fst acc)))"

end
