(* ===== verification/CI_Publish.thy ===== *)
theory CI_Publish
  imports CI_Watch
begin

text \<open>
  The workflows a published Release starts, and whether they did (internal/ci/publishruns.go,
  internal/ci/dispatch.go): the triggers of a workflow, the preflight before a release pushes
  anything, and the confirmation after the Release exists. The workflows of a commit's tree are
  read and decoded by parameters; messages are left out.
\<close>

section \<open>Triggers\<close>

record release_workflow =
  rw_path :: string
  rw_types :: "string list option"

definition workflow_base :: "string \<Rightarrow> string" where
  "workflow_base p = last (split_on (CHR ''/'') p)"

definition release_activities :: "string list" where
  "release_activities = [''created'', ''published'', ''released'']"

definition starts :: "release_workflow \<Rightarrow> bool" where
  "starts w \<longleftrightarrow> (case rw_types w of None \<Rightarrow> True | Some ts \<Rightarrow> list_ex (\<lambda>t. t \<in> set release_activities) ts)"

datatype type_problem = TypeNotText | TypesNotList | OnNotEvents

fun texts_of :: "yaml list \<Rightarrow> (type_problem, string list) result" where
  "texts_of [] = Inr []"
| "texts_of (Text t # ys) = rbind (texts_of ys) (\<lambda>ts. Inr (t # ts))"
| "texts_of (_ # ys) = Inl TypeNotText"

text \<open>Whether a workflow triggers on release, and the types it filters on; an empty list is no filter.\<close>

definition filter_types :: "string list \<Rightarrow> string list option" where
  "filter_types ts = (if ts = [] then None else Some ts)"

fun release_types :: "yaml option \<Rightarrow> (type_problem, bool \<times> string list option) result" where
  "release_types (Some (Text t)) = Inr (t = ''release'', None)"
| "release_types (Some (Items es)) = Inr (Text ''release'' \<in> set es, None)"
| "release_types (Some (Fields fs)) =
     (case map_of fs ''release'' of
        None \<Rightarrow> Inr (False, None)
      | Some (Fields spec) \<Rightarrow>
          (case map_of spec ''types'' of
             None \<Rightarrow> Inr (True, None)
           | Some Null \<Rightarrow> Inr (True, None)
           | Some (Text t) \<Rightarrow> Inr (True, Some [t])
           | Some (Items ts) \<Rightarrow> rbind (texts_of ts) (\<lambda>ts. Inr (True, filter_types ts))
           | _ \<Rightarrow> Inl TypesNotList)
      | Some _ \<Rightarrow> Inr (True, None))"
| "release_types (Some Null) = Inr (False, None)"
| "release_types None = Inr (False, None)"
| "release_types (Some OtherValue) = Inl OnNotEvents"

datatype 'e tree_error = TreeUnread 'e | NotDecoded string | BadTypes string type_problem

fun release_workflows_loop ::
  "(string \<Rightarrow> (string \<times> yaml) list option) \<Rightarrow> (string \<times> string) list \<Rightarrow> ('e tree_error, release_workflow list) result" where
  "release_workflows_loop unmarshal [] = Inr []"
| "release_workflows_loop unmarshal ((path, text) # fs) =
     (case unmarshal text of
        None \<Rightarrow> Inl (NotDecoded path)
      | Some doc \<Rightarrow>
          (case release_types (map_of doc ''on'') of
             Inl e \<Rightarrow> Inl (BadTypes path e)
           | Inr (triggers, types) \<Rightarrow> rbind (release_workflows_loop unmarshal fs) (\<lambda>ws.
               Inr (if triggers then \<lparr>rw_path = path, rw_types = types\<rparr> # ws else ws))))"

definition release_workflows ::
  "(string \<Rightarrow> (string \<times> yaml) list option) \<Rightarrow> ('e, (string \<times> string) list) result \<Rightarrow> ('e tree_error, release_workflow list) result" where
  "release_workflows unmarshal files =
     (case files of Inl e \<Rightarrow> Inl (TreeUnread e) | Inr fs \<Rightarrow> release_workflows_loop unmarshal fs)"

text \<open>The inputs a dispatch of a workflow takes, when it can be dispatched.\<close>

definition dispatch_event :: string where "dispatch_event = ''workflow_dispatch''"

fun workflow_dispatch :: "yaml option \<Rightarrow> (string \<times> yaml) list option" where
  "workflow_dispatch (Some (Text t)) = (if t = dispatch_event then Some [] else None)"
| "workflow_dispatch (Some (Items es)) = (if Text dispatch_event \<in> set es then Some [] else None)"
| "workflow_dispatch (Some (Fields fs)) =
     (case map_of fs dispatch_event of
        None \<Rightarrow> None
      | Some (Fields spec) \<Rightarrow> (case map_of spec ''inputs'' of Some (Fields inputs) \<Rightarrow> Some inputs | _ \<Rightarrow> Some [])
      | Some _ \<Rightarrow> Some [])"
| "workflow_dispatch _ = None"

record dispatchable =
  da_file :: string
  da_takes_tag :: bool

definition tag_input :: string where "tag_input = ''tag''"

fun dispatchable_loop ::
  "(string \<Rightarrow> (string \<times> yaml) list option) \<Rightarrow> (string \<times> string) list \<Rightarrow> ('e tree_error, dispatchable list) result" where
  "dispatchable_loop unmarshal [] = Inr []"
| "dispatchable_loop unmarshal ((path, text) # fs) =
     (case unmarshal text of
        None \<Rightarrow> Inl (NotDecoded path)
      | Some doc \<Rightarrow> rbind (dispatchable_loop unmarshal fs) (\<lambda>ws.
          Inr (case workflow_dispatch (map_of doc ''on'') of
             None \<Rightarrow> ws
           | Some inputs \<Rightarrow> \<lparr>da_file = workflow_base path, da_takes_tag = (map_of inputs tag_input \<noteq> None)\<rparr> # ws)))"

definition dispatchable_workflows ::
  "(string \<Rightarrow> (string \<times> yaml) list option) \<Rightarrow> ('e, (string \<times> string) list) result \<Rightarrow> ('e tree_error, dispatchable list) result" where
  "dispatchable_workflows unmarshal files =
     (case files of Inl e \<Rightarrow> Inl (TreeUnread e)
      | Inr fs \<Rightarrow> rbind (dispatchable_loop unmarshal fs) (\<lambda>ws. Inr (sort_by (\<lambda>a b. da_file a < da_file b) ws)))"

section \<open>The preflight\<close>

record ('s, 'e) actions_host =
  ah_now :: "'s \<Rightarrow> int"
  ah_sleep :: "int \<Rightarrow> 's \<Rightarrow> 's"
  ah_enabled :: "('s, 'e, bool) act"
  ah_state :: "string \<Rightarrow> ('s, 'e, string option) act"
  ah_runs_at :: "string \<Rightarrow> string \<Rightarrow> ('s, 'e, workflow_run list) act"
  ah_published :: "string \<Rightarrow> ('s, 'e, int) act"
  ah_retention :: "('s, 'e, int) act"
  ah_author :: "string \<Rightarrow> ('s, 'e, string) act"

definition active_state :: string where "active_state = ''active''"

datatype 'e preflight_error =
    PreflightTree "'e tree_error"
  | NothingPublishes
  | ActionsUnknown 'e
  | ActionsDisabled "string list"
  | StateUnknown string 'e
  | NotActive string string

definition check_active :: "('s, 'e) actions_host \<Rightarrow> release_workflow \<Rightarrow> ('s, 'e preflight_error, unit) act" where
  "check_active H w =
     abind (awrap (StateUnknown (rw_path w)) (ah_state H (workflow_base (rw_path w)))) (\<lambda>known.
     case known of
       None \<Rightarrow> aret ()
     | Some st \<Rightarrow> aguard (st \<noteq> active_state) (NotActive (rw_path w) st) (aret ()))"

definition preflight ::
  "('s, 'e) actions_host \<Rightarrow> ('e tree_error, release_workflow list) result \<Rightarrow> bool \<Rightarrow> ('s, 'e preflight_error, unit) act" where
  "preflight H tree publishes =
     (case tree of
        Inl e \<Rightarrow> afail (PreflightTree e)
      | Inr all \<Rightarrow>
          let starting = filter starts all in
          aguard (publishes \<and> starting = []) NothingPublishes
         (if starting = [] then aret ()
          else
            abind (awrap ActionsUnknown (ah_enabled H)) (\<lambda>enabled.
            aguard (\<not> enabled) (ActionsDisabled (map rw_path starting))
              (aeach (check_active H) starting))))"

section \<open>The confirmation\<close>

definition confirm_discovery :: int where "confirm_discovery = seconds 300"
definition confirm_interval :: int where "confirm_interval = seconds 5"

definition for_tag :: "string \<Rightarrow> workflow_run \<Rightarrow> bool" where
  "for_tag tag r \<longleftrightarrow> wr_branch r = tag \<and> (wr_event r = ''release'' \<or> wr_event r = dispatch_event)"

definition runs_for_tag :: "('s, 'e) actions_host \<Rightarrow> string \<Rightarrow> string \<Rightarrow> string \<Rightarrow> ('s, 'e, nat) act" where
  "runs_for_tag H file tag sha = abind (ah_runs_at H file sha) (\<lambda>runs. aret (length (filter (for_tag tag) runs)))"

text \<open>One round of questions: the workflows still missing, and the ones whose query answered.\<close>

fun ask_round ::
  "('s, 'e) actions_host \<Rightarrow> string \<Rightarrow> string \<Rightarrow> release_workflow list \<Rightarrow> string list \<Rightarrow> 's \<Rightarrow> (release_workflow list \<times> string list) \<times> 's" where
  "ask_round H tag sha [] answered s = (([], answered), s)"
| "ask_round H tag sha (w # ws) answered s =
     (case runs_for_tag H (workflow_base (rw_path w)) tag sha s of
        (Inl e, t) \<Rightarrow> (case ask_round H tag sha ws answered t of ((still, answered), u) \<Rightarrow> ((w # still, answered), u))
      | (Inr n, t) \<Rightarrow> (case ask_round H tag sha ws (rw_path w # answered) t of
          ((still, answered), u) \<Rightarrow> ((if n = 0 then w # still else still, answered), u)))"

text \<open>The rounds go on until none is missing or the time is up; None is fuel that ran out.\<close>

fun ask_rounds ::
  "('s, 'e) actions_host \<Rightarrow> string \<Rightarrow> string \<Rightarrow> int \<Rightarrow> int \<Rightarrow> nat \<Rightarrow> release_workflow list \<Rightarrow> string list \<Rightarrow> 's \<Rightarrow>
   ((release_workflow list \<times> string list) \<times> 's) option" where
  "ask_rounds H tag sha deadline interval 0 missing answered s = None"
| "ask_rounds H tag sha deadline interval (Suc fuel) missing answered s =
     (case ask_round H tag sha missing answered s of
        ((still, answered), t) \<Rightarrow>
          if still = [] \<or> deadline \<le> ah_now H t then Some ((still, answered), t)
          else ask_rounds H tag sha deadline interval fuel still answered (ah_sleep H interval t))"

definition rounds_fuel :: "int \<Rightarrow> int \<Rightarrow> nat" where
  "rounds_fuel discovery interval = nat (discovery div interval) + 3"

datatype 'e diagnosis =
    AuthorUnread 'e
  | BotAuthor string
  | EnabledUnread 'e
  | Disabled
  | WorkflowUnread string 'e
  | WorkflowUnknown string
  | WorkflowNotActive string string

definition diagnose_workflow :: "('s, 'e) actions_host \<Rightarrow> release_workflow \<Rightarrow> ('s, unit, 'e diagnosis list) act" where
  "diagnose_workflow H w =
     acatch (ah_state H (workflow_base (rw_path w)))
       (\<lambda>e. aret [WorkflowUnread (rw_path w) e])
       (\<lambda>known. case known of
          None \<Rightarrow> aret [WorkflowUnknown (rw_path w)]
        | Some st \<Rightarrow> aret (if st \<noteq> active_state then [WorkflowNotActive (rw_path w) st] else []))"

definition diagnose :: "('s, 'e) actions_host \<Rightarrow> string \<Rightarrow> release_workflow list \<Rightarrow> ('s, unit, 'e diagnosis list) act" where
  "diagnose H tag missing =
     abind (acatch (ah_author H tag) (\<lambda>e. aret [AuthorUnread e])
       (\<lambda>author. aret (if has_suffix author ''[bot]'' then [BotAuthor author] else []))) (\<lambda>ds.
     abind (acatch (ah_enabled H) (\<lambda>e. aret [EnabledUnread e]) (\<lambda>on. aret (if \<not> on then [Disabled] else []))) (\<lambda>es.
     afold (\<lambda>found w. abind (diagnose_workflow H w) (\<lambda>f. aret (found @ f))) (ds @ es) missing))"

datatype 'e confirm_error =
    ConfirmTree "'e tree_error"
  | NeverAnswered "string list"
  | RetentionUnknown "string list" 'e
  | NotStartedFor "string list" "string list" "'e diagnosis list"
  | OutOfFuel

definition day :: int where "day = seconds 86400"

definition retention_days :: "('s, 'e) actions_host \<Rightarrow> string \<Rightarrow> ('s, 'e, int \<times> int) act" where
  "retention_days H tag =
     abind (ah_published H tag) (\<lambda>published.
     (\<lambda>s. (if day \<le> ah_now H s - published then abind (ah_retention H) (\<lambda>days. aret (published, days))
           else aret (published, 0)) s))"

definition judge_missing ::
  "('s, 'e) actions_host \<Rightarrow> string \<Rightarrow> release_workflow list \<Rightarrow> string list \<Rightarrow> ('s, 'e confirm_error, unit) act" where
  "judge_missing H tag missing answered =
     (let absent = filter (\<lambda>w. rw_path w \<in> set answered) missing;
          unconfirmed = filter (\<lambda>w. rw_path w \<notin> set answered) missing in
      if absent = [] then afail (NeverAnswered (map rw_path unconfirmed))
      else
        abind (awrap (RetentionUnknown (map rw_path absent)) (retention_days H tag)) (\<lambda>(published, days).
        (\<lambda>s. (if 0 < days \<and> days * day < ah_now H s - published then aret ()
              else acatch (diagnose H tag absent) (\<lambda>_. afail (NotStartedFor (map rw_path absent) (map rw_path unconfirmed) []))
                (\<lambda>found. afail (NotStartedFor (map rw_path absent) (map rw_path unconfirmed) found))) s)))"

definition confirm_runs_started ::
  "('s, 'e) actions_host \<Rightarrow> ('e tree_error, release_workflow list) result \<Rightarrow> string \<Rightarrow> string \<Rightarrow> int \<Rightarrow> int \<Rightarrow>
   ('s, 'e confirm_error, unit) act" where
  "confirm_runs_started H tree tag sha discovery interval s =
     (case tree of
        Inl e \<Rightarrow> (Inl (ConfirmTree e), s)
      | Inr all \<Rightarrow>
          let expected = filter starts all in
          if expected = [] then (Inr (), s)
          else
            (case ask_rounds H tag sha (ah_now H s + discovery) interval (rounds_fuel discovery interval) expected [] s of
               None \<Rightarrow> (Inl OutOfFuel, s)
             | Some ((missing, answered), t) \<Rightarrow>
                 if missing = [] then (Inr (), t) else judge_missing H tag missing answered t))"

section \<open>What the confirmation shows\<close>

text \<open>A run of a workflow for the tag was listed at some time.\<close>

definition seen_for_tag :: "('s, 'e) actions_host \<Rightarrow> string \<Rightarrow> string \<Rightarrow> release_workflow \<Rightarrow> bool" where
  "seen_for_tag H tag sha w \<longleftrightarrow>
     (\<exists>s runs t. ah_runs_at H (workflow_base (rw_path w)) sha s = (Inr runs, t) \<and> (\<exists>r \<in> set runs. for_tag tag r))"

lemma runs_for_tag_seen:
  "runs_for_tag H (workflow_base (rw_path w)) tag sha s = (Inr n, t) \<Longrightarrow> 0 < n \<Longrightarrow> seen_for_tag H tag sha w"
  unfolding seen_for_tag_def by (auto simp: runs_for_tag_def act_Inr filter_empty_conv) blast

lemma ask_round_still:
  "ask_round H tag sha ws answered s = ((still, answered'), t) \<Longrightarrow> w \<in> set ws \<Longrightarrow> w \<notin> set still \<Longrightarrow> seen_for_tag H tag sha w"
proof (induction ws arbitrary: answered s still answered' t)
  case (Cons v ws)
  obtain r u where r: "runs_for_tag H (workflow_base (rw_path v)) tag sha s = (r, u)" by fastforce
  obtain still' a' t' where round: "ask_round H tag sha ws (case r of Inl _ \<Rightarrow> answered | Inr _ \<Rightarrow> rw_path v # answered) u = ((still', a'), t')"
    by (metis surj_pair)
  have "still = still' \<and> (\<exists>n. r = Inr n \<and> 0 < n) \<or> still = v # still'"
    using Cons.prems(1) r round by (cases r) (auto split: if_splits)
  with Cons.prems(2,3) Cons.IH [OF round] r show ?case by (auto dest: runs_for_tag_seen)
qed simp

lemma ask_rounds_still:
  "ask_rounds H tag sha deadline interval n ws answered s = Some ((still, answered'), t) \<Longrightarrow> w \<in> set ws \<Longrightarrow> w \<notin> set still \<Longrightarrow>
   seen_for_tag H tag sha w"
proof (induction n arbitrary: ws answered s)
  case (Suc n)
  obtain ws1 a1 u where r: "ask_round H tag sha ws answered s = ((ws1, a1), u)" by (metis surj_pair)
  show ?case
  proof (cases "w \<in> set ws1")
    case True
    with Suc r show ?thesis by (auto split: if_splits)
  next
    case False
    with ask_round_still [OF r Suc.prems(2)] show ?thesis by blast
  qed
qed simp

definition actions_clock_runs :: "('s, 'e) actions_host \<Rightarrow> bool" where
  "actions_clock_runs H \<longleftrightarrow> (\<forall>d s. ah_now H s + d \<le> ah_now H (ah_sleep H d s)) \<and>
     (\<forall>f c s. ah_now H s \<le> ah_now H (snd (ah_runs_at H f c s)))"

lemma ask_round_clock:
  assumes "actions_clock_runs H"
  shows "ask_round H tag sha ws answered s = (r, t) \<Longrightarrow> ah_now H s \<le> ah_now H t"
proof (induction ws arbitrary: answered s r t)
  case (Cons v ws)
  obtain q u where q: "runs_for_tag H (workflow_base (rw_path v)) tag sha s = (q, u)" by fastforce
  have "u = snd (ah_runs_at H (workflow_base (rw_path v)) sha s)"
    using q by (auto simp: runs_for_tag_def abind_def split: prod.splits sum.splits)
  with assms have su: "ah_now H s \<le> ah_now H u" by (simp add: actions_clock_runs_def)
  obtain r' t' where round: "ask_round H tag sha ws (case q of Inl _ \<Rightarrow> answered | Inr _ \<Rightarrow> rw_path v # answered) u = (r', t')"
    by fastforce
  have "t = t'" using Cons.prems q round by (cases q) (auto split: prod.splits)
  with Cons.IH [OF round] su show ?case by simp
qed simp

lemma ask_rounds_end:
  assumes "actions_clock_runs H" "0 < interval"
  shows "deadline \<le> ah_now H s + interval * (int n - 1) \<Longrightarrow> 0 < n \<Longrightarrow>
    ask_rounds H tag sha deadline interval n ws answered s \<noteq> None"
proof (induction n arbitrary: ws answered s)
  case (Suc n)
  obtain still a t where r: "ask_round H tag sha ws answered s = ((still, a), t)" by (metis surj_pair)
  note t = ask_round_clock [OF assms(1) r]
  show ?case
  proof (cases "still = [] \<or> deadline \<le> ah_now H t")
    case False
    with t Suc.prems have n: "0 < n" by (cases n) auto
    from assms(1) have "ah_now H t + interval \<le> ah_now H (ah_sleep H interval t)" by (simp add: actions_clock_runs_def)
    with t Suc.prems(1) have "deadline \<le> ah_now H (ah_sleep H interval t) + interval * (int n - 1)" by (simp add: algebra_simps)
    from Suc.IH [OF this n] False r show ?thesis by simp
  qed (use r in auto)
qed simp

lemma rounds_fuel_enough: "0 < interval \<Longrightarrow> discovery \<le> interval * (int (rounds_fuel discovery interval) - 1)"
proof -
  assume i: "0 < interval"
  have "discovery \<le> interval * (discovery div interval + 1)"
  proof -
    have "interval * (discovery div interval) + discovery mod interval = discovery" by (rule mult_div_mod_eq)
    with pos_mod_bound [OF i, of discovery] show ?thesis unfolding distrib_left mult_1_right by linarith
  qed
  also have "\<dots> \<le> interval * (int (rounds_fuel discovery interval) - 1)"
    using i by (intro mult_left_mono) (simp_all add: rounds_fuel_def)
  finally show ?thesis .
qed

text \<open>The Release is older than the days GitHub keeps runs for.\<close>

definition past_retention :: "('s, 'e) actions_host \<Rightarrow> string \<Rightarrow> bool" where
  "past_retention H tag \<longleftrightarrow> (\<exists>s published t u days v w. ah_published H tag s = (Inr published, t) \<and>
     ah_retention H u = (Inr days, v) \<and> 0 < days \<and> days * day < ah_now H w - published)"

lemma past_retentionI:
  "ah_published H tag s = (Inr published, t) \<Longrightarrow> ah_retention H u = (Inr days, v) \<Longrightarrow> 0 < days \<Longrightarrow>
   days * day < ah_now H w - published \<Longrightarrow> past_retention H tag"
  unfolding past_retention_def by blast

lemma judge_missing_Inr: "judge_missing H tag missing answered s = (Inr (), t) \<Longrightarrow> past_retention H tag"
  by (auto simp: judge_missing_def Let_def act_Inr retention_days_def acatch_def intro: past_retentionI
      split: if_splits prod.splits sum.splits)


definition sample_actions :: "(int, string) actions_host" where
  "sample_actions = \<lparr>ah_now = (\<lambda>c. c), ah_sleep = (\<lambda>d c. c + d), ah_enabled = aret True, ah_state = (\<lambda>_. aret (Some active_state)),
     ah_runs_at = (\<lambda>_ _ c. (Inr (if c < seconds 12 then []
        else [\<lparr>wr_id = 1, wr_name = ''Publish'', wr_branch = ''v1.0.0'', wr_sha = ''c'', wr_event = ''release''\<rparr>]), c)),
     ah_published = (\<lambda>_. aret 0), ah_retention = aret 90, ah_author = (\<lambda>_. aret ''someone'')\<rparr>"


end
