(* ===== verification/Release_Start.thy ===== *)
theory Release_Start
  imports Release_Order
begin

text \<open>
  The start of a release (internal/release/run.go): what is validated and run before the first
  step, the state the release begins with, and the walk. The checks, the pipeline, the hooks and
  the changelog are operations; the dry run is left out.
\<close>

text \<open>What the validation of a release decides (internal/release/validate.go: Validated).\<close>

record validated =
  va_member :: string
  va_current :: version
  va_version :: version
  va_tag :: string
  va_branch :: string
  va_registry :: string
  va_bump :: string
  va_commit_message :: string
  va_description :: string
  va_context :: string
  va_include :: "string list"
  va_exclude :: "string list"
  va_completed :: bool

record ('e, 'w) start_ops =
  so_validate :: "('w, 'e, validated) act"
  so_changelog_checks :: "('w, 'e, unit) act"
  so_pipeline :: "('w, 'e, string option) act"
  so_preflight :: "('w, 'e, unit) act"
  so_hooks :: "('w, 'e, unit) act"
  so_section_clean :: "('w, 'e, unit) act"
  so_regenerate :: "('w, 'e, unit) act"

text \<open>The pipeline may commit in the checkout; the branch follows when the release commits.\<close>

definition pipeline_call :: "('w, 'e, string option) act \<Rightarrow> ('e, 'w, string option) release_act" where
  "pipeline_call m x =
     (let made = (\<lambda>r w. case r of Inr (Some c) \<Rightarrow> w\<lparr>w_checkout := c\<rparr> | _ \<Rightarrow> w)
      in case next_turn (x_world x) of
           (None, w) \<Rightarrow>
             (case m (w_rest w) of (r, rest) \<Rightarrow> (with_error OpStopped r, x\<lparr>x_world := made r (w\<lparr>w_rest := rest\<rparr>)\<rparr>))
         | (Some (e, landed), w) \<Rightarrow>
             (Inl (GitStopped e),
              x\<lparr>x_world := (if landed then (case m (w_rest w) of (r, rest) \<Rightarrow> made r (w\<lparr>w_rest := rest\<rparr>)) else w)\<rparr>))"

definition starting_state :: "string \<Rightarrow> validated \<Rightarrow> string \<Rightarrow> string option \<Rightarrow> in_progress" where
  "starting_state name v pin selfdoc =
     \<lparr>ip_releasable = name, ip_member = va_member v, ip_version = version_string (va_version v), ip_tag = va_tag v,
      ip_companion_tags = [], ip_branch = va_branch v, ip_registry = va_registry v, ip_bump = va_bump v,
      ip_commit_message = va_commit_message v, ip_description = va_description v, ip_context = va_context v,
      ip_include = va_include v, ip_exclude = va_exclude v, ip_pre_release_commit = pin, ip_pin_commit = pin,
      ip_release_commit = [], ip_created_commits = (case selfdoc of None \<Rightarrow> [] | Some c \<Rightarrow> [c]),
      ip_run_all_dispatch_for = [], ip_completed = [], ip_failed = [], ip_published_targets = [],
      ip_published_members = []\<rparr>"

definition release_anew :: "('e, 'w) release_context \<Rightarrow> ('e, 'w) start_ops \<Rightarrow> ('e, 'w, unit) release_act" where
  "release_anew X S =
     abind (op_call [] (so_validate S)) (\<lambda>v.
     abind (if va_completed v then clear_state else aret ()) (\<lambda>_.
     abind (git_call checkout_head) (\<lambda>pin.
     abind (op_call [] (so_changelog_checks S)) (\<lambda>_.
     abind (pipeline_call (so_pipeline S)) (\<lambda>selfdoc.
     abind (op_call [] (so_preflight S)) (\<lambda>_.
     abind (op_call [] (so_hooks S)) (\<lambda>_.
     abind (op_call [] (so_section_clean S)) (\<lambda>_.
     abind (op_call [] (so_regenerate S)) (\<lambda>_.
     abind (set_walk (begin_walk (starting_state (cx_name X) v pin selfdoc))) (\<lambda>_.
     abind save (\<lambda>_.
     run_walk (X\<lparr>cx_version := va_version v, cx_current := va_current v, cx_branch := va_branch v, cx_resuming := False\<rparr>))))))))))))"

end
