(* ===== verification/CI_Verdict.thy ===== *)
theory CI_Verdict
  imports CI_Watch
begin

text \<open>
  What a green verdict shows, how often a run is started again, that the discovery ends, and where the
  wait leaves its budget.
\<close>

section \<open>What the host tells of a run\<close>

text \<open>An operation on a host is a relation's when the host's own operations are.\<close>

definition host_acts :: "('s \<Rightarrow> 's \<Rightarrow> bool) \<Rightarrow> ('s, 'e) ci_host \<Rightarrow> bool" where
  "host_acts R W \<longleftrightarrow> reflp R \<and> transp R \<and> (\<forall>d s. R s (h_sleep W d s)) \<and> (\<forall>r t. acts R (h_watch W r t)) \<and>
     (\<forall>r. acts R (h_state W r)) \<and> (\<forall>q. acts R (h_runs W q)) \<and> (\<forall>r. acts R (h_jobs W r)) \<and> (\<forall>j. acts R (h_log W j))"

text \<open>
  A set of runs that passed, as it stands in each state: every operation of the host leaves a passed
  run passed, except that starting a run again takes that run out.
\<close>

definition stays :: "('s \<Rightarrow> int set) \<Rightarrow> int set \<Rightarrow> 's \<Rightarrow> 's \<Rightarrow> bool" where
  "stays passed A s t \<longleftrightarrow> A \<inter> passed s \<subseteq> passed t"

definition host_keeps :: "('s, 'e) ci_host \<Rightarrow> ('s \<Rightarrow> int set) \<Rightarrow> bool" where
  "host_keeps W passed \<longleftrightarrow> host_acts (stays passed UNIV) W \<and>
     (\<forall>r. acts (stays passed (- {r})) (h_rerun_failed W r)) \<and> (\<forall>r. acts (stays passed (- {r})) (h_rerun W r))"

definition host_tells :: "('s, 'e) ci_host \<Rightarrow> ('s \<Rightarrow> int set) \<Rightarrow> bool" where
  "host_tells W passed \<longleftrightarrow>
     (\<forall>r t s s'. h_watch W r t s = (Inr True, s') \<longrightarrow> r \<in> passed s') \<and>
     (\<forall>r s st s'. h_state W r s = (Inr st, s') \<longrightarrow> rs_status st = completed_status \<longrightarrow> rs_conclusion st = passing \<longrightarrow>
        r \<in> passed s')"

lemma stays_reflp: "reflp (stays passed A)" and stays_transp: "transp (stays passed A)"
  by (auto simp: stays_def reflp_def transp_def)

lemma acts_case_option: "acts R m \<Longrightarrow> (\<And>x. acts R (f x)) \<Longrightarrow> acts R (case y of None \<Rightarrow> m | Some x \<Rightarrow> f x)"
  by (cases y) simp_all

lemma acts_case_outcome:
  "acts R a \<Longrightarrow> acts R b \<Longrightarrow> acts R c \<Longrightarrow> acts R d \<Longrightarrow>
   acts R (case y of Passed \<Rightarrow> a | Failed \<Rightarrow> b | TimedOut \<Rightarrow> c | Unresolved \<Rightarrow> d)"
  by (cases y) simp_all

lemma acts_if: "acts R m \<Longrightarrow> acts R n \<Longrightarrow> acts R (if b then m else n)"
  by simp

lemma host_actsD:
  assumes "host_acts R W"
  shows "reflp R" "transp R" "acts R (pause W d)" "acts R (h_watch W r t)" "acts R (h_state W r)" "acts R (h_runs W q)"
    "acts R (h_jobs W r)" "acts R (h_log W j)" "acts R (clock W)"
  using assms by (auto simp: host_acts_def acts_def pause_def clock_def reflpD)

lemma host_acts_control:
  assumes "host_acts R W"
  shows "acts R m \<Longrightarrow> (\<And>x. acts R (f x)) \<Longrightarrow> acts R (abind m f)"
    and "acts R m' \<Longrightarrow> (\<And>e. acts R (g e)) \<Longrightarrow> (\<And>x. acts R (k x)) \<Longrightarrow> acts R (acatch m' g k)"
    and "acts R (aret x)" and "acts R (afail e)"
  using assms by (auto simp: host_acts_def intro: acts_abind acts_acatch acts_aret acts_afail)

lemma host_acts_fold:
  "host_acts R W \<Longrightarrow> (\<And>r x. acts R (f r x)) \<Longrightarrow> acts R (afold f r xs)"
  by (auto simp: host_acts_def intro: acts_afold)

lemma acts_run_state:
  assumes "host_acts R W"
  shows "acts R (run_state W r)"
proof -
  have "acts R (probe_state W r n)" for n
    by (induction n) (unfold probe_state.simps, (intro host_acts_control [OF assms] host_actsD [OF assms] acts_if | assumption)+)
  then show ?thesis by (simp add: run_state_def)
qed

lemma acts_to_conclusion:
  assumes "host_acts R W"
  shows "acts R (to_conclusion W r timeout)"
proof -
  have "acts R (conclude_loop W r deadline n)" for deadline n
    by (induction n) (unfold conclude_loop.simps, (intro host_acts_control [OF assms] host_actsD [OF assms] acts_if
        acts_case_option acts_run_state [OF assms] | assumption)+)
  then show ?thesis
    unfolding to_conclusion_def by (intro host_acts_control [OF assms] host_actsD [OF assms])
qed

lemma acts_failure_log:
  assumes "host_acts R W"
  shows "acts R (failure_log W r)" and "acts R (failure_class_of W r)"
  unfolding failure_log_def failure_class_of_def Let_def
  by (intro host_acts_control [OF assms] host_actsD [OF assms] acts_if host_acts_fold [OF assms])+

lemma acts_second_attempt:
  assumes "host_acts R W"
  shows "acts R (second_attempt W r)"
  unfolding second_attempt_def
  by (intro host_acts_control [OF assms] acts_case_outcome acts_to_conclusion [OF assms] acts_failure_log [OF assms])

lemma acts_watch_run:
  assumes "host_acts R W" "acts R (h_rerun_failed W (wr_id r))" "acts R (h_rerun W (wr_id r))"
  shows "acts R (watch_run W timeout r retried)"
  unfolding watch_run_def
  by (intro host_acts_control [OF assms(1)] acts_case_outcome acts_to_conclusion [OF assms(1)] acts_failure_log [OF assms(1)]
      acts_if acts_second_attempt [OF assms(1)] assms(2,3))

lemma host_acts_stays: "host_acts (stays passed UNIV) W \<Longrightarrow> host_acts (stays passed A) W"
proof -
  assume h: "host_acts (stays passed UNIV) W"
  have "stays passed A s t" if "stays passed UNIV s t" for s t using that by (auto simp: stays_def)
  with h stays_reflp [of passed A] stays_transp [of passed A] show ?thesis unfolding host_acts_def acts_def by blast
qed

lemma watch_run_stays:
  assumes "host_keeps W passed" "wr_id r \<notin> A"
  shows "acts (stays passed A) (watch_run W timeout r retried)"
proof (rule acts_watch_run)
  show "host_acts (stays passed A) W" using assms(1) by (simp add: host_keeps_def host_acts_stays)
  have "A \<subseteq> - {wr_id r}" using assms(2) by blast
  with assms(1) show "acts (stays passed A) (h_rerun_failed W (wr_id r))" "acts (stays passed A) (h_rerun W (wr_id r))"
    unfolding host_keeps_def acts_def stays_def by blast+
qed

lemma probe_state_Some: "probe_state W r n s = (Inr (Some st), t) \<Longrightarrow> \<exists>u. h_state W r u = (Inr st, t)"
  by (induction n arbitrary: s) (auto simp: acatch_def act_Inr split: prod.splits sum.splits if_splits)

lemma conclude_loop_passed:
  assumes "host_tells W passed"
  shows "conclude_loop W r deadline n s = (Inr Passed, t) \<Longrightarrow> r \<in> passed t"
proof (induction n arbitrary: s)
  case (Suc n)
  have watch: "r \<in> passed v" if "h_watch W r d u = (Inr True, v)" for d u v
    using assms that by (auto simp: host_tells_def)
  have told: "r \<in> passed v" if "run_state W r u = (Inr (Some st), v)" "rs_status st = completed_status" "rs_conclusion st = passing" for u v st
    using assms that probe_state_Some by (fastforce simp: host_tells_def run_state_def)
  from Suc.prems show ?case
    by (auto simp: act_Inr acatch_def clock_def split: if_splits option.splits prod.splits sum.splits
        intro: watch told Suc.IH)
qed simp

lemma to_conclusion_passed:
  "host_tells W passed \<Longrightarrow> to_conclusion W r timeout s = (Inr Passed, t) \<Longrightarrow> r \<in> passed t"
  by (auto simp: to_conclusion_def act_Inr clock_def dest: conclude_loop_passed simp del: conclude_loop.simps)

text \<open>A result of a run: it names the run, and a pass is one the host told.\<close>

definition result_for :: "('s \<Rightarrow> int set) \<Rightarrow> workflow_run \<Rightarrow> run_result \<Rightarrow> 's \<Rightarrow> bool" where
  "result_for passed r res t \<longleftrightarrow> rr_run res = wr_id r \<and> rr_name res = run_name r \<and> (rr_passed res \<longrightarrow> wr_id r \<in> passed t)"

lemma result_of_for: "(p \<Longrightarrow> wr_id r \<in> passed t) \<Longrightarrow> result_for passed r (result_of r p u) t"
  by (simp add: result_for_def result_of_def)

lemma second_attempt_result:
  assumes "host_tells W passed" "second_attempt W r s = (Inr res, t)"
  shows "result_for passed r res t"
proof -
  from assms(2) obtain out s1 where 1: "(to_conclusion W (wr_id r) retry_timeout :: ('a, 'c, outcome) act) s = (Inr out, s1)"
    unfolding second_attempt_def act_Inr by blast
  with assms(2) show ?thesis
    by (cases out) (auto simp: second_attempt_def abind_def acatch_def intro!: result_of_for
        dest: to_conclusion_passed [OF assms(1)] split: prod.splits sum.splits)
qed

lemma watch_run_result:
  assumes "host_tells W passed" "watch_run W timeout r retried s = (Inr (res, retried'), t)"
  shows "result_for passed r res t"
proof -
  from assms(2) obtain out s1 where 1: "(to_conclusion W (wr_id r) timeout :: ('a, 'c, outcome) act) s = (Inr out, s1)"
    unfolding watch_run_def act_Inr by blast
  show ?thesis
  proof (cases out)
    case Failed
    with 1 assms(2) show ?thesis
      by (auto simp: watch_run_def act_Inr abind_def acatch_def intro!: result_of_for
          dest: second_attempt_result [OF assms(1)] split: prod.splits sum.splits if_splits)
  qed (use 1 assms in \<open>auto simp: watch_run_def abind_def intro!: result_of_for dest: to_conclusion_passed\<close>)
qed

section \<open>A green candidate\<close>

text \<open>The results so far: one per run, each naming its run, with the passes the host told.\<close>

definition results_for :: "('s \<Rightarrow> int set) \<Rightarrow> workflow_run list \<Rightarrow> run_result list \<Rightarrow> 's \<Rightarrow> bool" where
  "results_for passed runs results t \<longleftrightarrow> list_all2 (\<lambda>r res. result_for passed r res t) runs results"

lemma results_for_ids: "results_for passed runs results t \<Longrightarrow> map rr_run results = map wr_id runs"
  unfolding results_for_def by (induction rule: list_all2_induct) (auto simp: result_for_def)

lemma results_for_stays:
  "results_for passed runs results s \<Longrightarrow> stays passed (wr_id ` set runs) s t \<Longrightarrow> results_for passed runs results t"
  unfolding results_for_def
  by (erule list.rel_mono_strong) (auto simp: result_for_def stays_def)

lemma watch_each_results:
  fixes budget :: "('s, 'd, int) act"
  assumes W: "host_keeps W passed" "host_tells W passed"
    and budget: "\<And>s r t. budget s = (r, t) \<Longrightarrow> t = s"
  shows "watch_each W budget runs (results, retried) s = (Inr (results', retried'), t) \<Longrightarrow>
    distinct (map wr_id (before @ runs)) \<Longrightarrow> results_for passed before results s \<Longrightarrow>
    results_for passed (before @ runs) results' t"
proof (induction runs arbitrary: before results retried s)
  case (Cons r runs)
  from Cons.prems(1) obtain left v res ret u where b: "budget s = (Inr left, v)"
    and w: "(watch_run W left r retried :: ('s, 'd, run_result \<times> string list) act) v = (Inr (res, ret), u)"
    and rest: "watch_each W budget runs (results @ [res], ret) u = (Inr (results', retried'), t)"
    by (auto simp: watch_each_def act_Inr)
  from budget [OF b] have v: "v = s" .
  have "wr_id r \<notin> wr_id ` set before" using Cons.prems(2) by auto
  from actsD [OF watch_run_stays [OF W(1) this] w] Cons.prems(3) v
  have "results_for passed before results u" by (blast intro: results_for_stays)
  moreover have "result_for passed r res u" by (rule watch_run_result [OF W(2) w])
  ultimately have "results_for passed (before @ [r]) (results @ [res]) u"
    by (simp add: results_for_def list_all2_appendI)
  from Cons.IH [OF rest _ this] Cons.prems(2) show ?case by simp
qed (simp add: watch_each_def)

lemma discover_listed:
  "discover W commit grace s = (Inr runs, t) \<Longrightarrow> runs \<noteq> [] \<Longrightarrow> \<exists>u. h_runs W (runs_of commit) u = (Inr runs, t)"
proof -
  have "discover_loop W commit deadline n s = Some (runs, t) \<Longrightarrow> runs \<noteq> [] \<Longrightarrow> \<exists>u. h_runs W (runs_of commit) u = (Inr runs, t)"
    for deadline n s
    by (induction n arbitrary: s) (auto split: prod.splits sum.splits list.splits if_splits)
  then show "discover W commit grace s = (Inr runs, t) \<Longrightarrow> runs \<noteq> [] \<Longrightarrow> ?thesis"
    by (auto simp: discover_def split: option.splits)
qed

lemma aggregate_green: "aggregate results = Green \<longleftrightarrow> list_all rr_passed results"
proof -
  have "aggregate_loop all results = Green \<longleftrightarrow> all \<and> list_all rr_passed results" for all
    by (induction results arbitrary: all) auto
  then show ?thesis by (simp add: aggregate_def)
qed

lemma remaining_state: "remaining W timeout start s = (r, t) \<Longrightarrow> t = s"
  by (auto simp: remaining_def clock_def abind_def)

lemma judge_green:
  assumes "judge_runs W i results s = (Inr (Green, results'), t)"
  shows "results' = results \<and> list_all rr_passed results \<and>
    verify_project_ci_ran (wi_compile i) (jobs_of_runs W (first_seen (map rr_run results))) (h_sleep W check_interval)
      check_attempts 0 (wi_filters i) s = (Inr (), t)"
  using assms by (auto simp: judge_runs_def act_Inr aggregate_green split: if_splits)

lemma watch_late_results:
  fixes s t :: 's and results' :: "run_result list" and W :: "('s, 'e) ci_host"
  assumes W: "host_keeps W passed" "host_tells W passed"
    and run: "(watch_late W timeout start late (results, retried) :: ('s, 'd, run_result list) act) s = (Inr results', t)" "list_all rr_passed results'"
    and "distinct (map wr_id (before @ late))" "results_for passed before results s"
  shows "results_for passed (before @ late) results' t"
proof (cases "late = []")
  case False
  from run False obtain left v where v: "(remaining W timeout start :: ('s, 'd, int) act) s = (Inr left, v)"
    by (auto simp: watch_late_def act_Inr)
  with remaining_state [OF v] have left: "(remaining W timeout start :: ('s, 'd, int) act) s = (Inr left, s)" by simp
  show ?thesis
  proof (cases "left < minimum_completion_wait")
    case True
    with run False left show ?thesis
      by (cases late) (auto simp: watch_late_def abind_def unresolved_all_def)
  next
    case False
    with run \<open>late \<noteq> []\<close> left obtain ret
      where "watch_each W (remaining W timeout start :: ('s, 'd, int) act) late (results, retried) s = (Inr (results', ret), t)"
      by (auto simp: watch_late_def abind_Inr [of "watch_each _ _ _ _"] abind_def [of "remaining _ _ _"])
    moreover have "v = u" if "(remaining W timeout start :: ('s, 'd, int) act) u = (q, v)" for q u v
      using that by (rule remaining_state)
    ultimately show ?thesis using watch_each_results [OF W _ _ assms(5,6)] by blast
  qed
qed (use assms in \<open>simp add: watch_late_def\<close>)

lemma acts_ask_checks:
  assumes R: "reflp R" "transp R" and fetch: "acts R fetch" and rest: "\<And>s. R s (rest s)"
  shows "acts R (ask_checks fetch rest x checks n)"
proof (induction n)
  case (Suc n)
  have "acts R (\<lambda>s. ask_checks fetch rest x checks n (rest s))"
    using Suc rest R(2) by (auto simp: acts_def dest: transpD)
  with fetch R show ?case
    by (auto intro!: acts_abind acts_awrap acts_aret simp del: act_simps split: if_splits)
qed (unfold ask_checks.simps, rule acts_afail [OF R(1)])

lemma acts_verify:
  assumes R: "reflp R" "transp R" and "acts R fetch" "\<And>s. R s (rest s)"
  shows "acts R (verify_project_ci_ran compile fetch rest attempts x filters)"
  unfolding verify_project_ci_ran_def Let_def
  by (intro acts_abind acts_aguard acts_aread acts_aret acts_if acts_ask_checks assms)

lemma acts_jobs_of_runs: "host_acts R W \<Longrightarrow> acts R (jobs_of_runs W ids)"
  unfolding jobs_of_runs_def by (intro host_acts_fold host_acts_control host_actsD)

lemma judge_stays:
  assumes "host_keeps W passed"
  shows "acts (stays passed A) (judge_runs W i results)"
proof -
  from assms have h: "host_acts (stays passed A) W" by (simp add: host_keeps_def host_acts_stays)
  then have "stays passed A s (h_sleep W d s)" for s d by (simp add: host_acts_def)
  with host_actsD(1,2) [OF h] acts_jobs_of_runs [OF h]
  have "acts (stays passed A) (verify_project_ci_ran (wi_compile i) (jobs_of_runs W ids) (h_sleep W check_interval)
    check_attempts 0 (wi_filters i))" for ids by (intro acts_verify)
  then show ?thesis
    unfolding judge_runs_def by (intro acts_if host_acts_control [OF h] acts_awrap)
qed

lemma wait_green:
  fixes s t :: 's and W :: "('s, 'e) ci_host"
  assumes "wait_for_ci_green W i s = (Inr (Green, results), t)"
  obtains start grace u1 u2 u3 u4 u5 runs again acc
  where "(discover W (wi_commit i) grace :: ('s, 'e wait_error, workflow_run list) act) u1 = (Inr runs, u2)" "runs \<noteq> []"
    "(watch_each W (remaining W (wi_timeout i) start) runs ([], []) :: ('s, 'e wait_error, _) act) u2 = (Inr acc, u3)"
    "h_runs W (runs_of (wi_commit i)) (h_sleep W late_run_pause u3) = (Inr again, u4)"
    "(watch_late W (wi_timeout i) start (late_runs runs again) acc :: ('s, 'e wait_error, _) act) u4 = (Inr results, u5)"
    "judge_runs W i results u5 = (Inr (Green, results), t)"
proof -
  from assms obtain e es where e: "wi_expected i = Inr (e # es)"
    by (auto simp: wait_for_ci_green_def split: sum.splits list.splits)
  let ?start = "h_now W s"
  from assms e obtain runs u2 left v where
    1: "(discover W (wi_commit i) (discovery_limit (wi_timeout i) (wi_grace i)) :: ('s, 'e wait_error, _) act) s = (Inr runs, u2)" "runs \<noteq> []"
    and 2: "(remaining W (wi_timeout i) ?start :: ('s, 'e wait_error, _) act) u2 = (Inr left, v)" 
    and 3: "(if left < minimum_completion_wait then aret (Timeout, unresolved_all runs)
          else
            abind (watch_each W (remaining W (wi_timeout i) ?start) runs ([], [])) (\<lambda>acc.
            abind (pause W late_run_pause) (\<lambda>_.
            abind (awrap ListingFailed (h_runs W (runs_of (wi_commit i)))) (\<lambda>again.
            abind (watch_late W (wi_timeout i) ?start (late_runs runs again) acc) (\<lambda>results.
            judge_runs W i results))))) v = (Inr (Green, results), t)"
    unfolding wait_for_ci_green_def e by (simp add: act_Inr clock_def) blast
  from 3 have "\<not> left < minimum_completion_wait" by (auto split: if_splits)
  with 3 obtain acc u3 again u4 results' u5 where
    4: "(watch_each W (remaining W (wi_timeout i) ?start) runs ([], []) :: ('s, 'e wait_error, _) act) v = (Inr acc, u3)"
    "h_runs W (runs_of (wi_commit i)) (h_sleep W late_run_pause u3) = (Inr again, u4)"
    "(watch_late W (wi_timeout i) ?start (late_runs runs again) acc :: ('s, 'e wait_error, _) act) u4 = (Inr results', u5)"
    and 5: "judge_runs W i results' u5 = (Inr (Green, results), t)"
    by (auto simp: act_Inr pause_def)
  from judge_green [OF 5] have "results' = results" by simp
  with that [OF 1 _ 4(2)] 4 5 remaining_state [OF 2] show ?thesis by simp
qed

text \<open>
  What a green verdict holds: every run of the candidate the last listing shows was told by GitHub to
  have passed and passes still, and for every project with CI of its own the wait-for-ci job of the
  publish workflow, asked about the jobs of those runs, answers that all succeeded.
\<close>

definition shown_green :: "('s, 'e) ci_host \<Rightarrow> ('s \<Rightarrow> int set) \<Rightarrow> 'e wait_inputs \<Rightarrow> run_result list \<Rightarrow> 's \<Rightarrow> bool" where
  "shown_green W passed i results t \<longleftrightarrow> results \<noteq> [] \<and> rr_run ` set results \<subseteq> passed t \<and>
    (\<exists>u again v. h_runs W (runs_of (wi_commit i)) u = (Inr again, v) \<and> wr_id ` set again \<subseteq> rr_run ` set results) \<and>
    (\<exists>rs. \<forall>f \<in> set (wi_filters i). cf_pattern f \<noteq> [] \<longrightarrow>
      (\<exists>p. wi_compile i (cf_pattern f) = Some p \<and> wait_job_answer p 0 rs = AllSucceeded))"

text \<open>GitHub's side: runs and jobs have ids of their own, and what it tells of a run stays so.\<close>

definition host_lawful :: "('s, 'e) ci_host \<Rightarrow> ('s \<Rightarrow> int set) \<Rightarrow> bool" where
  "host_lawful W passed \<longleftrightarrow> host_keeps W passed \<and> host_tells W passed \<and>
     (\<forall>q u rs v. h_runs W q u = (Inr rs, v) \<longrightarrow> distinct (map wr_id rs)) \<and>
     (\<forall>ids u rs v. distinct ids \<longrightarrow> jobs_of_runs W ids u = (Inr rs, v) \<longrightarrow> inj_on cr_id (set rs))"

lemma green_candidate:
  fixes s t :: 's and W :: "('s, 'e) ci_host"
  assumes run: "wait_for_ci_green W i s = (Inr (Green, results), t)"
    and lawful: "host_lawful W passed" and labels: "distinct (map cf_label (wi_filters i))"
  shows "shown_green W passed i results t"
proof -
  from lawful have W: "host_keeps W passed" "host_tells W passed"
    and listing: "\<And>q u rs v. h_runs W q u = (Inr rs, v) \<Longrightarrow> distinct (map wr_id rs)"
    and jobs: "\<And>ids u rs v. distinct ids \<Longrightarrow> jobs_of_runs W ids u = (Inr rs, v) \<Longrightarrow> inj_on cr_id (set rs)"
    unfolding host_lawful_def by blast+
  from wait_green [OF run] obtain start grace u1 u2 u3 u4 u5 runs again acc where
    d: "(discover W (wi_commit i) grace :: ('s, 'e wait_error, workflow_run list) act) u1 = (Inr runs, u2)" "runs \<noteq> []"
    and each: "(watch_each W (remaining W (wi_timeout i) start) runs ([], []) :: ('s, 'e wait_error, _) act) u2 = (Inr acc, u3)"
    and list: "h_runs W (runs_of (wi_commit i)) (h_sleep W late_run_pause u3) = (Inr again, u4)"
    and late: "(watch_late W (wi_timeout i) start (late_runs runs again) acc :: ('s, 'e wait_error, _) act) u4 = (Inr results, u5)"
    and judge: "judge_runs W i results u5 = (Inr (Green, results), t)" .
  note j = judge_green [OF judge]
  have runs: "distinct (map wr_id runs)" using discover_listed [OF d] listing by blast
  have all: "distinct (map wr_id (runs @ late_runs runs again))"
    using runs listing [OF list] by (auto simp: late_runs_def distinct_map_filter) (metis image_eqI)
  have each': "watch_each W (remaining W (wi_timeout i) start) runs ([], []) u2 = ((Inr (fst acc, snd acc), u3) :: ('e wait_error + _) \<times> _)"
    using each by simp
  have "results_for passed runs (fst acc) u3"
    using watch_each_results [where before = "[]", OF W remaining_state each'] runs by (simp add: results_for_def)
  moreover have "stays passed A u3 u4" for A
  proof -
    from W(1) have h: "host_acts (stays passed A) W" by (simp add: host_keeps_def host_acts_stays)
    then have "stays passed A u3 (h_sleep W late_run_pause u3)" by (simp add: host_acts_def)
    moreover have "stays passed A (h_sleep W late_run_pause u3) u4"
      using actsD [OF host_actsD(6) [OF h] list] .
    ultimately show ?thesis using stays_transp by (rule transpD [rotated])
  qed
  ultimately have "results_for passed runs (fst acc) u4" by (blast intro: results_for_stays)
  from watch_late_results [OF W _ _ all this, of "wi_timeout i" start "snd acc" results u5] late j
  have "results_for passed (runs @ late_runs runs again) results u5" by simp
  moreover have "stays passed A u5 t" for A by (rule actsD [OF judge_stays [OF W(1)] judge])
  ultimately have res: "results_for passed (runs @ late_runs runs again) results t" by (blast intro: results_for_stays)
  from res j have passes: "rr_run ` set results \<subseteq> passed t"
    by (fastforce simp: results_for_def result_for_def list_all2_conv_all_nth list_all_length in_set_conv_nth)
  have ids: "map rr_run results = map wr_id (runs @ late_runs runs again)"
    by (rule results_for_ids [OF res])
  then have "rr_run ` set results = wr_id ` set (runs @ late_runs runs again)" by (metis image_set)
  then have known: "wr_id ` set again \<subseteq> rr_run ` set results" by (auto simp: late_runs_def)
  have "results \<noteq> []" using ids d(2) by auto
  have "distinct (first_seen ids)" for ids
  proof -
    have "distinct xs \<Longrightarrow> distinct (foldl (\<lambda>ids i. if i \<in> set ids then ids else ids @ [i]) xs ids)" for xs
      by (induction ids arbitrary: xs) auto
    then show ?thesis by (simp add: first_seen_def)
  qed
  then have "inj_on cr_id (set rs)" if "jobs_of_runs W (first_seen (map rr_run results)) u = (Inr rs, v)" for u rs v
    using jobs that by blast
  moreover from j have v: "verify_project_ci_ran (wi_compile i) (jobs_of_runs W (first_seen (map rr_run results)))
      (h_sleep W check_interval) check_attempts 0 (wi_filters i) u5 = (Inr (), t)" by simp
  ultimately have "\<exists>rs. \<forall>f \<in> set (wi_filters i). cf_pattern f \<noteq> [] \<longrightarrow>
      (\<exists>p. wi_compile i (cf_pattern f) = Some p \<and> wait_job_answer p 0 rs = AllSucceeded)"
    using verified_candidate_answers [OF v labels] by blast
  with \<open>results \<noteq> []\<close> show ?thesis unfolding shown_green_def using passes known list by blast
qed

lemma jobs_of_runs_from:
  assumes "jobs_of_runs W ids s = (Inr rs, t)" and "\<And>i s js t. h_jobs W i s = (Inr js, t) \<Longrightarrow> set (from_jobs js) \<subseteq> J"
  shows "set rs \<subseteq> J"
proof -
  define f where "f all i = abind (h_jobs W i) (\<lambda>jobs. aret (all @ from_jobs jobs))" for all i
  have "afold f all ids s = (Inr rs, t) \<Longrightarrow> set all \<subseteq> J \<Longrightarrow> set rs \<subseteq> J" for all s
  proof (induction ids arbitrary: all s)
    case (Cons i ids)
    from Cons.prems(1) obtain all' u where f: "f all i s = (Inr all', u)" and rest: "afold f all' ids u = (Inr rs, t)"
      by (auto simp: act_Inr)
    from f obtain js where "h_jobs W i s = (Inr js, u)" "all' = all @ from_jobs js" by (auto simp: f_def act_Inr)
    with assms(2) Cons.prems(2) have "set all' \<subseteq> J" by simp
    with Cons.IH [OF rest] show ?case .
  qed simp
  then show ?thesis using assms(1) by (simp add: jobs_of_runs_def f_def [abs_def])
qed

text \<open>A host whose one run passes, over any clock; the sample host's state is the clock.\<close>

definition sample_run :: workflow_run where
  "sample_run = \<lparr>wr_id = 7, wr_name = ''CI'', wr_branch = ''main'', wr_sha = ''c'', wr_event = ''push''\<rparr>"

definition sample_job :: ci_job where
  "sample_job = \<lparr>jb_id = 1, jb_name = ''app / test'', jb_status = completed_status, jb_conclusion = passing,
     jb_started = ''t'', jb_url = []\<rparr>"

definition one_run_host :: "('s \<Rightarrow> int) \<Rightarrow> (int \<Rightarrow> 's \<Rightarrow> 's) \<Rightarrow> ('s, string) ci_host" where
  "one_run_host now sleep = \<lparr>h_now = now, h_sleep = sleep, h_watch = (\<lambda>r _. aret (r = 7)),
     h_state = (\<lambda>r. aret \<lparr>rs_status = completed_status, rs_conclusion = (if r = 7 then passing else ''failure'')\<rparr>), h_runs = (\<lambda>_. aret [sample_run]),
     h_run = (\<lambda>_. aret sample_run), h_jobs = (\<lambda>r. aret (if r = 7 then [sample_job] else [])), h_log = (\<lambda>_. aret []),
     h_rerun_failed = (\<lambda>_. aret ()), h_rerun = (\<lambda>_. aret ()), h_dispatch = (\<lambda>_. aret ())\<rparr>"

definition sample_host :: "(int, string) ci_host" where
  "sample_host = one_run_host (\<lambda>c. c) (\<lambda>d c. c + d)"

definition sample_wait :: "string wait_inputs" where
  "sample_wait = \<lparr>wi_commit = ''c'', wi_expected = Inr [''ci.yml''], wi_timeout = seconds 600, wi_grace = discovery_grace,
     wi_filters = [\<lparr>cf_label = ''app'', cf_pattern = ''app / ''\<rparr>], wi_compile = (\<lambda>p. Some (\<lambda>n. has_prefix n p))\<rparr>"

lemma sample_green:
  "wait_for_ci_green sample_host sample_wait 0 =
     (Inr (Green, [\<lparr>rr_name = ''CI'', rr_run = 7, rr_passed = True, rr_unresolved = False\<rparr>]) :: string wait_error + _, seconds 5)"
  by code_simp

lemma one_run_lawful: "host_lawful (one_run_host now sleep) (\<lambda>_. {7})"
proof -
  have keeps: "host_keeps (one_run_host now sleep) (\<lambda>_. {7})"
    by (auto simp: host_keeps_def host_acts_def acts_def stays_def one_run_host_def reflp_def transp_def)
  have tells: "host_tells (one_run_host now sleep) (\<lambda>_. {7})"
    by (auto simp: host_tells_def one_run_host_def passing_def split: if_splits)
  have listing: "distinct (map wr_id rs)" if "h_runs (one_run_host now sleep) q u = (Inr rs, v)" for q u rs v
    using that by (auto simp: one_run_host_def)
  have "set rs \<subseteq> set (from_jobs [sample_job])" if "jobs_of_runs (one_run_host now sleep) ids u = (Inr rs, v)" for ids u rs v
    using that by (rule jobs_of_runs_from) (auto simp: one_run_host_def from_jobs_def split: if_splits)
  then have jobs: "inj_on cr_id (set rs)" if "jobs_of_runs (one_run_host now sleep) ids u = (Inr rs, v)" for ids u rs v
    using that inj_on_subset [of cr_id "set (from_jobs [sample_job])" "set rs"] by (simp add: from_jobs_def)
  show ?thesis unfolding host_lawful_def using keeps tells listing jobs by blast
qed

section \<open>How often a run is started again\<close>

text \<open>A count of the reruns: the host's other operations leave it.\<close>

lemma watch_run_retries:
  fixes W :: "('s, 'e) ci_host" and n :: "'s \<Rightarrow> nat"
  assumes W: "host_acts (\<lambda>s t. n t = n s) W"
    and rerun: "acts (\<lambda>s t. n t \<le> Suc (n s)) (h_rerun_failed W (wr_id r))" "acts (\<lambda>s t. n t \<le> Suc (n s)) (h_rerun W (wr_id r))"
    and run: "(watch_run W timeout r retried :: ('s, 'd, _) act) s = (Inr (res, retried'), t)"
  shows "(retried' = retried \<and> n t = n s) \<or> (retried' = run_name r # retried \<and> run_name r \<notin> set retried \<and> n t \<le> Suc (n s))"
proof -
  from run obtain out s1 where 1: "(to_conclusion W (wr_id r) timeout :: ('s, 'd, outcome) act) s = (Inr out, s1)"
    unfolding watch_run_def act_Inr by blast
  have n1: "n s1 = n s" using actsD [OF acts_to_conclusion [OF W] 1] .
  show ?thesis
  proof (cases "out = Failed")
    case True
    with 1 run obtain cls s2 where 2: "(failure_class_of W (wr_id r) :: ('s, 'd, failure_class) act) s1 = (Inr cls, s2)"
      by (auto simp: watch_run_def abind_Inr)
    have n2: "n s2 = n s" using actsD [OF acts_failure_log(2) [OF W] 2] n1 by simp
    show ?thesis
    proof (cases "cls = Deterministic \<or> run_name r \<in> set retried")
      case True
      with 1 2 \<open>out = Failed\<close> run n2 show ?thesis by (auto simp: watch_run_def abind_def)
    next
      case False
      let ?m = "if cls = Infrastructure then h_rerun_failed W (wr_id r) else h_rerun W (wr_id r)"
      obtain q s3 where 3: "?m s2 = (q, s3)" by fastforce
      have "acts (\<lambda>s t. n t \<le> Suc (n s)) ?m" using rerun by simp
      from actsD [OF this 3] n2 have n3: "n s3 \<le> Suc (n s)" by simp
      show ?thesis
      proof (cases q)
        case (Inl e)
        with 1 2 3 False \<open>out = Failed\<close> run n3 show ?thesis by (auto simp: watch_run_def abind_def acatch_def)
      next
        case (Inr u)
        with 1 2 3 False \<open>out = Failed\<close> run have
          4: "(second_attempt W r :: ('s, 'd, run_result) act) s3 = (Inr res, t)" and "retried' = run_name r # retried"
          by (auto simp: watch_run_def abind_def acatch_def split: prod.splits sum.splits)
        with actsD [OF acts_second_attempt [OF W] 4] n3 False show ?thesis by simp
      qed
    qed
  next
    case False
    with 1 run n1 show ?thesis by (cases out) (auto simp: watch_run_def abind_def)
  qed
qed

lemma watch_each_retries:
  fixes W :: "('s, 'e) ci_host" and n :: "'s \<Rightarrow> nat" and budget :: "('s, 'd, int) act"
  assumes W: "host_acts (\<lambda>s t. n t = n s) W"
    and rerun: "\<And>r. acts (\<lambda>s t. n t \<le> Suc (n s)) (h_rerun_failed W r)" "\<And>r. acts (\<lambda>s t. n t \<le> Suc (n s)) (h_rerun W r)"
    and budget: "\<And>s r t. budget s = (r, t) \<Longrightarrow> t = s"
  shows "watch_each W budget runs (results, retried) s = (Inr (results', retried'), t) \<Longrightarrow> distinct retried \<Longrightarrow>
    distinct retried' \<and> set retried' \<subseteq> set retried \<union> run_name ` set runs \<and> n t + length retried \<le> n s + length retried'"
proof (induction runs arbitrary: results retried s)
  case (Cons r runs)
  from Cons.prems(1) obtain left v res ret u where b: "budget s = (Inr left, v)"
    and w: "(watch_run W left r retried :: ('s, 'd, run_result \<times> string list) act) v = (Inr (res, ret), u)"
    and rest: "watch_each W budget runs (results @ [res], ret) u = (Inr (results', retried'), t)"
    by (auto simp: watch_each_def act_Inr)
  from budget [OF b] have v: "v = s" .
  from watch_run_retries [OF W rerun w] Cons.prems(2) v
  have ret: "distinct ret \<and> set ret \<subseteq> insert (run_name r) (set retried) \<and> n u + length retried \<le> n s + length ret" by auto
  with Cons.IH [OF rest] show ?case by auto
qed (simp add: watch_each_def)


text \<open>A host whose run fails at first and passes when it is run again, after the time it is given to.\<close>

definition flaky_host :: "(int \<times> nat, string) ci_host" where
  "flaky_host = \<lparr>h_now = fst, h_sleep = (\<lambda>d (c, k). (c + d, k)),
     h_watch = (\<lambda>_ d (c, k). if k = 0 then (Inr False, (c + min (max 0 d) (seconds 10), 0)) else (Inr True, (c + min (max 0 d) (seconds 3000), k))),
     h_state = (\<lambda>_. aret \<lparr>rs_status = completed_status, rs_conclusion = ''failure''\<rparr>), h_runs = (\<lambda>_. aret [sample_run]),
     h_run = (\<lambda>_. aret sample_run), h_jobs = (\<lambda>_. aret []), h_log = (\<lambda>_. aret []),
     h_rerun_failed = (\<lambda>_ (c, k). (Inr (), (c, Suc k))), h_rerun = (\<lambda>_ (c, k). (Inr (), (c, Suc k))),
     h_dispatch = (\<lambda>_. aret ())\<rparr>"

lemma flaky_watch:
  "\<exists>results retried t. watch_each flaky_host (aret 5) [sample_run, sample_run] ([], []) (0, 0) = (Inr (results, retried) :: string + _, t)"
proof -
  have "isl (fst (watch_each flaky_host (aret 5) [sample_run, sample_run] ([], []) (0, 0)) :: string + _) = False" by code_simp
  then show ?thesis by (metis isl_def old.sum.exhaust surj_pair prod.collapse)
qed


section \<open>The discovery ends\<close>

text \<open>A clock that sleeping moves on and that a listing does not turn back.\<close>

definition clock_runs :: "('s, 'e) ci_host \<Rightarrow> bool" where
  "clock_runs W \<longleftrightarrow> (\<forall>d s. h_now W s + d \<le> h_now W (h_sleep W d s)) \<and>
     (\<forall>q s. h_now W s \<le> h_now W (snd (h_runs W q s)))"

lemma discover_loop_ends:
  assumes "clock_runs W"
  shows "deadline \<le> h_now W s + discovery_interval * (int n - 1) \<Longrightarrow> 0 < n \<Longrightarrow>
    \<exists>runs t. discover_loop W commit deadline n s = Some (runs, t) \<and> (runs = [] \<longrightarrow> deadline \<le> h_now W t)"
proof (induction n arbitrary: s)
  case (Suc n)
  obtain r t where r: "h_runs W (runs_of commit) s = (r, t)" by fastforce
  with assms have t: "h_now W s \<le> h_now W t" by (auto simp: clock_runs_def dest: spec [of _ "runs_of commit"]) (metis snd_conv)
  have i: "discovery_interval > 0" by (simp add: discovery_interval_def seconds_def)
  show ?case
  proof (cases "(\<exists>x xs. r = Inr (x # xs)) \<or> deadline \<le> h_now W t")
    case True
    with r show ?thesis by (cases r) (auto split: list.splits)
  next
    case False
    with t Suc.prems have n: "0 < n" by (cases n) auto
    let ?u = "h_sleep W discovery_interval t"
    from assms have "h_now W t + discovery_interval \<le> h_now W ?u" by (simp add: clock_runs_def)
    with t Suc.prems(1) have "deadline \<le> h_now W ?u + discovery_interval * (int n - 1)" by (simp add: algebra_simps)
    from Suc.IH [OF this n] False r show ?thesis by (cases r) (auto split: list.splits)
  qed
qed simp

text \<open>
  The discovery of a candidate's runs ends: the polls its fuel allows are enough whatever the grace
  and the host, and it gives up only once the grace has passed.
\<close>

theorem discovery_ends:
  assumes "clock_runs W"
  shows "\<exists>runs t. discover_loop W commit (h_now W s + grace) (discover_fuel grace) s = Some (runs, t) \<and>
    (runs = [] \<longrightarrow> h_now W s + grace \<le> h_now W t)"
proof (rule discover_loop_ends [OF assms])
  let ?i = discovery_interval
  have i: "0 < ?i" by (simp add: discovery_interval_def seconds_def)
  have "grace \<le> ?i * (grace div ?i + 1)"
  proof -
    have "?i * (grace div ?i) + grace mod ?i = grace" by (rule mult_div_mod_eq)
    with pos_mod_bound [OF i, of grace] show ?thesis unfolding distrib_left mult_1_right by linarith
  qed
  also have "\<dots> \<le> ?i * (int (discover_fuel grace) - 1)"
    using i by (intro mult_left_mono) (simp_all add: discover_fuel_def)
  finally show "h_now W s + grace \<le> h_now W s + ?i * (int (discover_fuel grace) - 1)" by simp
qed (simp add: discover_fuel_def)

definition runless_host :: "(int, string) ci_host" where
  "runless_host = sample_host\<lparr>h_runs := (\<lambda>_. aret [])\<rparr>"

theorem discovery_ends_witness:
  "\<exists>t. discover_loop runless_host ''c'' (h_now runless_host 0 + seconds 12) (discover_fuel (seconds 12)) 0 = Some ([], t) \<and>
    h_now runless_host 0 + seconds 12 \<le> h_now runless_host t"
proof -
  have "map_option fst (discover_loop runless_host ''c'' (h_now runless_host 0 + seconds 12) (discover_fuel (seconds 12)) 0) = Some []"
    by code_simp
  moreover obtain runs t where
    "discover_loop runless_host ''c'' (h_now runless_host 0 + seconds 12) (discover_fuel (seconds 12)) 0 = Some (runs, t)"
    "runs = [] \<longrightarrow> h_now runless_host 0 + seconds 12 \<le> h_now runless_host t"
    using discovery_ends [of runless_host "''c''" 0 "seconds 12"]
    by (auto simp: clock_runs_def runless_host_def sample_host_def one_run_host_def)
  ultimately show ?thesis by auto
qed
section \<open>Where the code leaves its promises\<close>

text \<open>
  C29. The wait for CI can outlive its budget: a run that fails and is run again is watched for up to an
  hour of its own, so the wait can return long after the whole budget, with a green verdict, on a
  host whose every watch keeps to the time it is given.
\<close>

theorem retry_outlives_budget:
  "\<exists>(W :: (int \<times> nat, string) ci_host) i results s t. wait_for_ci_green W i s = (Inr (Green, results) :: string wait_error + _, t) \<and>
     (\<forall>r d u. h_now W (snd (h_watch W r d u)) \<le> h_now W u + max 0 d) \<and> (\<forall>d u. h_now W (h_sleep W d u) = h_now W u + d) \<and>
     wi_timeout i + seconds 2000 < h_now W t - h_now W s"
proof -
  let ?i = "sample_wait\<lparr>wi_timeout := seconds 600, wi_filters := []\<rparr>"
  have "wait_for_ci_green flaky_host ?i (0, 0) =
     (Inr (Green, [\<lparr>rr_name = ''CI'', rr_run = 7, rr_passed = True, rr_unresolved = False\<rparr>]) :: string wait_error + _, (seconds 3015, 1))"
    by code_simp
  moreover have "\<forall>r d u. h_now flaky_host (snd (h_watch flaky_host r d u)) \<le> h_now flaky_host u + max 0 d"
    by (auto simp: flaky_host_def)
  moreover have "\<forall>d u. h_now flaky_host (h_sleep flaky_host d u) = h_now flaky_host u + d" by (auto simp: flaky_host_def)
  moreover have "wi_timeout ?i + seconds 2000 < h_now flaky_host (seconds 3015, 1) - h_now flaky_host (0, 0)"
    by (simp add: flaky_host_def seconds_def)
  ultimately show ?thesis by blast
qed

definition cancelled_jobs :: "ci_job list" where
  "cancelled_jobs = map (\<lambda>n. sample_job\<lparr>jb_id := n, jb_conclusion := ''cancelled''\<rparr>) [1, 2, 3, 4, 5] @
     [sample_job\<lparr>jb_id := 6, jb_conclusion := ''failure''\<rparr>]"

definition silent_host :: "(int, string) ci_host" where
  "silent_host = sample_host\<lparr>h_jobs := (\<lambda>_. aret cancelled_jobs), h_log := (\<lambda>j. aret (if j = 6 then ''--- FAIL: T'' else []))\<rparr>"

text \<open>
  C30. The failure log of a run can be empty when a failing job printed its failure: five jobs that
  failed without a line, cancelled ones say, use up the logs that are read, and the run counts as
  an infrastructure failure and is started again, though its sixth job failed a test.
\<close>

theorem sixth_failure_unread:
  "\<exists>(W :: (int, string) ci_host) s jobs j log. h_jobs W 7 s = (Inr jobs, s) \<and> j \<in> set jobs \<and> failed_job j \<and>
     h_log W (jb_id j) s = (Inr log, s) \<and> classify_failure log = Deterministic \<and>
     failure_log W 7 s = (Inr [], s) \<and> failure_class_of W 7 s = (Inr Infrastructure :: unit + _, s)"
proof -
  let ?j = "sample_job\<lparr>jb_id := 6, jb_conclusion := ''failure''\<rparr>"
  have "h_jobs silent_host 7 0 = (Inr cancelled_jobs, 0)" by (simp add: silent_host_def)
  moreover have "?j \<in> set cancelled_jobs" by (simp add: cancelled_jobs_def)
  moreover have "failed_job ?j" by code_simp
  moreover have "h_log silent_host (jb_id ?j) 0 = (Inr ''--- FAIL: T'', 0)" by (simp add: silent_host_def)
  moreover have "classify_failure ''--- FAIL: T'' = Deterministic" by code_simp
  moreover have "failure_log silent_host 7 0 = (Inr [], 0)" by code_simp
  moreover have "failure_class_of silent_host 7 0 = (Inr Infrastructure :: unit + _, 0)" by code_simp
  ultimately show ?thesis by blast
qed

end
