(* ===== verification/CI_Gate.thy ===== *)
theory CI_Gate
  imports Release_Order CI_Verdict
begin

text \<open>
  The release walk with the CI wait in its ci-verified step (internal/release/execute.go, verifyCI,
  over internal/ci/watch.go): what a release has been shown of the commit it ships.
\<close>

section \<open>The verdict of the wait\<close>

definition is_no_run :: "'e wait_error \<Rightarrow> bool" where
  "is_no_run e = (case e of NoRun _ _ \<Rightarrow> True | _ \<Rightarrow> False)"

definition is_not_proven :: "'e wait_error \<Rightarrow> bool" where
  "is_not_proven e = (case e of NotProven d \<Rightarrow> is_not_run_error d | _ \<Rightarrow> False)"

fun verdict_of :: "verdict \<Rightarrow> ci_verdict" where
  "verdict_of Green = CiGreen"
| "verdict_of NotConfigured = CiNotConfigured"
| "verdict_of Timeout = CiTimedOut"
| "verdict_of Red = CiRed"

definition ci_judge :: "('h wait_error \<Rightarrow> 'e) \<Rightarrow> ('w, 'h) ci_host \<Rightarrow> 'h wait_inputs \<Rightarrow> ('w, 'e, ci_verdict) act" where
  "ci_judge wrap W i =
     acatch (wait_for_ci_green W i)
       (\<lambda>e. if is_not_proven e then aret CiNotRun else if is_no_run e then aret CiNoRun else afail (wrap e))
       (\<lambda>(v, _). aret (verdict_of v))"

lemma aggregate_configured: "aggregate results \<noteq> NotConfigured"
proof -
  have "aggregate_loop all results \<noteq> NotConfigured" for all by (induction results arbitrary: all) auto
  then show ?thesis by (simp add: aggregate_def)
qed

lemma judge_configured: "judge_runs W i results s \<noteq> (Inr (NotConfigured, results'), t)"
  using aggregate_configured by (auto simp: judge_runs_def act_Inr)

lemma not_configured: "wait_for_ci_green W i s = (Inr (NotConfigured, results), t) \<Longrightarrow> wi_expected i = Inr []"
  by (auto simp: wait_for_ci_green_def act_Inr judge_configured split: sum.splits list.splits if_splits)

lemma ci_judge_passes:
  assumes "ci_judge wrap W i s = (Inr v, t)" "ci_passes v"
  shows "wi_expected i = Inr [] \<or> (\<exists>results. wait_for_ci_green W i s = (Inr (Green, results), t))"
proof -
  from assms obtain w results where w: "wait_for_ci_green W i s = (Inr (w, results), t)" and v: "v = verdict_of w"
    by (auto simp: ci_judge_def acatch_def ci_passes_def split: prod.splits sum.splits if_splits)
  with assms(2) have "w = Green \<or> w = NotConfigured" by (cases w) (auto simp: ci_passes_def)
  moreover have "wi_expected i = Inr []" if "w = NotConfigured"
    using not_configured [of W i s results t] w that by simp
  ultimately show ?thesis using w by blast
qed

section \<open>The walk\<close>

text \<open>A commit CI passed: an answer of the context's CI operation for it.\<close>

definition ci_passed :: "('e, 'w) release_context \<Rightarrow> string \<Rightarrow> bool" where
  "ci_passed X c \<longleftrightarrow> (\<exists>s v t. op_ci (cx_prepare X) c s = (Inr v, t) \<and> ci_passes v)"

definition passed_only :: "('e, 'w) release_context \<Rightarrow> event \<Rightarrow> bool" where
  "passed_only X ev \<longleftrightarrow> (\<forall>c. ev = Verdict c True \<longrightarrow> ci_passed X c)"

lemma passed_only_simps [simp]:
  "passed_only X (PushedCandidate c)" "passed_only X (Dispatched c)" "passed_only X FinalizedChangelog"
  "passed_only X (ArchivedAt c)" "passed_only X (CreatedTag t c)" "passed_only X (PushedTip c)" "passed_only X (PushedTag t c)"
  "passed_only X MadeRelease" "passed_only X (PublishedPipeline k)" "passed_only X RanDeploy" "passed_only X RanHooks"
  by (simp_all add: passed_only_def)

lemma adds_bind_result:
  assumes m: "acts (adds C P) m" and f: "\<And>x s t. m s = (Inr x, t) \<Longrightarrow> acts (adds C P) (f x)"
  shows "acts (adds C P) (abind m f)"
  unfolding acts_def
proof
  fix s
  obtain r t where r: "m s = (r, t)" by fastforce
  from actsD [OF m r] have "adds C P s t" .
  moreover have "adds C P t (snd (f x t))" if "r = Inr x" for x
    using f [OF r [unfolded that]] by (simp add: acts_def)
  ultimately show "adds C P s (snd (abind m f s))"
    using r transpD [OF adds_transp] by (cases r) (auto simp: abind_def)
qed

lemma op_call_result: "op_call [] m x = (Inr v, y) \<Longrightarrow> \<exists>s t. m s = (Inr v, t)"
  by (auto simp: op_call_def with_error_def split: prod.splits option.splits sum.splits)

lemma verify_ci_logs: "acts (adds None (passed_only X)) (verify_ci X)"
proof -
  have tail: "acts (adds None (passed_only X)) (abind (op_call [] (op_ci (cx_prepare X) c)) (\<lambda>verdict.
       abind (log_event (Verdict c (ci_passes verdict))) (\<lambda>_.
       aguard (\<not> ci_passes verdict) (Refuse (CiRefused verdict))
      (abind (state_release_commit c) (\<lambda>_. complete step_ci_verified)))))" for c
  proof (rule adds_bind_result)
    show "acts (adds None (passed_only X)) (op_call [] (op_ci (cx_prepare X) c))" by (intro adds_intros still_intros)
    fix v s t assume "op_call [] (op_ci (cx_prepare X) c) s = (Inr v, t)"
    from op_call_result [OF this] have "passed_only X (Verdict c (ci_passes v))" by (auto simp: passed_only_def ci_passed_def)
    then show "acts (adds None (passed_only X)) (abind (log_event (Verdict c (ci_passes v))) (\<lambda>_.
       aguard (\<not> ci_passes v) (Refuse (CiRefused v))
      (abind (state_release_commit c) (\<lambda>_. complete step_ci_verified))))"
      unfolding state_release_commit_def by (intro adds_intros still_intros)
  qed
  show ?thesis
    unfolding verify_ci_def state_run_all_def by (intro tail adds_intros still_intros) simp_all
qed

lemma push_candidate_logs: "acts (adds None (passed_only X)) (push_candidate X)"
  unfolding push_candidate_def push_new_candidate_def adopt_batch_candidate_def by (intro adds_intros still_intros) simp_all

lemma finalize_changelog_logs: "acts (adds None (passed_only X)) (finalize_changelog X)"
  unfolding finalize_changelog_def by (intro adds_intros still_intros) simp_all

lemma archive_release_logs: "acts (adds None (passed_only X)) (archive_release X)"
  unfolding archive_release_def trees_of_def tree_of_def by (intro adds_intros still_intros) simp_all

lemma tag_release_logs: "acts (adds None (passed_only X)) (tag_release X)"
  unfolding tag_release_def tag_one_def by (intro adds_intros still_intros) simp_all

lemma push_release_logs: "acts (adds None (passed_only X)) (push_release X)"
  unfolding push_release_def push_tag_def by (intro adds_intros still_intros) simp_all

lemma github_release_logs: "acts (adds None (passed_only X)) (github_release X)"
  unfolding github_release_def create_release_def by (intro adds_intros still_intros) simp_all

lemma publish_pipelines_logs: "acts (adds None (passed_only X)) (publish_pipelines X)"
  unfolding publish_pipelines_def publish_member_def publish_pipeline_def by (intro adds_intros still_intros) simp_all

lemma deploy_logs: "acts (adds None (passed_only X)) (deploy X)"
  unfolding deploy_def by (intro adds_intros still_intros) simp_all

lemma post_release_hooks_logs: "acts (adds None (passed_only X)) (post_release_hooks X)"
  unfolding post_release_hooks_def by (intro adds_intros still_intros) simp_all

lemmas steps_log = push_candidate_logs finalize_changelog_logs archive_release_logs tag_release_logs push_release_logs github_release_logs publish_pipelines_logs deploy_logs post_release_hooks_logs

lemma guard_logs: "acts (adds None (passed_only X)) (stopping X step (guard_foreign X p))"
  by (rule adds_still) (simp add: stopping_def still_intros)

lemma to_verdict_logs: "acts (adds None (passed_only X)) (walk_to_verdict X)"
  unfolding walk_to_verdict_def by (intro adds_abind adds_stopping push_candidate_logs verify_ci_logs guard_logs)

lemma settle_logs: "acts (adds None (passed_only X)) (aeach (take_step X) (settle_steps X))"
  unfolding settle_steps_def aeach.simps by (intro adds_abind adds_take_step adds_still [OF still_aret]) (simp_all add: steps_log)

lemma from_verdict_logs: "acts (adds None (passed_only X)) (walk_from_verdict X)"
  unfolding walk_from_verdict_def by (intro adds_abind settle_logs post_release_hooks_logs adds_still [OF epilogue_still])

lemma bump_logs: "acts (adds None (passed_only X)) (stopping X step (bump_and_commit X))"
  by (rule adds_still) (simp add: stopping_def still_intros)

lemma walk_logs: "acts (adds None (passed_only X)) (run_walk X)"
  unfolding run_walk_def
  by (intro adds_abind adds_if guard_logs bump_logs to_verdict_logs from_verdict_logs adds_still [OF still_aret])

section \<open>What was shown of a commit that ships\<close>


definition gate_host :: "(string list, string) ci_host" where
  "gate_host = one_run_host (\<lambda>_. 0) (\<lambda>_ w. w)"

definition gated_context :: "(string, string list) release_context" where
  "gated_context = sample_context\<lparr>cx_prepare := sample_prepare\<lparr>op_ci := (\<lambda>c. ci_judge (\<lambda>_. ''red'') gate_host (sample_wait\<lparr>wi_commit := c\<rparr>))\<rparr>\<rparr>"

definition untagged_walk :: "(string, string list) execution" where
  "untagged_walk = (sample_walk [])\<lparr>x_state := sample_state\<lparr>ip_completed := [step_version_bumped, step_committed,
     step_changelog_finalized, step_release_archived, step_pushed, step_github_release, step_pipelines_published,
     step_deployed, step_hooks_run], ip_failed := [], ip_pin_commit := cid 0\<rparr>\<rparr>"


end
