(* ===== verification/Batch_Release.thy ===== *)
theory Batch_Release
  imports Release_Start CI_Gate
begin

text \<open>
  A batch release (internal/batchrelease/run.go, internal/release/batch.go): the plan frozen by its
  first run, the pass that commits every releasable's release, the one candidate and the one verdict,
  the pass that finishes each releasable on it, and the archive of the batch release file. Every
  releasable's release is the walk of Release_Walk over one checkout; the run state of the others
  stays in the files. The repository lock keeps other processes from the run state.
\<close>

datatype mismatch = NotInFile string | OtherBump string string string | NotInPlan string

datatype batch_refusal =
    PlanMismatch "mismatch list"
  | Sealed "string list"
  | StateGone string
  | VersionUnread string
  | NoCommitRecorded string
  | NoPushRecorded string
  | NothingReleased
  | StatesRemain "string list"
  | LeftoverPlan
  | NotReleasedYet "string list"
  | ArchiveTaken
  | BranchGone
  | PlanUnsound "state_problem list"

datatype 'e batch_error =
    BatchStopped "'e release_error"
  | BatchRefused batch_refusal
  | WouldBeRefused string "'e batch_error"
  | OriginUnread string string "'e batch_error"
  | Unpushed "'e batch_error"
  | FirstPassStopped string "string list" "'e batch_error"
  | SecondPassStopped string "string list" "string list" bool "'e batch_error"
  | ArchiveUncommitted "'e batch_error"
  | ArchiveUnpushed "'e batch_error"
  | BothErrors "'e batch_error" "'e batch_error"

record ('e, 'w) batch_context =
  bx_shared :: "('e, 'w) release_context"
  bx_member :: "string \<Rightarrow> ('e, 'w) release_context"
  bx_start :: "string \<Rightarrow> ('e, 'w) start_ops"
  bx_order :: "string list"
  bx_tables :: "(string \<times> string) list"
  bx_blob :: string
  bx_has_version :: "string \<Rightarrow> ('w, 'e, bool) act"
  bx_version :: "string \<Rightarrow> ('w, 'e, version) act"
  bx_selfdoc :: "('w, 'e, string list) act"
  bx_archive_taken :: "('w, 'e, bool) act"
  bx_write_archive :: "('w, 'e, unit) act"
  bx_remove_file :: "('w, 'e, unit) act"
  bx_archive_path :: string
  bx_file_path :: string

text \<open>
  The world is shared by every releasable's walk; a walk sees its own run state as the saved one.
\<close>

record ('e, 'w) batch_run =
  br_walk :: "('e, 'w) execution"
  br_files :: "string \<Rightarrow> in_progress option"
  br_plan :: "batch_plan option"

type_synonym ('e, 'w, 'a) batch_act = "(('e, 'w) batch_run, 'e batch_error, 'a) act"

definition walk_call :: "('e, 'w, 'a) release_act \<Rightarrow> ('e, 'w, 'a) batch_act" where
  "walk_call m b = (case m (br_walk b) of (r, x) \<Rightarrow> (with_error BatchStopped r, b\<lparr>br_walk := x\<rparr>))"

definition focus :: "string \<Rightarrow> ('e, 'w) batch_run \<Rightarrow> ('e, 'w) execution" where
  "focus n b = (br_walk b)\<lparr>x_world := (x_world (br_walk b))\<lparr>w_saved := br_files b n\<rparr>\<rparr>"

definition member_call :: "string \<Rightarrow> ('e, 'w, 'a) release_act \<Rightarrow> ('e, 'w, 'a) batch_act" where
  "member_call n m b =
     (case m (focus n b) of
        (r, x) \<Rightarrow> (with_error BatchStopped r, b\<lparr>br_walk := x, br_files := (br_files b)(n := w_saved (x_world x))\<rparr>))"

definition load_state :: "string \<Rightarrow> ('e, 'w, in_progress option) batch_act" where
  "load_state n = member_call n (git_call (git_read (\<lambda>w. Inr (w_saved w))))"

definition save_member :: "string \<Rightarrow> in_progress \<Rightarrow> ('e, 'w, unit) batch_act" where
  "save_member n st = member_call n (save_state st)"

definition load_plan :: "('e, 'w, batch_plan option) batch_act" where
  "load_plan b =
     (case next_turn (x_world (br_walk b)) of
        (t, w) \<Rightarrow> ((case t of None \<Rightarrow> Inr (br_plan b) | Some (e, _) \<Rightarrow> Inl (BatchStopped (GitStopped e))),
                   b\<lparr>br_walk := (br_walk b)\<lparr>x_world := w\<rparr>\<rparr>))"

definition write_plan :: "batch_plan option \<Rightarrow> ('e, 'w, unit) batch_act" where
  "write_plan p b =
     (case next_turn (x_world (br_walk b)) of
        (t, w) \<Rightarrow>
          (let b = b\<lparr>br_walk := (br_walk b)\<lparr>x_world := w\<rparr>\<rparr> in
           case t of
             None \<Rightarrow> (Inr (), b\<lparr>br_plan := p\<rparr>)
           | Some (e, landed) \<Rightarrow> (Inl (BatchStopped (GitStopped e)), if landed then b\<lparr>br_plan := p\<rparr> else b)))"

definition batch_refuse :: "batch_refusal \<Rightarrow> ('e, 'w, 'a) batch_act" where
  "batch_refuse e = afail (BatchRefused e)"

text \<open>SaveBatchPlan refuses a plan its reader would refuse.\<close>

definition plan_problems :: "batch_plan \<Rightarrow> state_problem list" where
  "plan_problems p =
     (if bp_items p = [] then [NoItem] else [])
     @ (if bp_batch_file p \<noteq> [] \<and> trim_space (bp_batch_file p) = [] then [EmptyBatchFile] else [])
     @ item_problems 0 [] (bp_items p)"

definition save_plan :: "batch_plan \<Rightarrow> ('e, 'w, unit) batch_act" where
  "save_plan p = aguard (plan_problems p \<noteq> []) (BatchRefused (PlanUnsound (plan_problems p))) (write_plan (Some p))"

section \<open>The plan\<close>

definition plan_mismatches :: "(string \<times> string) list \<Rightarrow> batch_plan \<Rightarrow> mismatch list" where
  "plan_mismatches tables p =
     concat (map (\<lambda>it. case map_of tables (pi_name it) of
         None \<Rightarrow> [NotInFile (pi_name it)]
       | Some bump \<Rightarrow> if bump \<noteq> pi_bump it then [OtherBump (pi_name it) (pi_bump it) bump] else []) (bp_items p))
     @ map NotInPlan (filter (\<lambda>n. n \<notin> pi_name ` set (bp_items p)) (map fst tables))"

definition item_released :: "('e, 'w) batch_context \<Rightarrow> plan_item \<Rightarrow> ('e, 'w, bool) batch_act" where
  "item_released B it =
     abind (walk_call (op_call [] (bx_has_version B (pi_name it)))) (\<lambda>has.
     if \<not> has then aret False
     else
       abind (walk_call (op_call [] (bx_version B (pi_name it)))) (\<lambda>current.
       if version_string current \<noteq> pi_target_version it then aret False
       else
         abind (walk_call (git_call (tag_commit (pi_tag it)))) (\<lambda>here.
         if here = None then aret False
         else
           acatch (walk_call (git_call (remote_tag_commit (pi_tag it))))
             (\<lambda>e. afail (OriginUnread (pi_tag it) (pi_name it) e))
             (\<lambda>there. aret (there \<noteq> None)))))"

definition add_name :: "string \<Rightarrow> string list \<Rightarrow> string list" where
  "add_name n ns = (if n \<in> set ns then ns else ns @ [n])"

definition released_items :: "('e, 'w) batch_context \<Rightarrow> plan_item list \<Rightarrow> ('e, 'w, string list) batch_act" where
  "released_items B =
     afold (\<lambda>out it. abind (item_released B it) (\<lambda>ok. aret (if ok then add_name (pi_name it) out else out))) []"

text \<open>The releasables an earlier run left in progress: the ones short of the verdict, and the ones past it.\<close>

fun sort_item :: "string list \<times> string list \<Rightarrow> plan_item \<Rightarrow> in_progress option \<Rightarrow> string list \<times> string list" where
  "sort_item (stranded, passed) it None = (stranded, passed)"
| "sort_item (stranded, passed) it (Some st) =
     (if step_completed st step_ci_verified then (stranded, passed @ [pi_name it])
      else (add_name (pi_name it) stranded, passed))"

definition in_progress_items :: "plan_item list \<Rightarrow> ('e, 'w, string list \<times> string list) batch_act" where
  "in_progress_items =
     afold (\<lambda>out it. abind (load_state (pi_name it)) (\<lambda>found. aret (sort_item out it found))) ([], [])"

definition stranded_items :: "plan_item list \<Rightarrow> ('e, 'w, string list) batch_act" where
  "stranded_items items =
     abind (in_progress_items items) (\<lambda>(stranded, passed).
     if passed \<noteq> [] then batch_refuse (Sealed passed) else aret stranded)"

definition planned_item :: "('e, 'w) batch_context \<Rightarrow> string \<Rightarrow> validated \<Rightarrow> plan_item" where
  "planned_item B n v =
     \<lparr>pi_name = n, pi_base_version = version_string (va_current v), pi_target_version = version_string (va_version v),
      pi_tag = va_tag v, pi_registry = va_registry v,
      pi_bump = (case map_of (bx_tables B) n of None \<Rightarrow> [] | Some bump \<Rightarrow> bump)\<rparr>"

text \<open>A plan exists from here on; one that was found is never made again.\<close>

definition validate_and_plan ::
  "('e, 'w) batch_context \<Rightarrow> batch_plan option \<Rightarrow> string list \<Rightarrow> string list \<Rightarrow> ('e, 'w, batch_plan) batch_act" where
  "validate_and_plan B plan released stranded =
     abind (afold (\<lambda>items n.
         if n \<in> set released \<or> n \<in> set stranded then aret items
         else acatch (walk_call (op_call [] (so_validate (bx_start B n))))
                (\<lambda>e. afail (WouldBeRefused n e))
                (\<lambda>v. aret (items @ [planned_item B n v]))) [] (bx_order B)) (\<lambda>items.
     case plan of
       Some p \<Rightarrow> aret p
     | None \<Rightarrow>
         let p = \<lparr>bp_batch_file = bx_blob B, bp_items = items\<rparr> in
         abind (save_plan p) (\<lambda>_. aret p))"

section \<open>The candidate of a batch\<close>

definition union_of :: "string list \<Rightarrow> string list \<Rightarrow> string list" where
  "union_of xs ys = fold add_name ys xs"

definition batch_states :: "string list \<Rightarrow> ('e, 'w, (string \<times> in_progress) list) batch_act" where
  "batch_states =
     afold (\<lambda>out n. abind (load_state n) (\<lambda>found.
        case found of None \<Rightarrow> batch_refuse (StateGone n) | Some st \<Rightarrow> aret (out @ [(n, st)]))) []"

definition trail_of :: "(string \<times> in_progress) list \<Rightarrow> string list" where
  "trail_of states = fold (\<lambda>(_, st) trail. union_of trail (ip_created_commits st)) states []"

definition batch_text :: "('e, 'w) batch_context \<Rightarrow> 'e batch_error \<Rightarrow> string" where
  "batch_text B e = (case e of BatchStopped e \<Rightarrow> cx_text (bx_shared B) e | _ \<Rightarrow> [])"

definition judge_member ::
  "('e, 'w) batch_context \<Rightarrow> string \<Rightarrow> string \<Rightarrow> bool \<Rightarrow> string \<times> in_progress \<Rightarrow> ('e, 'w, string \<times> in_progress) batch_act" where
  "judge_member B sha remote needs_push s =
     (case s of (n, st) \<Rightarrow>
        (case parse_version (ip_version st) of
           Inl _ \<Rightarrow> batch_refuse (VersionUnread n)
         | Inr _ \<Rightarrow>
             acatch (walk_call (judge_candidate_window (bx_member B n) sha remote needs_push
                       (step_completed st step_candidate_pushed) (ip_created_commits st)))
               (\<lambda>e. acatch (save_member n (fail_step step_candidate_pushed (batch_text B e) st))
                      (\<lambda>e'. afail (BothErrors e e')) (\<lambda>_. afail e))
               (\<lambda>window.
                  if window = WindowOwesDispatch then
                    (let st = st\<lparr>ip_run_all_dispatch_for := sha\<rparr> in
                     abind (save_member n st) (\<lambda>_. aret (n, st)))
                  else aret (n, st))))"

definition judge_members ::
  "('e, 'w) batch_context \<Rightarrow> string \<Rightarrow> string \<Rightarrow> bool \<Rightarrow> (string \<times> in_progress) list \<Rightarrow>
   ('e, 'w, (string \<times> in_progress) list) batch_act" where
  "judge_members B sha remote needs_push =
     afold (\<lambda>out s. abind (judge_member B sha remote needs_push s) (\<lambda>s. aret (out @ [s]))) []"

text \<open>What the state of a pending releasable records of the candidate.\<close>

definition candidate_recorded :: "string \<Rightarrow> string list \<Rightarrow> in_progress \<Rightarrow> in_progress" where
  "candidate_recorded sha trail st =
     complete_step step_candidate_pushed
       (st\<lparr>ip_run_all_dispatch_for := (if ip_run_all_dispatch_for st = sha then [] else ip_run_all_dispatch_for st),
          ip_release_commit := sha, ip_created_commits := union_of (ip_created_commits st) trail\<rparr>)"

definition record_candidate :: "string \<Rightarrow> string list \<Rightarrow> (string \<times> in_progress) list \<Rightarrow> ('e, 'w, unit) batch_act" where
  "record_candidate sha trail = aeach (\<lambda>(n, st). save_member n (candidate_recorded sha trail st))"

definition checkpoint_batch_push :: string where "checkpoint_batch_push = ''batch candidate push''"

definition publish_batch_candidate ::
  "('e, 'w) batch_context \<Rightarrow> string list \<Rightarrow> string \<Rightarrow> ('e, 'w, string) batch_act" where
  "publish_batch_candidate B pending pin =
     (let X = bx_shared B; G = cx_graph X in
      abind (walk_call (advance X)) (\<lambda>_.
      abind (batch_states pending) (\<lambda>states.
      let trail = trail_of states in
      abind (walk_call (foreign_commits G (branch_ref X) pin trail)) (\<lambda>foreign.
      aguard (foreign \<noteq> []) (BatchStopped (Refuse (ForeignCommits checkpoint_batch_push foreign)))
     (abind (walk_call (get_walk x_tip)) (\<lambda>sha.
      abind (walk_call (git_call (remote_ref (branch_ref X)))) (\<lambda>found.
      let remote = (case found of None \<Rightarrow> [] | Some c \<Rightarrow> c); needs_push = (remote \<noteq> sha) in
      abind (judge_members B sha remote needs_push states) (\<lambda>states.
      abind (if needs_push
             then acatch (walk_call (push_is_clean X sha remote)) (\<lambda>e. afail (Unpushed e)) (\<lambda>_.
                  acatch (walk_call (git_call (push_fast_forward G (branch_ref X) sha (cx_push_timeout X) [PushedCandidate sha])))
                    (\<lambda>e. afail (Unpushed e)) aret)
             else aret ()) (\<lambda>_.
      abind (if list_ex (\<lambda>(_, st). ip_run_all_dispatch_for st = sha) states
             then walk_call (op_call [Dispatched sha] (op_dispatch (cx_prepare X) sha))
             else aret ()) (\<lambda>_.
      abind (record_candidate sha trail states) (\<lambda>_.
      aret sha)))))))))))"

text \<open>Anything but a pass is recorded against the ci-verified step of every pending releasable.\<close>

definition fail_candidate ::
  "('e, 'w) batch_context \<Rightarrow> string list \<Rightarrow> 'e batch_error \<Rightarrow> ('e, 'w, 'a) batch_act" where
  "fail_candidate B pending e =
     acatch (abind (batch_states pending) (\<lambda>states.
             aeach (\<lambda>(n, st). save_member n (fail_step step_ci_verified (batch_text B e) st)) states))
       (\<lambda>e'. afail (BothErrors e e')) (\<lambda>_. afail e)"

definition gate_batch_candidate ::
  "('e, 'w) batch_context \<Rightarrow> string list \<Rightarrow> string \<Rightarrow> ('e, 'w, unit) batch_act" where
  "gate_batch_candidate B pending candidate =
     abind (aeach (\<lambda>n. walk_call (op_call [] (op_ci_filters (cx_prepare (bx_member B n))))) pending) (\<lambda>_.
     abind (walk_call (op_call [] (op_ci (cx_prepare (bx_shared B)) candidate))) (\<lambda>verdict.
     abind (walk_call (log_event (Verdict candidate (ci_passes verdict)))) (\<lambda>_.
     if ci_passes verdict then aret ()
     else fail_candidate B pending (BatchStopped (Refuse (CiRefused verdict))))))"

section \<open>The two passes\<close>

definition forget_advance :: "('e, 'w) execution \<Rightarrow> ('e, 'w) execution" where
  "forget_advance x = x\<lparr>x_last := None\<rparr>"

definition release_batch_member :: "('e, 'w) batch_context \<Rightarrow> string \<Rightarrow> ('e, 'w, unit) batch_act" where
  "release_batch_member B n =
     abind (walk_call (set_walk forget_advance)) (\<lambda>_.
     member_call n (release_anew ((bx_member B n)\<lparr>cx_defer := True, cx_verified := []\<rparr>) (bx_start B n)))"

definition complete_batch_member ::
  "('e, 'w) batch_context \<Rightarrow> string \<Rightarrow> string \<Rightarrow> string list \<Rightarrow> ('e, 'w, unit) batch_act" where
  "complete_batch_member B n verified own =
     abind (load_state n) (\<lambda>found.
     case found of
       None \<Rightarrow> batch_refuse (StateGone n)
     | Some st \<Rightarrow>
         aguard (\<not> step_completed st step_candidate_pushed \<or> ip_release_commit st \<noteq> verified) (BatchRefused (NoPushRecorded n))
        (abind (save_member n (st\<lparr>ip_created_commits := union_of (ip_created_commits st) own\<rparr>)) (\<lambda>_.
         abind (walk_call (set_walk forget_advance)) (\<lambda>_.
         member_call n (resume_in ((bx_member B n)\<lparr>cx_defer := False, cx_verified := verified\<rparr>))))))"

definition branch_tip :: "('e, 'w) batch_context \<Rightarrow> ('e, 'w, string) batch_act" where
  "branch_tip B =
     abind (walk_call (git_call (resolve_ref (branch_ref (bx_shared B))))) (\<lambda>found.
     case found of None \<Rightarrow> batch_refuse BranchGone | Some c \<Rightarrow> aret c)"

definition first_pass ::
  "('e, 'w) batch_context \<Rightarrow> string list \<Rightarrow> string list \<Rightarrow> ('e, 'w, string list) batch_act" where
  "first_pass B released stranded =
     afold (\<lambda>pending n.
       if n \<in> set released then aret pending
       else if n \<in> set stranded then aret (pending @ [n])
       else
         acatch (release_batch_member B n) (\<lambda>e. afail (FirstPassStopped n pending e)) (\<lambda>_.
         abind (load_state n) (\<lambda>found.
         case found of
           None \<Rightarrow> batch_refuse (NoCommitRecorded n)
         | Some st \<Rightarrow>
             aguard (\<not> step_completed st step_committed) (BatchRefused (NoCommitRecorded n)) (aret (pending @ [n]))))) [] (bx_order B)"

definition commits_between :: "history \<Rightarrow> string \<Rightarrow> string \<Rightarrow> ('e, 'w, string list) release_act" where
  "commits_between G after prior =
     git_call (git_read (\<lambda>_. if gr_known G after \<and> gr_known G prior
       then Inr (filter (\<lambda>c. c \<notin> set (gr_ancestors G prior)) (gr_ancestors G after))
       else Inl (GitRefused (prior @ ''..'' @ after))))"

definition second_pass ::
  "('e, 'w) batch_context \<Rightarrow> string list \<Rightarrow> string \<Rightarrow> ('e, 'w, string list) batch_act" where
  "second_pass B pending candidate =
     abind (afold (\<lambda>(own, completed) n.
       abind (branch_tip B) (\<lambda>prior.
       acatch (complete_batch_member B n candidate own)
         (\<lambda>e. acatch (load_state n) (\<lambda>e'. afail (BothErrors e e')) (\<lambda>found.
            afail (SecondPassStopped n completed (filter (\<lambda>p. p \<noteq> n \<and> p \<notin> set completed) pending) (found \<noteq> None) e)))
         (\<lambda>_. abind (branch_tip B) (\<lambda>after.
            abind (walk_call (commits_between (cx_graph (bx_shared B)) after prior)) (\<lambda>made.
            aret (union_of own made, completed @ [n])))))) ([], []) pending) (\<lambda>(_, completed). aret completed)"

section \<open>The archive of the batch release file\<close>

definition archive_message :: "('e, 'w) batch_context \<Rightarrow> string" where
  "archive_message B = ''chore: archive the batch release file as '' @ base_name (bx_archive_path B)"

definition archive_batch :: "('e, 'w) batch_context \<Rightarrow> ('e, 'w, unit) batch_act" where
  "archive_batch B =
     (let X = bx_shared B in
      abind (walk_call (op_call [] (bx_archive_taken B))) (\<lambda>taken.
      aguard taken (BatchRefused ArchiveTaken)
     (abind (walk_call (op_call [] (bx_write_archive B))) (\<lambda>_.
      abind (walk_call (op_call [] (bx_remove_file B))) (\<lambda>_.
      acatch (walk_call (commit_call X (archive_message B) [bx_archive_path B, bx_file_path B] True))
        (\<lambda>e. afail (ArchiveUncommitted e)) (\<lambda>_.
      abind (walk_call (advance X)) (\<lambda>_.
      abind (write_plan None) (\<lambda>_.
      abind (walk_call (get_walk x_tip)) (\<lambda>tip.
      acatch (walk_call (git_call (push_fast_forward (cx_graph X) (branch_ref X) tip (cx_push_timeout X) [PushedTip tip])))
        (\<lambda>e. afail (ArchiveUnpushed e)) aret)))))))))"

definition remaining_states :: "plan_item list \<Rightarrow> ('e, 'w, string list) batch_act" where
  "remaining_states =
     afold (\<lambda>out it. abind (load_state (pi_name it)) (\<lambda>found. aret (if found = None then out else out @ [pi_name it]))) []"

definition finish_completed_plan :: "('e, 'w) batch_context \<Rightarrow> batch_plan \<Rightarrow> ('e, 'w, unit) batch_act" where
  "finish_completed_plan B p =
     abind (remaining_states (bp_items p)) (\<lambda>left.
     aguard (left \<noteq> []) (BatchRefused (StatesRemain left))
    (if bp_batch_file p \<noteq> [] \<and> bp_batch_file p = bx_blob B then archive_batch B
     else abind (write_plan None) (\<lambda>_. batch_refuse LeftoverPlan)))"

definition no_state_remains :: "plan_item \<Rightarrow> ('e, 'w, unit) batch_act" where
  "no_state_remains it =
     abind (load_state (pi_name it)) (\<lambda>found.
     aguard (found \<noteq> None) (BatchRefused (StatesRemain [pi_name it])) (aret ()))"

definition archive_if_complete :: "('e, 'w) batch_context \<Rightarrow> batch_plan \<Rightarrow> ('e, 'w, unit) batch_act" where
  "archive_if_complete B p =
     abind (released_items B (bp_items p)) (\<lambda>released.
     aguard (length released \<noteq> length (bp_items p))
       (BatchRefused (NotReleasedYet (filter (\<lambda>n. n \<notin> set released) (map pi_name (bp_items p)))))
    (abind (aeach no_state_remains (bp_items p)) (\<lambda>_. archive_batch B)))"

section \<open>A run\<close>

definition root_selfdoc_message :: string where "root_selfdoc_message = ''selfdoc: regenerate (workspace root)''"

definition root_selfdoc :: "('e, 'w) batch_context \<Rightarrow> ('e, 'w, unit) batch_act" where
  "root_selfdoc B =
     abind (walk_call (op_call [] (bx_selfdoc B))) (\<lambda>written.
     if written = [] then aret ()
     else
       abind (walk_call (commit_call (bx_shared B) root_selfdoc_message written False)) (\<lambda>_.
       walk_call (advance (bx_shared B))))"

definition release_pending ::
  "('e, 'w) batch_context \<Rightarrow> batch_plan \<Rightarrow> string list \<Rightarrow> string \<Rightarrow> ('e, 'w, unit) batch_act" where
  "release_pending B p pending pin =
     abind (if pending = [] then aret []
            else
              abind (publish_batch_candidate B pending pin) (\<lambda>candidate.
              abind (gate_batch_candidate B pending candidate) (\<lambda>_.
              second_pass B pending candidate))) (\<lambda>completed.
     aguard (completed = []) (BatchRefused NothingReleased) (archive_if_complete B p))"

definition run_planned ::
  "('e, 'w) batch_context \<Rightarrow> batch_plan option \<Rightarrow> string list \<Rightarrow> ('e, 'w, unit) batch_act" where
  "run_planned B plan released =
     abind (case plan of
              Some p \<Rightarrow> if bp_batch_file p \<noteq> bx_blob B
                then (let p = p\<lparr>bp_batch_file := bx_blob B\<rparr> in abind (save_plan p) (\<lambda>_. aret (Some p)))
                else aret (Some p)
            | None \<Rightarrow> aret None) (\<lambda>plan.
     abind (case plan of None \<Rightarrow> aret [] | Some p \<Rightarrow> stranded_items (bp_items p)) (\<lambda>stranded.
     abind (validate_and_plan B plan released stranded) (\<lambda>p.
     abind (root_selfdoc B) (\<lambda>_.
     abind (walk_call (get_walk x_tip)) (\<lambda>pin.
     abind (first_pass B released stranded) (\<lambda>pending.
     release_pending B p pending pin))))))"

definition run_batch :: "('e, 'w) batch_context \<Rightarrow> ('e, 'w, unit) batch_act" where
  "run_batch B =
     abind load_plan (\<lambda>plan.
     abind (case plan of
              None \<Rightarrow> aret []
            | Some p \<Rightarrow>
                aguard (plan_mismatches (bx_tables B) p \<noteq> []) (BatchRefused (PlanMismatch (plan_mismatches (bx_tables B) p)))
                  (released_items B (bp_items p))) (\<lambda>released.
     case plan of
       Some p \<Rightarrow> if length released = length (bp_items p) then finish_completed_plan B p else run_planned B plan released
     | None \<Rightarrow> run_planned B None released))"

section \<open>A batch of two releasables\<close>

definition sample_validated :: "string \<Rightarrow> validated" where
  "sample_validated n = \<lparr>va_member = n, va_current = Version 0 9 0, va_version = Version 1 0 0, va_tag = n @ ''@1.0.0'',
     va_branch = ''main'', va_registry = ''go'', va_bump = ''minor'', va_commit_message = ''release '' @ n,
     va_description = ''First'', va_context = [], va_include = [''go''], va_exclude = [], va_completed = False\<rparr>"

definition sample_start :: "string \<Rightarrow> (string, string list) start_ops" where
  "sample_start n = \<lparr>so_validate = aret (sample_validated n), so_changelog_checks = aret (), so_pipeline = aret None,
     so_preflight = aret (), so_hooks = aret (), so_section_clean = aret (), so_regenerate = aret ()\<rparr>"

definition sample_member :: "string \<Rightarrow> (string, string list) release_context" where
  "sample_member n = sample_context\<lparr>cx_name := n, cx_settle := sample_settle\<lparr>op_refs := aret (n @ ''@1.0.0'', [])\<rparr>\<rparr>"

definition sample_shared :: "ci_verdict \<Rightarrow> (string, string list) release_context" where
  "sample_shared v = sample_context\<lparr>cx_prepare := sample_prepare\<lparr>op_ci := (\<lambda>c. aret (if c = [] then CiRed else v))\<rparr>\<rparr>"

definition sample_batch :: "ci_verdict \<Rightarrow> (string, string list) batch_context" where
  "sample_batch v = \<lparr>bx_shared = sample_shared v, bx_member = sample_member, bx_start = sample_start,
     bx_order = [''app'', ''lib''], bx_tables = [(''app'', ''minor''), (''lib'', ''minor'')], bx_blob = ''b1'',
     bx_has_version = (\<lambda>_. aret True), bx_version = (\<lambda>_. aret (Version 1 0 0)), bx_selfdoc = aret [],
     bx_archive_taken = aret False, bx_write_archive = aret (), bx_remove_file = aret (),
     bx_archive_path = ''batch/1.toml'', bx_file_path = ''batch/next.toml''\<rparr>"

definition sample_plan :: batch_plan where
  "sample_plan = \<lparr>bp_batch_file = ''b1'', bp_items =
     map (\<lambda>n. planned_item (sample_batch CiGreen) n (sample_validated n)) [''app'', ''lib'']\<rparr>"

definition sample_pending :: "string \<Rightarrow> in_progress" where
  "sample_pending n = (starting_state n (sample_validated n) (cid 0) None)\<lparr>ip_created_commits := [n],
     ip_completed := [step_version_bumped, step_committed]\<rparr>"

definition sample_run :: "(string \<Rightarrow> in_progress option) \<Rightarrow> batch_plan option \<Rightarrow> (string, string list) batch_run" where
  "sample_run files p = \<lparr>br_walk = (sample_walk [])\<lparr>x_world := (x_world (sample_walk []))\<lparr>w_rest := map cid [1..<9]\<rparr>\<rparr>,
     br_files = files, br_plan = p\<rparr>"

end
