(* ===== verification/Batch_Order.thy ===== *)
theory Batch_Order
  imports Batch_Release Release_Stops
begin

text \<open>
  What a batch does in order, and to which commit: one candidate, one verdict on it, and every
  releasable finished on that commit; what stays of a batch that stops.
\<close>

section \<open>What an action of a batch logs\<close>

definition grows :: "(event \<Rightarrow> bool) \<Rightarrow> ('e, 'w) batch_run \<Rightarrow> ('e, 'w) batch_run \<Rightarrow> bool" where
  "grows P b c \<longleftrightarrow> (\<exists>es. w_log (x_world (br_walk c)) = es @ w_log (x_world (br_walk b)) \<and> list_all P es)"

named_theorems grows_intros

lemma grows_refl [simp]: "grows P b b"
  by (simp add: grows_def)

lemma grows_reflp: "reflp (grows P)"
  by (simp add: reflp_def)

lemma grows_trans: "grows P a b \<Longrightarrow> grows P b c \<Longrightarrow> grows P a c"
  by (auto simp: grows_def)

lemma grows_transp: "transp (grows P)"
  by (auto intro: transpI grows_trans)

lemma grows_mono: "grows P a b \<Longrightarrow> (\<And>e. P e \<Longrightarrow> Q e) \<Longrightarrow> grows Q a b"
  unfolding grows_def using list.pred_mono_strong by blast

lemma grows_abind [grows_intros]: "acts (grows P) m \<Longrightarrow> (\<And>y. acts (grows P) (f y)) \<Longrightarrow> acts (grows P) (abind m f)"
  by (rule acts_abind [OF grows_transp])

lemma grows_acatch [grows_intros]:
  "acts (grows P) m \<Longrightarrow> (\<And>e. acts (grows P) (f e)) \<Longrightarrow> (\<And>y. acts (grows P) (g y)) \<Longrightarrow> acts (grows P) (acatch m f g)"
  by (rule acts_acatch [OF grows_transp])

lemma grows_aguard [grows_intros]: "acts (grows P) m \<Longrightarrow> acts (grows P) (aguard b e m)"
  by (rule acts_aguard [OF grows_reflp])

lemma grows_ends [grows_intros]:
  "acts (grows P) (aret y)" "acts (grows P) (afail e)" "acts (grows P) (batch_refuse r)"
  by (simp_all add: acts_def batch_refuse_def)

lemma grows_if [grows_intros]: "acts (grows P) m \<Longrightarrow> acts (grows P) n \<Longrightarrow> acts (grows P) (if b then m else n)"
  by simp

lemma grows_option [grows_intros]:
  "acts (grows P) m \<Longrightarrow> (\<And>y. acts (grows P) (f y)) \<Longrightarrow> acts (grows P) (case z of None \<Rightarrow> m | Some y \<Rightarrow> f y)"
  by (cases z) simp_all

lemma grows_sum [grows_intros]:
  "(\<And>e. acts (grows P) (f e)) \<Longrightarrow> (\<And>y. acts (grows P) (g y)) \<Longrightarrow> acts (grows P) (case z of Inl e \<Rightarrow> f e | Inr y \<Rightarrow> g y)"
  by (cases z) simp_all

lemma grows_prod [grows_intros]: "(\<And>a b. acts (grows P) (f a b)) \<Longrightarrow> acts (grows P) (case p of (a, b) \<Rightarrow> f a b)"
  by (cases p) simp

lemma grows_prod_fun [grows_intros]: "(\<And>a b. acts (grows P) (f a b y)) \<Longrightarrow> acts (grows P) ((case p of (a, b) \<Rightarrow> f a b) y)"
  by (cases p) simp

lemma grows_let [grows_intros]: "acts (grows P) (f y) \<Longrightarrow> acts (grows P) (let z = y in f z)"
  by simp

lemma grows_aeach [grows_intros]: "(\<And>y. acts (grows P) (f y)) \<Longrightarrow> acts (grows P) (aeach f ys)"
  by (rule acts_aeach [OF grows_reflp grows_transp])

lemma grows_afold [grows_intros]: "(\<And>r y. acts (grows P) (f r y)) \<Longrightarrow> acts (grows P) (afold f r ys)"
  by (rule acts_afold [OF grows_reflp grows_transp])

lemma grows_walk_call: "adds None P (br_walk b) (snd (m (br_walk b))) \<Longrightarrow> grows P b (snd (walk_call m b))"
  by (cases "m (br_walk b)") (simp add: walk_call_def grows_def adds_def)

lemma grows_member_call: "adds None P (focus n b) (snd (m (focus n b))) \<Longrightarrow> grows P b (snd (member_call n m b))"
  by (cases "m (focus n b)") (simp add: member_call_def grows_def adds_def focus_def)

lemma grows_walk [grows_intros]: "acts (adds None P) m \<Longrightarrow> acts (grows P) (walk_call m)"
  unfolding acts_def using grows_walk_call by blast

lemma grows_member [grows_intros]: "acts (adds None P) m \<Longrightarrow> acts (grows P) (member_call n m)"
  unfolding acts_def using grows_member_call by blast

lemma grows_files [grows_intros]: "acts (grows P) (load_state n)" "acts (grows P) (save_member n st)"
  unfolding load_state_def save_member_def by (intro grows_intros adds_intros still_intros still_git_call git_read_log)+

lemma grows_plan [grows_intros]: "acts (grows P) load_plan" "acts (grows P) (write_plan p)" "acts (grows P) (save_plan q)"
proof -
  show w: "acts (grows P) (write_plan p)" for p :: "batch_plan option"
    by (auto simp: acts_def write_plan_def grows_def Let_def split: prod.split option.split dest: log_next_turn)
  show "acts (grows P) load_plan"
    by (auto simp: acts_def load_plan_def grows_def split: prod.split dest: log_next_turn)
  show "acts (grows P) (save_plan q)" unfolding save_plan_def by (intro grows_intros w)
qed

lemma adds_git [adds_intros]: "acts (adds C P) (git_call (resolve_ref r))" "acts (adds C P) (git_call (remote_ref r))"
  "acts (adds C P) (git_call (tag_commit t))" "acts (adds C P) (git_call (remote_tag_commit t))"
  "acts (adds C P) (foreign_commits G r pin created)" "acts (adds C P) (commits_between G a c)"
  unfolding commits_between_def remote_tag_commit_def tag_commit_def foreign_commits_def
  by (intro adds_intros still_intros still_git still_git_call git_read_log)+

section \<open>Before the verdict\<close>

definition before_verdict :: "event \<Rightarrow> bool" where
  "before_verdict e \<longleftrightarrow> rank e \<le> 1 \<and> (\<forall>c. e \<noteq> Verdict c True)"

definition after_verdict :: "string \<Rightarrow> event \<Rightarrow> bool" where
  "after_verdict c e \<longleftrightarrow> 2 \<le> rank e \<and> (ship_commit e = None \<or> ship_commit e = Some c)"

lemma verdict_simps [simp]:
  "before_verdict (PushedCandidate c)" "before_verdict (Dispatched c)" "before_verdict (Verdict c False)"
  "after_verdict d (PushedTip c)"
  by (simp_all add: before_verdict_def after_verdict_def)

lemma member_walk_still: "acts still (run_walk X)" if "cx_defer X" for X :: "('e, 'w) release_context"
  unfolding run_walk_def stopping_def using that by (simp add: still_intros)

lemma pipeline_still [still_intros]: "acts still (pipeline_call m)"
  by (auto simp: acts_def pipeline_call_def still_def Let_def split: prod.split option.split sum.split dest: log_next_turn)

lemma adds_set_walk: "(\<And>x. w_log (x_world (f x)) = w_log (x_world x)) \<Longrightarrow> acts (adds None P) (set_walk f)"
  by (simp add: acts_def adds_def set_walk_def)

lemma adds_begin_walk [adds_intros]: "acts (adds None P) (set_walk (begin_walk st))"
  by (rule adds_set_walk) (simp add: begin_walk_def)

lemma forget_still [still_intros]: "acts still (set_walk forget_advance)"
  by (rule still_set_walk) (simp add: forget_advance_def still_def)

lemma quiet_release: "cx_defer X \<Longrightarrow> acts (adds None P) (release_anew X S)"
  unfolding release_anew_def
  by (intro adds_intros still_intros member_walk_still still_git) simp_all

lemma first_pass_grows: "acts (grows P) (first_pass B released stranded)"
  unfolding first_pass_def release_batch_member_def
  by (intro grows_intros adds_intros still_intros quiet_release) simp_all

lemma states_grow: "acts (grows P) (batch_states ns)"
  unfolding batch_states_def by (intro grows_intros)

lemma judge_grows: "acts (grows P) (judge_member B sha remote needs s)"
  unfolding judge_member_def by (intro grows_intros adds_intros still_intros)

lemma publish_grows: "acts (grows before_verdict) (publish_batch_candidate B pending pin)"
  unfolding publish_batch_candidate_def judge_members_def record_candidate_def
  by (intro grows_intros adds_intros still_intros states_grow judge_grows) simp_all

lemma fail_candidate_grows: "acts (grows P) (fail_candidate B pending e)"
  unfolding fail_candidate_def by (intro grows_intros states_grow)

lemma released_grows: "acts (grows P) (released_items B items)"
  unfolding released_items_def item_released_def by (intro grows_intros adds_intros still_intros)

lemma in_progress_grows: "acts (grows P) (in_progress_items items)"
  unfolding in_progress_items_def by (intro grows_intros)

lemma stranded_grows: "acts (grows P) (stranded_items items)"
  unfolding stranded_items_def by (intro grows_intros in_progress_grows)

lemma plan_grows: "acts (grows P) (validate_and_plan B plan released stranded)"
  unfolding validate_and_plan_def by (intro grows_intros adds_intros still_intros)

lemma selfdoc_grows: "acts (grows P) (root_selfdoc B)"
  unfolding root_selfdoc_def by (intro grows_intros adds_intros still_intros)

definition tip_pushed :: "event \<Rightarrow> bool" where
  "tip_pushed e \<longleftrightarrow> (\<exists>c. e = PushedTip c)"

lemma archive_grows: "acts (grows tip_pushed) (archive_batch B)"
  unfolding archive_batch_def by (intro grows_intros adds_intros still_intros) (simp_all add: tip_pushed_def)

lemma remaining_grows: "acts (grows P) (remaining_states items)"
  unfolding remaining_states_def by (intro grows_intros)

lemma finish_grows: "acts (grows tip_pushed) (finish_completed_plan B p)"
  unfolding finish_completed_plan_def by (intro grows_intros remaining_grows archive_grows)

lemma archive_complete_grows: "acts (grows tip_pushed) (archive_if_complete B p)"
  unfolding archive_if_complete_def no_state_remains_def by (intro grows_intros released_grows archive_grows)

section \<open>After the verdict\<close>

lemma adds_mono: "adds C P x y \<Longrightarrow> (\<And>e. P e \<Longrightarrow> Q e) \<Longrightarrow> adds C Q x y"
  unfolding adds_def using list.pred_mono_strong by blast

lemma acts_adds_mono: "acts (adds C P) m \<Longrightarrow> (\<And>e. P e \<Longrightarrow> Q e) \<Longrightarrow> acts (adds C Q) m"
  unfolding acts_def using adds_mono by blast

lemma settle_after: "acts (adds (Some c) (after_verdict c)) (walk_from_verdict X)"
proof -
  have later: "acts (adds (Some c) (at_rank c n)) m \<Longrightarrow> 2 \<le> n \<Longrightarrow> acts (adds (Some c) (after_verdict c)) m"
    for n and m :: "('a, 'b, unit) release_act"
    by (erule acts_adds_mono) (simp add: at_rank_def after_verdict_def)
  note steps = finalize_adds [THEN later] archive_adds [THEN later] tag_adds [THEN later] push_adds [THEN later]
    github_adds [THEN later] publish_adds [THEN later] deploy_adds [THEN later] hooks_adds [THEN later]
  have "acts (adds (Some c) (after_verdict c)) (aeach (take_step X) (settle_steps X))"
    unfolding settle_steps_def aeach.simps by (intro adds_abind adds_take_step adds_still [OF still_aret]) (simp_all add: steps)
  then show ?thesis
    unfolding walk_from_verdict_def using steps(8) by (intro adds_abind adds_still [OF epilogue_still]) simp_all
qed

text \<open>A walk of the second pass, whose state records the batch's candidate as its release commit.\<close>

definition on_candidate :: "string \<Rightarrow> ('e, 'w) execution \<Rightarrow> bool" where
  "on_candidate c x \<longleftrightarrow> (step_completed (x_state x) step_ci_verified \<longrightarrow> ip_release_commit (x_state x) = c)"

definition grown :: "string \<Rightarrow> event list \<Rightarrow> ('e, 'w) execution \<Rightarrow> bool" where
  "grown c old x \<longleftrightarrow> (\<exists>es. w_log (x_world x) = es @ old \<and> list_all (after_verdict c) es)"

lemma grown_adds: "grown c old x \<Longrightarrow> adds None (after_verdict c) x y \<Longrightarrow> grown c old y"
  by (fastforce simp: grown_def adds_def)

lemma complete_Inr: "complete step x = (Inr u, y) \<Longrightarrow> x_state y = complete_step step (x_state x)"
  unfolding complete_def save_def
  using actsD [OF same_saves(1) [of "\<lambda>st. st"]]
  by (fastforce simp: act_Inr with_state_def set_walk_def get_walk_def same_def)

lemma step_completed_complete [simp]: "step_completed (complete_step step st) step"
  by (simp add: complete_step_def step_completed_def Let_def)

lemma push_candidate_of_batch:
  assumes run: "push_candidate X x = (Inr u, y)" and X: "cx_verified X = c" "c \<noteq> []" and x: "on_candidate c x"
  shows "x_candidate y = c \<and> step_completed (x_state y) step_ci_verified"
proof (cases "step_completed (x_state x) step_ci_verified")
  case True
  from run True obtain a x1 d x2 where o: "op_call [] (op_fate (cx_prepare X)) x = (Inr a, x1)"
    and r: "require_recorded_candidate X (ip_release_commit (x_state x1)) x1 = (Inr d, x2)"
    and y: "x_candidate y = d" "x_state y = x_state x2"
    by (auto simp: push_candidate_def act_Inr completed_def get_walk_def set_candidate_def set_pushed_def set_walk_def)
  from o have x1: "x_state x1 = x_state x" using actsD [OF same_calls(2) [of "\<lambda>st. st"]] by (fastforce simp: same_def)
  with r have "x_state x2 = x_state x" using actsD [OF same_checkout(4) [of "\<lambda>st. st"]] by (fastforce simp: same_def)
  with y x1 require_recorded_result [OF r] True x show ?thesis by (auto simp: on_candidate_def)
next
  case False
  with run X have "adopt_batch_candidate X x = (Inr u, y)"
    by (auto simp: push_candidate_def act_Inr completed_def get_walk_def)
  then obtain x1 x2 where "set_candidate c x1 = (Inr (), x2)"
    and rest: "(abind set_pushed (\<lambda>_. abind (state_release_commit c) (\<lambda>_. complete step_ci_verified))) x2 = (Inr u, y)"
    using X by (auto simp: adopt_batch_candidate_def act_Inr)
  moreover have "still x2 (snd ((abind set_pushed (\<lambda>_. abind (state_release_commit c) (\<lambda>_. complete step_ci_verified))) x2))"
    by (rule acts_at) (intro still_intros)
  then have "still x2 y" by (simp only: rest snd_conv)
  ultimately have "x_candidate y = c" by (auto simp: set_candidate_def set_walk_def still_def)
  moreover from rest have "step_completed (x_state y) step_ci_verified"
    by (auto simp: abind_Inr dest!: complete_Inr)
  ultimately show ?thesis by simp
qed

lemma push_candidate_quiet: "cx_verified X \<noteq> [] \<Longrightarrow> acts (adds None P) (push_candidate X)"
  unfolding push_candidate_def adopt_batch_candidate_def by (simp, intro adds_intros still_intros)

lemma verified_again: "step_completed (x_state x) step_ci_verified \<Longrightarrow> verify_ci X x = (Inr (), x)"
  by (simp add: verify_ci_def abind_def completed_def get_walk_def)

lemma stopping_grown:
  fixes m :: "('e, 'w, 'a) release_act"
  assumes "triple P m Q (\<lambda>_. grown c old)"
  shows "triple P (stopping X step m) Q (\<lambda>_. grown c old)"
proof (rule tripleI)
  fix x :: "('e, 'w) execution" assume "P x"
  with assms have m: "wp m Q (\<lambda>_. grown c old) x" by (rule tripleD)
  have s: "wp (stop X step e :: ('e, 'w, 'a) release_act) Q (\<lambda>_. grown c old) t" if "grown c old t" for e t
  proof -
    obtain r u where r: "(stop X step e :: ('e, 'w, 'a) release_act) t = (r, u)" by fastforce
    then have "grown c old u" using grown_adds [OF that] actsD [OF adds_still [OF still_stop'] r] by blast
    with r show ?thesis by (cases r) (auto simp: wp_def)
  qed
  show "wp (stopping X step m) Q (\<lambda>_. grown c old) x"
    unfolding stopping_def wp_acatch using m by (rule wp_mono) (simp_all add: s)
qed

lemma wp_acts: "acts R m \<Longrightarrow> (\<And>x t. R s t \<Longrightarrow> Q x t) \<Longrightarrow> (\<And>e t. R s t \<Longrightarrow> E e t) \<Longrightarrow> wp m Q E s"
  by (cases "m s") (auto simp: wp_def dest: actsD split: sum.split)

lemma adds_triple:
  assumes "acts (adds None (after_verdict c)) m"
  shows "triple (grown c old) m (\<lambda>_. grown c old) (\<lambda>_. grown c old)"
  by (rule tripleI) (blast intro: wp_acts [OF assms] grown_adds)

lemma triple_both:
  "triple P m Q E \<Longrightarrow> triple P' m Q' E' \<Longrightarrow> triple (\<lambda>s. P s \<and> P' s) m (\<lambda>x s. Q x s \<and> Q' x s) E"
  by (auto simp: triple_def wp_def split: prod.splits sum.splits)

lemma same_triple: "acts (same f) m \<Longrightarrow> triple (\<lambda>x. I (f (x_state x))) m (\<lambda>_ x. I (f (x_state x))) (\<lambda>_ _. True)"
  by (rule tripleI) (auto intro: wp_acts simp: same_def)

definition candidate_taken :: "string \<Rightarrow> ('e, 'w) execution \<Rightarrow> bool" where
  "candidate_taken c x \<longleftrightarrow> x_candidate x = c \<and> step_completed (x_state x) step_ci_verified"

lemma on_candidate_part: "on_candidate c = (\<lambda>x. (\<lambda>(done, d). done \<longrightarrow> d = c) (verdict_part (x_state x)))"
  by (simp add: on_candidate_def verdict_part_def fun_eq_iff)

lemma keeps_candidate:
  assumes "acts still m" "acts (same verdict_part) m"
  shows "triple (\<lambda>x. grown c old x \<and> on_candidate c x) m (\<lambda>_ x. grown c old x \<and> on_candidate c x) (\<lambda>_. grown c old)"
  unfolding on_candidate_part
  by (rule triple_both [OF adds_triple [OF adds_still [OF assms(1)]] same_triple [OF assms(2)]])

lemma keeps_taken:
  assumes "acts still m" "acts (same verdict_part) m"
  shows "triple (\<lambda>x. grown c old x \<and> candidate_taken c x) m (\<lambda>_ x. grown c old x \<and> candidate_taken c x) (\<lambda>_. grown c old)"
proof -
  have "acts (\<lambda>x y. still x y \<and> same verdict_part x y) m"
    using assms by (simp add: acts_def)
  then have "triple (candidate_taken c) m (\<lambda>_. candidate_taken c) (\<lambda>_ _. True)"
    by (intro tripleI) (auto intro!: wp_acts simp: candidate_taken_def still_def same_def verdict_part_def)
  with adds_triple [OF adds_still [OF assms(1)]] show ?thesis by (rule triple_both)
qed

lemma push_candidate_grown:
  fixes X :: "('e, 'w) release_context"
  assumes "cx_verified X = c" "c \<noteq> []"
  shows "triple (\<lambda>x. grown c old x \<and> on_candidate c x) (push_candidate X) (\<lambda>_ x. grown c old x \<and> candidate_taken c x)
    (\<lambda>_. grown c old)"
proof (rule tripleI)
  fix x :: "('e, 'w) execution" assume x: "grown c old x \<and> on_candidate c x"
  obtain r y where run: "push_candidate X x = (r, y)" by fastforce
  have "grown c old y" using x grown_adds actsD [OF push_candidate_quiet run] assms by blast
  moreover have "candidate_taken c y" if "r = Inr u" for u
    using push_candidate_of_batch [OF run [unfolded that] assms] x by (simp add: candidate_taken_def)
  ultimately show "wp (push_candidate X) (\<lambda>_ x. grown c old x \<and> candidate_taken c x) (\<lambda>_. grown c old) x"
    using run by (auto simp: wp_def split: sum.split)
qed

lemma verify_again_grown:
  "triple (\<lambda>x. grown c old x \<and> candidate_taken c x) (verify_ci X) (\<lambda>_ x. grown c old x \<and> candidate_taken c x) (\<lambda>_. grown c old)"
  by (rule tripleI) (simp add: wp_def candidate_taken_def verified_again)

lemma settle_grown:
  fixes X :: "('e, 'w) release_context"
  shows "triple (\<lambda>x. grown c old x \<and> candidate_taken c x) (walk_from_verdict X) (\<lambda>_. grown c old) (\<lambda>_. grown c old)"
proof (rule tripleI)
  fix x :: "('e, 'w) execution" assume x: "grown c old x \<and> candidate_taken c x"
  have "grown c old y" if "adds (Some c) (after_verdict c) x y" for y
    using that x by (fastforce simp: adds_def grown_def candidate_taken_def)
  then show "wp (walk_from_verdict X) (\<lambda>_. grown c old) (\<lambda>_. grown c old) x"
    by (auto intro: wp_acts [OF settle_after])
qed

lemma walk_of_batch:
  assumes X: "cx_verified X = c" "c \<noteq> []" "\<not> cx_defer X"
  shows "triple (\<lambda>x. grown c old x \<and> on_candidate c x) (run_walk X) (\<lambda>_. grown c old) (\<lambda>_. grown c old)"
proof -
  let ?G = "\<lambda>_. grown c old"
  have guard: "acts still (guard_foreign X k)" "acts (same verdict_part) (guard_foreign X k)" for k
    by (intro still_intros same_intros)+
  have "triple (\<lambda>x. grown c old x \<and> on_candidate c x) (walk_to_verdict X) (\<lambda>_ x. grown c old x \<and> candidate_taken c x) ?G"
    unfolding walk_to_verdict_def
    by (intro triple_seq [OF stopping_grown [OF push_candidate_grown [OF X(1,2)]]]
        triple_seq [OF stopping_grown [OF verify_again_grown]] stopping_grown [OF keeps_taken] guard)
  then have "triple (\<lambda>x. grown c old x \<and> on_candidate c x) (abind (walk_to_verdict X) (\<lambda>_. walk_from_verdict X)) ?G ?G"
    by (rule triple_seq) (rule settle_grown)
  then show ?thesis
    unfolding run_walk_def using X(3)
    by (intro triple_seq [OF stopping_grown [OF keeps_candidate [OF guard]]]
        triple_seq [OF stopping_grown [OF keeps_candidate [OF still_bump_and_commit bump_keeps_verdict]]]) simp
qed

text \<open>A resume of a state that records the candidate.\<close>

definition records_candidate :: "string \<Rightarrow> ('e, 'w) execution \<Rightarrow> bool" where
  "records_candidate c x \<longleftrightarrow> (\<forall>st. w_saved (x_world x) = Some st \<longrightarrow> ip_release_commit st = c)"

lemma adopt_candidate: "ip_release_commit st = c \<Longrightarrow> step_completed (adopt tip adopted st) step_ci_verified \<Longrightarrow>
    ip_release_commit (adopt tip adopted st) = c"
  by (auto simp: adopt_def drop_step_def step_completed_def Let_def split: if_splits)

lemma read_saved: "git_call (git_read (\<lambda>w. Inr (w_saved w))) x = (Inr saved, y) \<Longrightarrow> saved = w_saved (x_world x)"
  by (auto simp: git_call_def git_read_def next_turn_def with_error_def split: prod.splits list.splits turn.splits option.splits sum.splits)

lemma begin_walk_grown:
  assumes "ip_release_commit st = c"
  shows "triple (grown c old) (set_walk (begin_walk (adopt tip adopted st))) (\<lambda>_ x. grown c old x \<and> on_candidate c x) (\<lambda>_. grown c old)"
  by (rule tripleI)
     (auto simp: wp_def set_walk_def begin_walk_def grown_def on_candidate_def dest: adopt_candidate [OF assms])

lemma triple_aguard: "triple P m Q E \<Longrightarrow> (\<And>x. P x \<Longrightarrow> E e x) \<Longrightarrow> triple P (aguard bad e m) Q E"
  by (auto simp: triple_def)

lemma resume_of_batch:
  fixes X :: "('e, 'w) release_context"
  assumes X: "cx_verified X = c" "c \<noteq> []" "\<not> cx_defer X"
  shows "triple (\<lambda>x. grown c old x \<and> records_candidate c x) (resume_in X) (\<lambda>_. grown c old) (\<lambda>_. grown c old)"
proof -
  let ?G = "grown c old" and ?I = "\<lambda>x. grown c old x \<and> on_candidate c x"
  note still = adds_triple [OF adds_still]
  have walk: "triple ?I (abind (if b then aret [] else op_call [] m) (\<lambda>_. abind save (\<lambda>_. run_walk (X\<lparr>cx_resuming := True, cx_entry := st\<rparr>))))
      (\<lambda>_. ?G) (\<lambda>_. ?G)" for b m st
    by (intro triple_seq [OF keeps_candidate] walk_of_batch still_intros same_intros) (simp_all add: X)
  have rest: "triple ?G (abind (set_walk (begin_walk (adopt tip adopted st))) (\<lambda>_.
       abind (if b then aret [] else op_call [] m) (\<lambda>_. abind save (\<lambda>_. run_walk (X\<lparr>cx_resuming := True, cx_entry := st\<rparr>)))))
      (\<lambda>_. ?G) (\<lambda>_. ?G)" if "ip_release_commit st = c" for tip adopted st b m
    by (rule triple_seq [OF begin_walk_grown [OF that]]) (rule walk)
  have resume: "triple ?G (resume_state X st) (\<lambda>_. ?G) (\<lambda>_. ?G)" if "ip_release_commit st = c" for st
    unfolding resume_state_def Let_def
    by (intro triple_aguard triple_seq [OF still] rest [OF that] still_intros still_git)
  show ?thesis
  proof (rule tripleI)
    fix x :: "('e, 'w) execution" assume x: "grown c old x \<and> records_candidate c x"
    let ?read = "git_call (git_read (\<lambda>w. Inr (w_saved w))) :: ('e, 'w, in_progress option) release_act"
    obtain r y where run: "?read x = (r, y)" by fastforce
    have y: "?G y" using x grown_adds actsD [OF adds_still [OF still_git_call [OF git_read_log]] run] by blast
    have "ip_release_commit st = c" if "r = Inr (Some st)" for st
      using x read_saved [OF run [unfolded that]] by (simp add: records_candidate_def)
    with run y resume show "wp (resume_in X) (\<lambda>_. ?G) (\<lambda>_. ?G) x"
      unfolding resume_in_def wp_abind by (auto simp: wp_def triple_def split: sum.split option.split)
  qed
qed

section \<open>The second pass\<close>

lemma member_call_Inr:
  "member_call n m b = (Inr y, b') \<longleftrightarrow>
     (\<exists>x. m (focus n b) = (Inr y, x) \<and> b' = b\<lparr>br_walk := x, br_files := (br_files b)(n := w_saved (x_world x))\<rparr>)"
  by (auto simp: member_call_def split: prod.split)

lemma save_member_Inr: "save_member n st b = (Inr u, b') \<Longrightarrow> br_files b' = (br_files b)(n \<mapsto> st)"
  unfolding save_member_def member_call_Inr using save_state_Inr by fastforce

lemma walk_call_files: "walk_call m b = (r, b') \<Longrightarrow> br_files b' = br_files b"
  by (auto simp: walk_call_def split: prod.splits)

lemma resume_member_grows:
  assumes c: "c \<noteq> []" and st: "br_files b n = Some st" "ip_release_commit st = c"
  shows "grows (after_verdict c) b (snd (member_call n (resume_in (X\<lparr>cx_defer := False, cx_verified := c\<rparr>)) b))"
proof (rule grows_member_call)
  let ?x = "focus n b" and ?m = "resume_in (X\<lparr>cx_defer := False, cx_verified := c\<rparr>)"
  have "grown c (w_log (x_world ?x)) ?x \<and> records_candidate c ?x"
    using st by (simp add: grown_def records_candidate_def focus_def)
  from tripleD [OF resume_of_batch this, of "X\<lparr>cx_defer := False, cx_verified := c\<rparr>"] c
  have "grown c (w_log (x_world ?x)) (snd (?m ?x))" by (auto simp: wp_def split: prod.splits sum.splits)
  then show "adds None (after_verdict c) ?x (snd (?m ?x))" by (simp add: grown_def adds_def)
qed

lemma grows_then:
  assumes m: "acts (grows P) m" and f: "\<And>y t. m s = (Inr y, t) \<Longrightarrow> grows P t (snd (f y t))"
  shows "grows P s (snd (abind m f s))"
proof (cases "m s")
  case (Pair r t)
  from actsD [OF m Pair] have "grows P s t" .
  with Pair f grows_trans show ?thesis by (cases r) (auto simp: abind_def)
qed

lemma complete_member_grows:
  fixes B :: "('e, 'w) batch_context"
  assumes "c \<noteq> []"
  shows "acts (grows (after_verdict c)) (complete_batch_member B n c own)"
proof -
  let ?resume = "member_call n (resume_in ((bx_member B n)\<lparr>cx_defer := False, cx_verified := c\<rparr>))"
  let ?st = "\<lambda>st. st\<lparr>ip_created_commits := union_of (ip_created_commits st) own\<rparr>"
  have go: "grows (after_verdict c) b (snd (abind (save_member n (?st st)) (\<lambda>_. abind (walk_call (set_walk forget_advance)) (\<lambda>_. ?resume)) b))"
    if "ip_release_commit st = c" for st and b :: "('e, 'w) batch_run"
  proof (rule grows_then [OF grows_files(2)])
    fix u and t :: "('e, 'w) batch_run" assume t: "save_member n (?st st) b = (Inr u, t)"
    show "grows (after_verdict c) t (snd (abind (walk_call (set_walk forget_advance)) (\<lambda>_. ?resume) t))"
    proof (rule grows_then)
      show "acts (grows (after_verdict c)) (walk_call (set_walk forget_advance))" by (intro grows_intros adds_intros still_intros)
      fix v :: unit and t' :: "('e, 'w) batch_run" assume "walk_call (set_walk forget_advance) t = (Inr v, t')"
      with t have "br_files t' n = Some (?st st)" using save_member_Inr walk_call_files by fastforce
      then show "grows (after_verdict c) t' (snd (?resume t'))"
        by (rule resume_member_grows [OF assms]) (simp add: that)
    qed
  qed
  show ?thesis
    unfolding complete_batch_member_def
  proof (intro grows_abind grows_files grows_option grows_ends)
    fix st :: in_progress
    show "acts (grows (after_verdict c)) (aguard (\<not> step_completed st step_candidate_pushed \<or> ip_release_commit st \<noteq> c)
        (BatchRefused (NoPushRecorded n)) (abind (save_member n (?st st)) (\<lambda>_. abind (walk_call (set_walk forget_advance)) (\<lambda>_. ?resume))))"
      using go [of st] by (auto simp: acts_def aguard_def)
  qed
qed

lemma second_pass_grows: "c \<noteq> [] \<Longrightarrow> acts (grows (after_verdict c)) (second_pass B pending c)"
  unfolding second_pass_def branch_tip_def
  by (intro grows_intros adds_intros complete_member_grows)

section \<open>One candidate\<close>

definition one_candidate :: "event list \<Rightarrow> bool" where
  "one_candidate es \<longleftrightarrow> list_all before_verdict es \<or> list_all tip_pushed es \<or>
     (\<exists>c newer older. es = newer @ Verdict c True # older \<and> list_all before_verdict older \<and> list_all (after_verdict c) newer)"

lemma filters_silent:
  "aeach (\<lambda>n. walk_call (op_call [] (f n))) ns b = (r, b') \<Longrightarrow> w_log (x_world (br_walk b')) = w_log (x_world (br_walk b))"
proof -
  assume run: "aeach (\<lambda>n. walk_call (op_call [] (f n))) ns b = (r, b')"
  have "acts (grows (\<lambda>_. False)) (aeach (\<lambda>n. walk_call (op_call [] (f n))) ns)"
    by (intro grows_intros adds_intros still_intros)
  from actsD [OF this run] show ?thesis by (auto simp: grows_def list_all_iff)
qed

lemma gate_log:
  assumes run: "gate_batch_candidate B pending c b = (r, b')"
  shows "(case r of
     Inl _ \<Rightarrow> grows before_verdict b b'
   | Inr _ \<Rightarrow> w_log (x_world (br_walk b')) = Verdict c True # w_log (x_world (br_walk b)) \<and>
       ci_passed (bx_shared B) c)"
proof -
  let ?filters = "aeach (\<lambda>n. walk_call (op_call [] (op_ci_filters (cx_prepare (bx_member B n))))) pending"
  let ?ask = "walk_call (op_call [] (op_ci (cx_prepare (bx_shared B)) c))"
  let ?log = "\<lambda>b. w_log (x_world (br_walk b))"
  obtain r1 b1 where f: "?filters b = (r1, b1)" by fastforce
  note l1 = filters_silent [OF f]
  show ?thesis
  proof (cases r1)
    case (Inl e)
    with run f l1 show ?thesis by (auto simp: gate_batch_candidate_def abind_def grows_def)
  next
    case (Inr u)
    obtain r2 b2 where a: "?ask b1 = (r2, b2)" by fastforce
    have "acts (grows (\<lambda>_. False)) ?ask" by (intro grows_intros adds_intros still_intros)
    from actsD [OF this a] have l2: "?log b2 = ?log b1" by (auto simp: grows_def list_all_iff)
    show ?thesis
    proof (cases r2)
      case (Inl e)
      with run f Inr a l1 l2 show ?thesis by (auto simp: gate_batch_candidate_def abind_def grows_def)
    next
      case v: (Inr v)
      let ?b3 = "b2\<lparr>br_walk := (br_walk b2)\<lparr>x_world := (x_world (br_walk b2))\<lparr>w_log := Verdict c (ci_passes v) # ?log b2\<rparr>\<rparr>\<rparr>"
      have go: "(if ci_passes v then aret () else fail_candidate B pending (BatchStopped (Refuse (CiRefused v)))) ?b3 = (r, b')"
        using run f Inr a v by (simp add: gate_batch_candidate_def abind_def walk_call_def log_event_def set_walk_def)
      have passed: "\<exists>s t. op_ci (cx_prepare (bx_shared B)) c s = (Inr v, t)"
        using a v by (auto simp: walk_call_def split: prod.splits dest!: op_call_result)
      show ?thesis
      proof (cases "ci_passes v")
        case True
        with passed have "ci_passed (bx_shared B) c" unfolding ci_passed_def by blast
        with True go l1 l2 show ?thesis by auto
      next
        case False
        with go have "fail_candidate B pending (BatchStopped (Refuse (CiRefused v))) ?b3 = (r, b')" by simp
        moreover have "grows before_verdict b ?b3" using l1 l2 False by (simp add: grows_def)
        moreover have "\<not> (\<exists>y. r = Inr y)"
          using False go by (auto simp: fail_candidate_def acatch_Inr)
        moreover have "grows before_verdict ?b3 b'" using calculation(1) by (rule actsD [OF fail_candidate_grows])
        ultimately show ?thesis by (cases r) (auto intro: grows_trans)
      qed
    qed
  qed
qed

lemma tip_after: "tip_pushed e \<Longrightarrow> after_verdict c e"
  by (auto simp: tip_pushed_def)

lemma archive_after: "acts (grows (after_verdict c)) (archive_if_complete B p)"
  using archive_complete_grows grows_mono tip_after unfolding acts_def by blast

lemma pending_log:
  assumes run: "release_pending B p pending pin b = (r, b')" and blind: "\<not> ci_passed (bx_shared B) []"
  shows "\<exists>es. w_log (x_world (br_walk b')) = es @ w_log (x_world (br_walk b)) \<and> one_candidate es"
proof -
  let ?log = "\<lambda>b. w_log (x_world (br_walk b))"
  have early: "\<exists>es. ?log b' = es @ ?log b \<and> one_candidate es" if "grows before_verdict b b'"
    using that by (auto simp: grows_def one_candidate_def)
  show ?thesis
  proof (cases "pending = []")
    case True
    with run have "b' = b" by (auto simp: release_pending_def abind_def aguard_def)
    with early show ?thesis by simp
  next
    case False
    obtain r1 b1 where p: "publish_batch_candidate B pending pin b = (r1, b1)" by fastforce
    note g1 = actsD [OF publish_grows p]
    show ?thesis
    proof (cases r1)
      case (Inl e)
      with False p run have "b' = b1" by (auto simp: release_pending_def abind_def)
      with g1 early show ?thesis by simp
    next
      case c: (Inr c)
      obtain r2 b2 where g: "gate_batch_candidate B pending c b1 = (r2, b2)" by fastforce
      note l2 = gate_log [OF g]
      show ?thesis
      proof (cases r2)
        case (Inl e)
        with c False p g run have "b' = b2" by (auto simp: release_pending_def abind_def)
        with Inl l2 early grows_trans [OF g1] show ?thesis by simp
      next
        case (Inr u)
        with l2 have v: "?log b2 = Verdict c True # ?log b1" and "c \<noteq> []" using blind by auto
        let ?rest = "abind (second_pass B pending c) (\<lambda>completed.
            aguard (completed = []) (BatchRefused NothingReleased) (archive_if_complete B p))"
        have "acts (grows (after_verdict c)) ?rest"
          by (intro grows_abind grows_aguard second_pass_grows [OF \<open>c \<noteq> []\<close>] archive_after)
        moreover have "?rest b2 = (r, b')" using run False p c g Inr by (auto simp: release_pending_def abind_def split: prod.splits sum.splits)
        ultimately have "grows (after_verdict c) b2 b'" by (rule actsD)
        then obtain newer where n: "?log b' = newer @ ?log b2" "list_all (after_verdict c) newer"
          by (auto simp: grows_def)
        from g1 obtain older where o: "?log b1 = older @ ?log b" "list_all before_verdict older" by (auto simp: grows_def)
        have "one_candidate (newer @ Verdict c True # older)" unfolding one_candidate_def using n o by blast
        with n o v show ?thesis by (intro exI [of _ "newer @ Verdict c True # older"]) simp
      qed
    qed
  qed
qed

lemma quiet_then:
  assumes m: "acts (grows (\<lambda>_. False)) m" and f: "\<And>y t. m s = (Inr y, t) \<Longrightarrow>
    \<exists>es. w_log (x_world (br_walk (snd (f y t)))) = es @ w_log (x_world (br_walk t)) \<and> one_candidate es"
  shows "\<exists>es. w_log (x_world (br_walk (snd (abind m f s)))) = es @ w_log (x_world (br_walk s)) \<and> one_candidate es"
proof (cases "m s")
  case (Pair r t)
  from actsD [OF m Pair] have "w_log (x_world (br_walk t)) = w_log (x_world (br_walk s))" by (auto simp: grows_def list_all_iff)
  with Pair f show ?thesis by (cases r) (auto simp: abind_def one_candidate_def)
qed

text \<open>
  C37. Whatever other processes do between its calls and wherever it stops, a run of a batch release
  finalizes, archives, tags and publishes nothing before CI passed the one candidate it pushed, and
  after that it ships that commit only, for every releasable of the batch; a run that finds its plan
  finished pushes at most the archive of the batch release file. It rests on CI passing no commit
  without an id.
\<close>

theorem batch_one_candidate:
  assumes "\<not> ci_passed (bx_shared B) []"
  shows "\<exists>es. w_log (x_world (br_walk (snd (run_batch B b)))) = es @ w_log (x_world (br_walk b)) \<and> one_candidate es"
proof -
  have planned: "\<exists>es. w_log (x_world (br_walk (snd (run_planned B plan released t)))) = es @ w_log (x_world (br_walk t)) \<and> one_candidate es"
    for plan released t
    unfolding run_planned_def Let_def
    by (intro quiet_then grows_intros stranded_grows plan_grows selfdoc_grows first_pass_grows adds_intros still_intros)
       (metis pending_log [OF _ assms] prod.collapse)
  have finished: "\<exists>es. w_log (x_world (br_walk (snd (finish_completed_plan B p t)))) = es @ w_log (x_world (br_walk t)) \<and> one_candidate es"
    for p t
  proof -
    have "grows tip_pushed t (snd (finish_completed_plan B p t))" using finish_grows [of B p] by (simp add: acts_def)
    then show ?thesis by (auto simp: grows_def one_candidate_def)
  qed
  show ?thesis
    unfolding run_batch_def
    by (intro quiet_then grows_intros released_grows) (auto split: option.split intro: planned finished)
qed

theorem batch_one_candidate_witness:
  "\<exists>es. w_log (x_world (br_walk (snd (run_batch (sample_batch CiGreen) (sample_run (\<lambda>_. None) None))))) = es \<and> one_candidate es"
proof -
  have "\<not> ci_passed (bx_shared (sample_batch CiGreen)) []"
    by (simp add: ci_passed_def sample_batch_def sample_shared_def sample_prepare_def ci_passes_def)
  from batch_one_candidate [OF this, of "sample_run (\<lambda>_. None) None"] show ?thesis
    by (simp add: sample_run_def sample_walk_def)
qed

end
