(* ===== verification/Batch_States.thy ===== *)
theory Batch_States
  imports Batch_Order
begin

text \<open>
  The run state and the plan of a batch: what publishing and judging its candidate records of every
  releasable, how long the plan lives, and the releases a batch leaves alone.
\<close>

section \<open>Reading the run state\<close>

lemma load_state_run:
  "load_state n b = (r, b') \<Longrightarrow> br_files b' = br_files b \<and> br_plan b' = br_plan b \<and> (\<forall>found. r = Inr found \<longrightarrow> found = br_files b n)"
  by (auto simp: load_state_def member_call_def git_call_def git_read_def next_turn_def focus_def with_error_def
      split: prod.splits list.splits turn.splits option.splits sum.splits)

lemma load_state_Inr:
  "load_state n b = (Inr found, b') \<Longrightarrow> br_files b n = found \<and> br_files b' = br_files b"
  using load_state_run by fastforce

lemma batch_states_fold:
  "afold (\<lambda>out n. abind (load_state n) (\<lambda>found. case found of None \<Rightarrow> batch_refuse (StateGone n) | Some st \<Rightarrow> aret (out @ [(n, st)])))
     out ns b = (Inr states, b') \<Longrightarrow>
   states = out @ map (\<lambda>n. (n, the (br_files b n))) ns \<and> (\<forall>n \<in> set ns. br_files b n \<noteq> None) \<and> br_files b' = br_files b"
proof (induction ns arbitrary: out b)
  case (Cons n ns)
  from Cons.prems obtain st b1 where l: "load_state n b = (Inr (Some st), b1)"
    and rest: "afold (\<lambda>out n. abind (load_state n) (\<lambda>found. case found of None \<Rightarrow> batch_refuse (StateGone n) | Some st \<Rightarrow> aret (out @ [(n, st)])))
      (out @ [(n, st)]) ns b1 = (Inr states, b')"
    by (auto simp: abind_Inr batch_refuse_def split: option.splits)
  from Cons.IH [OF rest] load_state_Inr [OF l] show ?case by auto
qed simp

lemma batch_states_Inr:
  "batch_states ns b = (Inr states, b') \<Longrightarrow>
   states = map (\<lambda>n. (n, the (br_files b n))) ns \<and> (\<forall>n \<in> set ns. br_files b n \<noteq> None) \<and> br_files b' = br_files b"
  unfolding batch_states_def by (drule batch_states_fold) simp

lemma save_member_other: "save_member n st b = (Inr u, b') \<Longrightarrow> m \<noteq> n \<Longrightarrow> br_files b' m = br_files b m"
  using save_member_Inr by fastforce

lemma saved_each:
  "aeach (\<lambda>(n, st). save_member n (f st)) states b = (Inr u, b') \<Longrightarrow> (\<And>n st. (n, st) \<in> set states \<Longrightarrow> Q (f st)) \<Longrightarrow>
   (\<forall>n. n \<in> fst ` set states \<or> (\<exists>st. br_files b n = Some st \<and> Q st) \<longrightarrow> (\<exists>st. br_files b' n = Some st \<and> Q st))"
proof (induction states arbitrary: b)
  case (Cons s states)
  obtain n st where s: "s = (n, st)" by fastforce
  from Cons.prems(1) obtain v b1 where v: "save_member n (f st) b = (Inr v, b1)"
    and rest: "aeach (\<lambda>(n, st). save_member n (f st)) states b1 = (Inr u, b')"
    by (auto simp: s abind_Inr)
  have "br_files b1 = (br_files b)(n \<mapsto> f st)" "Q (f st)"
    using save_member_Inr [OF v] Cons.prems(2) by (auto simp: s)
  moreover have "\<And>n st. (n, st) \<in> set states \<Longrightarrow> Q (f st)" by (meson Cons.prems(2) list.set_intros(2))
  note Cons.IH [OF rest this]
  ultimately show ?case by (auto simp: s split: if_splits)
qed auto

section \<open>What the candidate leaves in the run state\<close>

lemma add_name_set [simp]: "set (add_name n ns) = insert n (set ns)"
  by (auto simp: add_name_def)

lemma union_of_set [simp]: "set (union_of xs ys) = set xs \<union> set ys"
  unfolding union_of_def by (induction ys arbitrary: xs) auto

lemma trail_of_set: "set (trail_of states) = (\<Union>(n, st) \<in> set states. set (ip_created_commits st))"
proof -
  have "set (fold (\<lambda>(_, st) trail. union_of trail (ip_created_commits st)) states t) =
      set t \<union> (\<Union>(n, st) \<in> set states. set (ip_created_commits st))" for t
    by (induction states arbitrary: t) auto
  then show ?thesis by (simp add: trail_of_def)
qed

lemma candidate_recorded_facts [simp]:
  "ip_release_commit (candidate_recorded sha trail st) = sha"
  "step_completed (candidate_recorded sha trail st) step_candidate_pushed"
  "set (ip_created_commits (candidate_recorded sha trail st)) = set (ip_created_commits st) \<union> set trail"
  by (simp_all add: candidate_recorded_def) (simp add: complete_step_def Let_def)

lemma judge_member_Inr:
  "judge_member B sha remote needs (n, st) b = (Inr s, b') \<Longrightarrow> fst s = n"
  by (auto simp: judge_member_def batch_refuse_def acatch_Inr abind_Inr Let_def split: sum.splits if_splits)

lemma judge_fold:
  "afold (\<lambda>out s. abind (judge_member B sha remote needs s) (\<lambda>s. aret (out @ [s]))) out states b = (Inr judged, b') \<Longrightarrow>
   map fst judged = map fst out @ map fst states"
proof (induction states arbitrary: out b)
  case (Cons s states)
  obtain n st where s: "s = (n, st)" by fastforce
  from Cons.prems have "\<exists>t b1. judge_member B sha remote needs (n, st) b = (Inr t, b1) \<and>
      afold (\<lambda>out s. abind (judge_member B sha remote needs s) (\<lambda>s. aret (out @ [s]))) (out @ [t]) states b1 = (Inr judged, b')"
    unfolding s afold.simps abind_Inr by auto
  then obtain t b1 where j: "judge_member B sha remote needs (n, st) b = (Inr t, b1)"
    and rest: "afold (\<lambda>out s. abind (judge_member B sha remote needs s) (\<lambda>s. aret (out @ [s]))) (out @ [t]) states b1 = (Inr judged, b')"
    by blast
  from Cons.IH [OF rest] judge_member_Inr [OF j] show ?case by (simp add: s)
qed simp

lemma judge_members_Inr: "judge_members B sha remote needs states b = (Inr judged, b') \<Longrightarrow> map fst judged = map fst states"
  unfolding judge_members_def by (drule judge_fold) simp

text \<open>
  C40. When a batch's candidate is published, the run state of every releasable of the batch records
  that candidate as its release commit and as pushed, and takes the commits every other releasable of
  the batch made among its own, so no releasable's guard takes another's commit for somebody else's.
\<close>

theorem publish_recorded:
  assumes run: "publish_batch_candidate B pending pin b = (Inr sha, b')" and n: "n \<in> set pending" and m: "m \<in> set pending"
  shows "\<exists>st st0. br_files b' n = Some st \<and> ip_release_commit st = sha \<and> step_completed st step_candidate_pushed \<and>
     br_files b m = Some st0 \<and> set (ip_created_commits st0) \<subseteq> set (ip_created_commits st)"
proof -
  from run obtain b1 states b2 remote needs b3 judged b4 b5 where a: "walk_call (advance (bx_shared B)) b = (Inr (), b1)"
    and s: "batch_states pending b1 = (Inr states, b2)" and j: "judge_members B sha remote needs states b3 = (Inr judged, b4)"
    and e: "record_candidate sha (trail_of states) judged b5 = (Inr (), b')"
    unfolding publish_batch_candidate_def Let_def by (auto simp: abind_Inr aguard_Inr)
  have files: "br_files b1 = br_files b" using walk_call_files [OF a] .
  note states = batch_states_Inr [OF s, unfolded files]
  have "map fst judged = pending" using judge_members_Inr [OF j] states by (simp add: comp_def)
  then have names: "fst ` set judged = set pending" by (metis list.set_map)
  let ?Q = "\<lambda>st. ip_release_commit st = sha \<and> step_completed st step_candidate_pushed \<and> set (trail_of states) \<subseteq> set (ip_created_commits st)"
  from saved_each [OF e [unfolded record_candidate_def], of ?Q] names n obtain st where "br_files b' n = Some st" "?Q st" by auto
  moreover from states m have "br_files b m \<noteq> None" "(m, the (br_files b m)) \<in> set states" by auto
  then obtain st0 where "br_files b m = Some st0" "set (ip_created_commits st0) \<subseteq> set (trail_of states)"
    by (fastforce simp: trail_of_set)
  ultimately show ?thesis by blast
qed

theorem publish_recorded_witness:
  "\<exists>b st st0. publish_batch_candidate (sample_batch CiGreen) [''app'', ''lib''] (cid 0)
       (sample_run (\<lambda>n. Some (sample_pending n)) None) = (Inr (cid 0), b) \<and>
     br_files b ''app'' = Some st \<and> ip_release_commit st = cid 0 \<and> step_completed st step_candidate_pushed \<and>
     sample_pending ''lib'' = st0 \<and> set (ip_created_commits st0) \<subseteq> set (ip_created_commits st)"
proof -
  let ?b = "sample_run (\<lambda>n. Some (sample_pending n)) None"
  have v: "parse_version (ip_version (sample_pending n)) = Inr (Version 1 0 0)" for n
    by (simp add: sample_pending_def starting_state_def sample_validated_def parse_version_string)
  have "\<exists>b. publish_batch_candidate (sample_batch CiGreen) [''app'', ''lib''] (cid 0) ?b = (Inr (cid 0), b)"
  proof -
    have world: "next_turn w = (None, w)" if "w_script w = []" for w :: "(string, string list) world"
      using that by (simp add: next_turn_def)
    have fields: "cx_branch (bx_shared (sample_batch CiGreen)) = ''main''" "cx_graph (bx_shared (sample_batch CiGreen)) = line_graph"
      "cid 0 \<noteq> []" "[] \<noteq> cid 0" "ip_run_all_dispatch_for (sample_pending n) = []" for n
      by (simp_all add: sample_batch_def sample_shared_def sample_context_def sample_pending_def starting_state_def cid_def)
    have known: "gr_known line_graph (cid 0)" by code_simp
    have j: "judge_member (sample_batch CiGreen) (cid 0) (cid 0) False (n, sample_pending n) b = (Inr (n, sample_pending n), b)"
      for n and b :: "(string, string list) batch_run"
      by (simp add: judge_member_def v acatch_def walk_call_def judge_candidate_window_def sample_batch_def sample_member_def
          sample_context_def with_error_def)
    have p: "state_problems (candidate_recorded c t (sample_pending n)) = []" "ip_releasable (candidate_recorded c t (sample_pending n)) = n"
      if "n \<noteq> []" for c t n
      using that by (auto simp: cid_def state_problems_def candidate_recorded_def sample_pending_def starting_state_def complete_step_def
          required_texts_def failed_step_def sample_validated_def Let_def version_string_def)
    show ?thesis
      by (simp add: publish_batch_candidate_def Let_def abind_def acatch_def walk_call_def advance_def git_call_def checkout_head_def
          git_read_def world with_error_def get_walk_def batch_states_def load_state_def member_call_def focus_def sample_run_def
          sample_walk_def foreign_commits_def commits_since_def remote_ref_def branch_ref_def has_prefix_def fields known
          judge_members_def j record_candidate_def save_member_def save_state_def p git_write_def)
  qed
  then obtain b where b: "publish_batch_candidate (sample_batch CiGreen) [''app'', ''lib''] (cid 0) ?b = (Inr (cid 0), b)" by blast
  from publish_recorded [OF b, of "''app''" "''lib''"] b show ?thesis by (auto simp: sample_run_def)
qed

section \<open>A verdict that refuses\<close>

lemma fail_step_marks [simp]: "failed_step (fail_step step message st) step" "\<not> step_completed (fail_step step message st) step"
  by (simp_all add: fail_step_def failed_step_def step_completed_def)

lemma fail_candidate_Inl:
  assumes run: "fail_candidate B pending e b = (Inl (BatchStopped d), b')" and n: "n \<in> set pending"
  shows "\<exists>st. br_files b' n = Some st \<and> failed_step st step_ci_verified \<and> \<not> step_completed st step_ci_verified"
proof -
  let ?save = "\<lambda>states. aeach (\<lambda>(n, st). save_member n (fail_step step_ci_verified (batch_text B e) st)) states"
  from run have "\<exists>u. abind (batch_states pending) ?save b = (Inr u, b')"
    by (auto simp: fail_candidate_def acatch_def split: prod.splits sum.splits)
  then obtain u states b2 where s: "batch_states pending b = (Inr states, b2)" and e: "?save states b2 = (Inr u, b')"
    by (auto simp: abind_Inr)
  let ?Q = "\<lambda>st. failed_step st step_ci_verified \<and> \<not> step_completed st step_ci_verified"
  from saved_each [OF e, of ?Q] batch_states_Inr [OF s] n show ?thesis by fastforce
qed

text \<open>
  When CI does not pass the candidate of a batch, the refusal is recorded against the ci-verified
  step of every releasable of the batch, none of which counts as verified.
\<close>

theorem gate_recorded:
  assumes run: "gate_batch_candidate B pending c b = (Inl (BatchStopped (Refuse (CiRefused v))), b')" and n: "n \<in> set pending"
  shows "\<exists>st. br_files b' n = Some st \<and> failed_step st step_ci_verified \<and> \<not> step_completed st step_ci_verified"
proof -
  let ?e = "BatchStopped (Refuse (CiRefused v))"
  have op: "walk_call (op_call [] m) s \<noteq> (Inl ?e, t)" for m :: "('b, 'a, 'x) act" and s t
    by (auto simp: walk_call_def op_call_def with_error_def split: prod.splits option.splits sum.splits)
  have filters: "aeach (\<lambda>n. walk_call (op_call [] (f n))) ns s \<noteq> (Inl ?e, t)" for f :: "string \<Rightarrow> ('b, 'a, unit) act" and ns s t
    by (induction ns arbitrary: s) (auto simp: abind_Inl op)
  have logged: "walk_call (log_event ev) s \<noteq> (Inl e, t)" for ev s e t by (simp add: walk_call_def log_event_def set_walk_def)
  from run obtain b1 x where "(if ci_passes x then aret () else fail_candidate B pending (BatchStopped (Refuse (CiRefused x)))) b1 = (Inl ?e, b')"
    unfolding gate_batch_candidate_def abind_Inl by (auto simp: op filters logged)
  then show ?thesis using fail_candidate_Inl [OF _ n] by (auto split: if_splits)
qed

theorem gate_recorded_witness:
  "\<exists>b st. gate_batch_candidate (sample_batch CiRed) [''app'', ''lib''] (cid 0)
       (sample_run (\<lambda>n. Some (sample_pending n)) None) = (Inl (BatchStopped (Refuse (CiRefused CiRed))), b) \<and>
     br_files b ''lib'' = Some st \<and> failed_step st step_ci_verified \<and> \<not> step_completed st step_ci_verified"
proof -
  let ?run = "gate_batch_candidate (sample_batch CiRed) [''app'', ''lib''] (cid 0) (sample_run (\<lambda>n. Some (sample_pending n)) None)"
  have "fst ?run = Inl (BatchStopped (Refuse (CiRefused CiRed)))" by code_simp
  then obtain b where b: "?run = (Inl (BatchStopped (Refuse (CiRefused CiRed))), b)" by (metis prod.collapse)
  from gate_recorded [OF b, of "''lib''"] b show ?thesis by auto
qed

section \<open>The life of a plan\<close>

definition has_plan :: "plan_item list \<Rightarrow> ('e, 'w) batch_run \<Rightarrow> bool" where
  "has_plan items b \<longleftrightarrow> (\<exists>p. br_plan b = Some p \<and> bp_items p = items)"

definition plan_settled :: "plan_item list \<Rightarrow> ('e, 'w) batch_run \<Rightarrow> bool" where
  "plan_settled items b \<longleftrightarrow> has_plan items b \<or> (br_plan b = None \<and> (\<forall>it \<in> set items. br_files b (pi_name it) = None))"

lemma keeps_acatch [keeps_intros]: "keeps I m \<Longrightarrow> (\<And>e. keeps I (f e)) \<Longrightarrow> (\<And>x. keeps I (g x)) \<Longrightarrow> keeps I (acatch m f g)"
  unfolding keeps_def triple_def by (auto elim!: wp_mono simp: wp_acatch)

lemma keeps_sum [keeps_intros]:
  "(\<And>e. keeps I (f e)) \<Longrightarrow> (\<And>y. keeps I (g y)) \<Longrightarrow> keeps I (case z of Inl e \<Rightarrow> f e | Inr y \<Rightarrow> g y)"
  by (cases z) simp_all

lemma keeps_prod_fun [keeps_intros]: "(\<And>a b. keeps I (f a b y)) \<Longrightarrow> keeps I ((case p of (a, b) \<Rightarrow> f a b) y)"
  by (cases p) simp

lemma keeps_let [keeps_intros]: "keeps I (f y) \<Longrightarrow> keeps I (let z = y in f z)"
  by simp

lemma keeps_refuse [keeps_intros]: "keeps I (batch_refuse r)"
  unfolding batch_refuse_def by (rule keeps_afail)

lemma keeps_walk_call [keeps_intros]: "keeps (has_plan items) (walk_call m)"
  and keeps_member_call [keeps_intros]: "keeps (has_plan items) (member_call n m)"
  and keeps_load_plan [keeps_intros]: "keeps (has_plan items) load_plan"
  by (rule keepsI, auto simp: walk_call_def member_call_def load_plan_def has_plan_def split: prod.splits)+

lemma keeps_states [keeps_intros]: "keeps (has_plan items) (load_state n)" "keeps (has_plan items) (save_member n st)"
  unfolding load_state_def save_member_def by (rule keeps_member_call)+

lemma keeps_save_plan: "bp_items p = items \<Longrightarrow> keeps (has_plan items) (save_plan p)"
  unfolding save_plan_def
  by (intro keeps_intros, rule keepsI) (auto simp: write_plan_def has_plan_def Let_def split: prod.splits option.splits if_splits)

lemma keeps_batch_states [keeps_intros]: "keeps (has_plan items) (batch_states ns)"
  unfolding batch_states_def by (intro keeps_intros)

lemma keeps_publish: "keeps (has_plan items) (publish_batch_candidate B pending pin)"
  unfolding publish_batch_candidate_def judge_members_def record_candidate_def judge_member_def
  by (intro keeps_intros)

lemma keeps_gate: "keeps (has_plan items) (gate_batch_candidate B pending c)"
  unfolding gate_batch_candidate_def fail_candidate_def by (intro keeps_intros)

lemma keeps_passes:
  "keeps (has_plan items) (first_pass B released stranded)" "keeps (has_plan items) (second_pass B pending c)"
  unfolding first_pass_def release_batch_member_def second_pass_def complete_batch_member_def branch_tip_def
  by (intro keeps_intros)+

lemma keeps_readings:
  "keeps (has_plan items) (released_items B its)" "keeps (has_plan items) (stranded_items its)"
  "keeps (has_plan items) (remaining_states its)" "keeps (has_plan items) (root_selfdoc B)"
  unfolding released_items_def item_released_def stranded_items_def in_progress_items_def remaining_states_def root_selfdoc_def
  by (intro keeps_intros)+

text \<open>Once no release of the plan is in progress the plan may go.\<close>

definition no_states :: "plan_item list \<Rightarrow> ('e, 'w) batch_run \<Rightarrow> bool" where
  "no_states items b \<longleftrightarrow> (\<forall>it \<in> set items. br_files b (pi_name it) = None)"

definition plan_free :: "plan_item list \<Rightarrow> ('e, 'w) batch_run \<Rightarrow> bool" where
  "plan_free items b \<longleftrightarrow> no_states items b \<and> (has_plan items b \<or> br_plan b = None)"

lemma plan_free_settled: "plan_free items b \<Longrightarrow> plan_settled items b"
  by (auto simp: plan_free_def plan_settled_def no_states_def)

lemma keeps_free [keeps_intros]: "keeps (plan_free items) (walk_call m)" "keeps (plan_free items) (write_plan None)"
  by (rule keepsI, auto simp: walk_call_def write_plan_def plan_free_def no_states_def has_plan_def Let_def
      split: prod.splits option.splits if_splits)+

lemma archive_free: "keeps (plan_free items) (archive_batch B)"
  unfolding archive_batch_def by (intro keeps_intros)

lemma load_fold:
  "afold (\<lambda>out it. abind (load_state (f it)) (\<lambda>found. aret (g out it found))) out items b = (Inr r, b') \<Longrightarrow>
   br_files b' = br_files b \<and> r = fold (\<lambda>it out. g out it (br_files b (f it))) items out"
proof (induction items arbitrary: out b)
  case (Cons it items)
  let ?f = "\<lambda>out it. abind (load_state (f it)) (\<lambda>found. aret (g out it found))"
  from Cons.prems have "\<exists>found b1. load_state (f it) b = (Inr found, b1) \<and> afold ?f (g out it found) items b1 = (Inr r, b')"
    unfolding afold.simps abind_Inr by auto
  then obtain found b1 where l: "load_state (f it) b = (Inr found, b1)" and r: "afold ?f (g out it found) items b1 = (Inr r, b')"
    by blast
  from Cons.IH [OF r] load_state_Inr [OF l] show ?case by simp
qed simp

lemma remaining_Inr:
  assumes "remaining_states items b = (Inr [], b')"
  shows "br_files b' = br_files b \<and> no_states items b"
proof -
  let ?g = "\<lambda>it out. if br_files b (pi_name it) = None then out else out @ [pi_name it]"
  have n: "fold ?g items out = [] \<Longrightarrow> out = [] \<and> no_states items b" for out
  proof (induction items arbitrary: out)
    case (Cons it items)
    from Cons.prems have "fold ?g items (?g it out) = []" by simp
    from Cons.IH [OF this] show ?case by (cases "br_files b (pi_name it)") (simp_all add: no_states_def)
  qed (simp add: no_states_def)
  have l: "br_files b' = br_files b \<and> [] = fold ?g items []"
    by (rule load_fold [OF assms [unfolded remaining_states_def]])
  from n [OF l [THEN conjunct2, symmetric]] l show ?thesis by simp
qed

lemma no_states_Inr:
  "aeach no_state_remains items b = (Inr u, b') \<Longrightarrow> br_files b' = br_files b \<and> no_states items b'"
proof (induction items arbitrary: b)
  case (Cons it items)
  from Cons.prems have "\<exists>b1. load_state (pi_name it) b = (Inr None, b1) \<and> aeach no_state_remains items b1 = (Inr u, b')"
    unfolding aeach.simps by (simp only: no_state_remains_def act_Inr) auto
  then obtain b1 where l: "load_state (pi_name it) b = (Inr None, b1)" and r: "aeach no_state_remains items b1 = (Inr u, b')"
    by blast
  from Cons.IH [OF r] load_state_Inr [OF l] show ?case by (auto simp: no_states_def)
qed (simp add: no_states_def)

lemma free_then:
  assumes m: "keeps (has_plan items) m" and b: "has_plan items b"
    and f: "\<And>y t. m b = (Inr y, t) \<Longrightarrow> has_plan items t \<Longrightarrow> plan_settled items (snd (f y t))"
  shows "plan_settled items (snd (abind m f b))"
proof (cases "m b")
  case (Pair r t)
  with keeps_run [OF m b] have "has_plan items t" by blast
  with Pair f show ?thesis by (cases r) (auto simp: abind_def plan_settled_def)
qed

lemma free_guard: "has_plan items b \<Longrightarrow> (\<not> bad \<Longrightarrow> plan_settled items (snd (m b))) \<Longrightarrow> plan_settled items (snd (aguard bad e m b))"
  by (cases bad) (simp_all add: plan_settled_def)

lemma archive_settles: "has_plan items b \<Longrightarrow> no_states items b \<Longrightarrow> plan_settled items (snd (archive_batch B b))"
  using keeps_run [OF archive_free _ prod.collapse [symmetric], of items b B] by (simp add: plan_free_def plan_free_settled)

lemma finish_settles:
  fixes B :: "('e, 'w) batch_context"
  assumes "has_plan items b" "bp_items p = items"
  shows "plan_settled items (snd (finish_completed_plan B p b))"
  unfolding finish_completed_plan_def
proof (rule free_then [OF _ assms(1)], simp only: assms(2), rule keeps_readings, rule free_guard)
  fix left and t :: "('e, 'w) batch_run" assume l: "remaining_states (bp_items p) b = (Inr left, t)" and t: "has_plan items t" and "\<not> left \<noteq> []"
  then have n: "no_states items t" using remaining_Inr [of "bp_items p" b t] assms(2) by (simp add: no_states_def)
  have "keeps (plan_free items) (abind (write_plan None) (\<lambda>_. batch_refuse LeftoverPlan :: ('e, 'w, unit) batch_act))"
    by (intro keeps_intros)
  from keeps_run [OF this, of t] n t
  have "plan_settled items (snd (abind (write_plan None) (\<lambda>_. batch_refuse LeftoverPlan :: ('e, 'w, unit) batch_act) t))"
    by (metis plan_free_def plan_free_settled prod.collapse)
  with archive_settles [OF t n]
  show "plan_settled items (snd ((if bp_batch_file p \<noteq> [] \<and> bp_batch_file p = bx_blob B then archive_batch B
     else abind (write_plan None) (\<lambda>_. batch_refuse LeftoverPlan)) t))"
    by simp
qed

lemma archive_complete_settles:
  fixes B :: "('e, 'w) batch_context"
  assumes "has_plan items b" "bp_items p = items"
  shows "plan_settled items (snd (archive_if_complete B p b))"
  unfolding archive_if_complete_def
proof (rule free_then [OF keeps_readings(1) assms(1)], rule free_guard)
  fix released and t :: "('e, 'w) batch_run" assume t: "has_plan items t"
  have k: "keeps (has_plan items) (aeach no_state_remains (bp_items p))"
    unfolding no_state_remains_def by (intro keeps_intros)
  show "plan_settled items (snd (abind (aeach no_state_remains (bp_items p)) (\<lambda>_. archive_batch B) t))"
    by (rule free_then [OF k t], rule archive_settles) (auto simp: assms(2) dest: no_states_Inr)
qed

lemma load_plan_Inr: "load_plan b = (Inr plan, b') \<Longrightarrow> plan = br_plan b \<and> br_plan b' = br_plan b \<and> br_files b' = br_files b"
  by (auto simp: load_plan_def split: prod.splits option.splits)

lemma keeps_plan_made: "keeps (has_plan (bp_items p)) (validate_and_plan B (Some p) released stranded)"
  unfolding validate_and_plan_def by (simp, intro keeps_intros)

lemma made_plan: "validate_and_plan B (Some p) released stranded b = (Inr q, b') \<Longrightarrow> q = p"
  by (auto simp: validate_and_plan_def abind_Inr)

lemma pending_settles:
  assumes b: "has_plan items b" and p: "bp_items p = items"
  shows "plan_settled items (snd (release_pending B p pending pin b))"
proof -
  have k: "keeps (has_plan items) (if pending = [] then aret [] else
      abind (publish_batch_candidate B pending pin) (\<lambda>c. abind (gate_batch_candidate B pending c) (\<lambda>_. second_pass B pending c)))"
    by (intro keeps_intros keeps_publish keeps_gate keeps_passes)
  show ?thesis
    unfolding release_pending_def
    by (rule free_then [OF k b], rule free_guard) (simp_all add: archive_complete_settles p)
qed

lemma planned_settles:
  assumes b: "has_plan items b" and p: "bp_items p = items"
  shows "plan_settled items (snd (run_planned B (Some p) released b))"
proof -
  let ?blob = "if bp_batch_file p \<noteq> bx_blob B
    then (let p = p\<lparr>bp_batch_file := bx_blob B\<rparr> in abind (save_plan p) (\<lambda>_. aret (Some p))) else aret (Some p)"
  have k: "keeps (has_plan items) ?blob"
    unfolding Let_def by (intro keeps_intros keeps_save_plan) (simp add: p)
  have q: "\<exists>q. plan = Some q \<and> bp_items q = items" if "?blob s = (Inr plan, t)" for plan s t
    using that p by (auto simp: Let_def abind_Inr split: if_splits)
  have rest: "plan_settled items (snd (abind (case plan of None \<Rightarrow> aret [] | Some p \<Rightarrow> stranded_items (bp_items p)) (\<lambda>stranded.
     abind (validate_and_plan B plan released stranded) (\<lambda>p.
     abind (root_selfdoc B) (\<lambda>_.
     abind (walk_call (get_walk x_tip)) (\<lambda>pin.
     abind (first_pass B released stranded) (\<lambda>pending.
     release_pending B p pending pin))))) t))"
    if "?blob b = (Inr plan, t)" "has_plan items t" for plan t
  proof -
    from q [OF that(1)] obtain r where r: "plan = Some r" "bp_items r = items" by blast
    have v: "keeps (has_plan items) (validate_and_plan B (Some r) released stranded)" for stranded
      using keeps_plan_made [of r] r(2) by simp
    show ?thesis
      unfolding r(1) option.case
      by (rule free_then [OF keeps_readings(2) that(2)], rule free_then [OF v], assumption,
          rule free_then [OF keeps_readings(4)], assumption, rule free_then [OF keeps_walk_call], assumption,
          rule free_then [OF keeps_passes(1)], assumption, rule pending_settles)
         (auto dest!: made_plan simp: r(2))
  qed
  show ?thesis
    unfolding run_planned_def option.case by (rule free_then [OF k b]) (rule rest)
qed

text \<open>
  C38. A run of a batch release never replaces the plan it found: wherever it stops, the plan is still
  there with the same releasables, versions and tags, or it is gone and none of them has a release in
  progress.
\<close>

theorem batch_plan_kept:
  assumes "br_plan b = Some p"
  shows "plan_settled (bp_items p) (snd (run_batch B b))"
proof -
  have b: "has_plan (bp_items p) b" using assms by (simp add: has_plan_def)
  have released: "keeps (has_plan (bp_items p)) (case plan of None \<Rightarrow> aret []
      | Some p \<Rightarrow> aguard (plan_mismatches (bx_tables B) p \<noteq> []) (BatchRefused (PlanMismatch (plan_mismatches (bx_tables B) p)))
          (released_items B (bp_items p)))" for plan
    by (intro keeps_intros keeps_readings)
  show ?thesis
    unfolding run_batch_def
    by (rule free_then [OF keeps_load_plan b], rule free_then [OF released], assumption)
       (auto dest!: load_plan_Inr simp: assms intro: finish_settles planned_settles)
qed

theorem batch_plan_kept_witness:
  "plan_settled (bp_items sample_plan) (snd (run_batch (sample_batch CiGreen) (sample_run (\<lambda>_. None) (Some sample_plan))))"
  by (rule batch_plan_kept) (simp add: sample_run_def)

section \<open>A release past its verdict\<close>

definition inert :: "('e, 'w) batch_run \<Rightarrow> ('e, 'w) batch_run \<Rightarrow> bool" where
  "inert b c \<longleftrightarrow> br_files c = br_files b \<and> w_log (x_world (br_walk c)) = w_log (x_world (br_walk b))"

definition stays :: "('e, 'w) batch_run \<Rightarrow> ('e batch_error + unit) \<times> ('e, 'w) batch_run \<Rightarrow> bool" where
  "stays b out \<longleftrightarrow> isl (fst out) \<and> inert b (snd out)"

lemma inert_reflp: "reflp inert" and inert_transp: "transp inert"
  by (auto simp: inert_def reflp_def transp_def)

lemma inert_walk: "acts still m \<Longrightarrow> acts inert (walk_call m)"
  by (auto simp: acts_def inert_def walk_call_def still_def split: prod.splits) (metis snd_conv)

lemma inert_load: "acts inert (load_state n)"
proof -
  have "w_log (x_world (br_walk (snd (load_state n b)))) = w_log (x_world (br_walk b))" for b :: "('a, 'b) batch_run"
    using grows_files(1) [of "\<lambda>_. False" n] by (auto simp: acts_def grows_def list_all_iff dest!: spec [of _ b])
  moreover have "br_files (snd (load_state n b)) = br_files b" for b :: "('a, 'b) batch_run"
    using load_state_run [OF prod.collapse [symmetric], of n b] by simp
  ultimately show ?thesis by (simp add: acts_def inert_def)
qed

lemma inert_plan: "acts inert load_plan" "acts inert (save_plan q)"
proof -
  show "acts inert load_plan"
    by (auto simp: acts_def load_plan_def inert_def split: prod.splits dest: log_next_turn)
  show "acts inert (save_plan q)"
    by (auto simp: acts_def save_plan_def aguard_def afail_def write_plan_def inert_def Let_def
        split: prod.splits option.splits dest: log_next_turn)
qed

lemmas inert_intros = acts_abind [OF inert_transp] acts_acatch [OF inert_transp] acts_aguard [OF inert_reflp]
  acts_aret [OF inert_reflp] acts_afail [OF inert_reflp] acts_afold [OF inert_reflp inert_transp] acts_if inert_load inert_plan inert_walk

lemma released_inert: "acts inert (released_items B items)"
  unfolding released_items_def item_released_def
  by (intro inert_intros still_intros still_git)

lemma inert_then:
  assumes m: "acts inert m" and f: "\<And>y t. m b = (Inr y, t) \<Longrightarrow> inert b t \<Longrightarrow> stays t (f y t)"
  shows "stays b (abind m f b)"
proof (cases "m b")
  case (Pair r t)
  with actsD [OF m Pair] f transpD [OF inert_transp] show ?thesis by (cases r) (auto simp: abind_def stays_def)
qed

lemma stays_first: "isl (fst (m b)) \<Longrightarrow> inert b (snd (m b)) \<Longrightarrow> stays b (abind m f b)"
  by (cases "m b") (auto simp: stays_def abind_def split: sum.split)

lemma sorted_passed:
  assumes "it \<in> set items" "files (pi_name it) = Some st" "step_completed st step_ci_verified"
  shows "pi_name it \<in> set (snd (fold (\<lambda>it out. sort_item out it (files (pi_name it))) items out))"
proof -
  let ?f = "\<lambda>it out. sort_item out it (files (pi_name it))"
  have step: "set (snd out) \<subseteq> set (snd (sort_item out it found))" for out it found
    by (cases out; cases found) auto
  have mono: "set (snd out) \<subseteq> set (snd (fold ?f items out))" for items out
  proof (induction items arbitrary: out)
    case (Cons it items)
    from step [of out it "files (pi_name it)"] Cons.IH [of "?f it out"] show ?case by auto
  qed simp
  show ?thesis
    using assms(1)
  proof (induction items arbitrary: out)
    case (Cons it' items)
    show ?case
    proof (cases "it' = it")
      case True
      have "pi_name it \<in> set (snd (?f it out))" using assms(2,3) by (cases out) simp
      with mono [of "?f it out" items] True show ?thesis by auto
    qed (use Cons in simp)
  qed simp
qed

lemma stranded_refuses:
  assumes it: "it \<in> set items" "br_files b (pi_name it) = Some st" "step_completed st step_ci_verified"
  shows "isl (fst (stranded_items items b)) \<and> inert b (snd (stranded_items items b))"
proof (cases "in_progress_items items b")
  case (Pair r t)
  have "acts inert (in_progress_items items)" unfolding in_progress_items_def by (intro inert_intros)
  from actsD [OF this Pair] have i: "inert b t" .
  show ?thesis
  proof (cases r)
    case (Inl e)
    with Pair i show ?thesis by (simp add: stranded_items_def abind_def)
  next
    case (Inr out)
    with Pair have "out = fold (\<lambda>it out. sort_item out it (br_files b (pi_name it))) items ([], [])"
      using load_fold [of pi_name sort_item "([], [])" items b out t] by (simp add: in_progress_items_def)
    with sorted_passed [where files = "br_files b", OF it] have "pi_name it \<in> set (snd out)" by simp
    with Pair Inr i show ?thesis by (cases out) (auto simp: stranded_items_def abind_def batch_refuse_def)
  qed
qed

lemma finish_refuses:
  assumes it: "it \<in> set (bp_items p)" "br_files b (pi_name it) = Some st"
  shows "stays b (finish_completed_plan B p b)"
  unfolding finish_completed_plan_def
proof (rule inert_then)
  show "acts inert (remaining_states (bp_items p))" unfolding remaining_states_def by (intro inert_intros)
  fix rest t assume "remaining_states (bp_items p) b = (Inr rest, t)"
  then have "rest \<noteq> []" using remaining_Inr [of "bp_items p" b t] it by (auto simp: no_states_def)
  then show "stays t (aguard (rest \<noteq> []) (BatchRefused (StatesRemain rest)) (if bp_batch_file p \<noteq> [] \<and> bp_batch_file p = bx_blob B
      then archive_batch B else abind (write_plan None) (\<lambda>_. batch_refuse LeftoverPlan)) t)"
    by (simp add: stays_def inert_def)
qed

lemma planned_refuses:
  assumes it: "it \<in> set (bp_items p)" "br_files b (pi_name it) = Some st" "step_completed st step_ci_verified"
  shows "stays b (run_planned B (Some p) released b)"
proof -
  let ?blob = "if bp_batch_file p \<noteq> bx_blob B
    then (let p = p\<lparr>bp_batch_file := bx_blob B\<rparr> in abind (save_plan p) (\<lambda>_. aret (Some p))) else aret (Some p)"
  have k: "acts inert ?blob" unfolding Let_def by (intro inert_intros)
  have q: "\<exists>q. plan = Some q \<and> bp_items q = bp_items p" if "?blob s = (Inr plan, t)" for plan s t
    using that by (auto simp: Let_def abind_Inr split: if_splits)
  have rest: "stays t (abind (case plan of None \<Rightarrow> aret [] | Some p \<Rightarrow> stranded_items (bp_items p)) (f plan) t)"
    if "?blob b = (Inr plan, t)" "inert b t" for plan t and f :: "batch_plan option \<Rightarrow> string list \<Rightarrow> ('a, 'b, unit) batch_act"
  proof -
    from q [OF that(1)] obtain r where r: "plan = Some r" "bp_items r = bp_items p" by blast
    show ?thesis
      unfolding r(1) option.case using stranded_refuses [of it "bp_items r" t st] it that(2)
      by (intro stays_first) (simp_all add: r(2) inert_def)
  qed
  show ?thesis
    unfolding run_planned_def option.case by (rule inert_then [OF k]) (rule rest)
qed

text \<open>
  C39. A run of a batch release that finds a release of its plan in progress past the CI verdict
  refuses: no run state changes, and nothing is pushed, judged, tagged or published, so no new
  candidate moves the commit that verdict is about.
\<close>

theorem sealed_release_stays:
  assumes "br_plan b = Some p" "it \<in> set (bp_items p)"
    and "br_files b (pi_name it) = Some st" "step_completed st step_ci_verified"
  shows "stays b (run_batch B b)"
proof -
  have released: "acts inert (case plan of None \<Rightarrow> aret []
      | Some p \<Rightarrow> aguard (plan_mismatches (bx_tables B) p \<noteq> []) (BatchRefused (PlanMismatch (plan_mismatches (bx_tables B) p)))
          (released_items B (bp_items p)))" for plan
    by (cases plan) (simp_all add: inert_intros released_inert)
  show ?thesis
    unfolding run_batch_def
  proof (rule inert_then [OF inert_plan(1)], rule inert_then [OF released])
    fix plan t released t'
    assume l: "load_plan b = (Inr plan, t)" and "inert b t" "inert t t'"
    then have f: "br_files t' (pi_name it) = Some st" using assms(3) by (simp add: inert_def)
    have "plan = Some p" using load_plan_Inr [OF l] assms(1) by simp
    then show "stays t' ((case plan of Some p \<Rightarrow> if length released = length (bp_items p) then finish_completed_plan B p
        else run_planned B plan released | None \<Rightarrow> run_planned B None released) t')"
      using finish_refuses [OF assms(2) f] planned_refuses [OF assms(2) f assms(4)] by simp
  qed
qed

definition sealed_run :: "(string, string list) batch_run" where
  "sealed_run = sample_run (\<lambda>n. if n = ''lib'' then Some (complete_step step_ci_verified (sample_pending n)) else None)
     (Some sample_plan)"

theorem sealed_release_stays_witness: "stays sealed_run (run_batch (sample_batch CiGreen) sealed_run)"
proof (rule sealed_release_stays)
  show "br_plan sealed_run = Some sample_plan" by (simp add: sealed_run_def sample_run_def)
  show "planned_item (sample_batch CiGreen) ''lib'' (sample_validated ''lib'') \<in> set (bp_items sample_plan)"
    by (simp add: sample_plan_def)
  show "br_files sealed_run (pi_name (planned_item (sample_batch CiGreen) ''lib'' (sample_validated ''lib''))) =
      Some (complete_step step_ci_verified (sample_pending ''lib''))"
    by (simp add: sealed_run_def sample_run_def planned_item_def)
qed simp

end
