(* ===== verification/Changelog_Markdown.thy ===== *)
theory Changelog_Markdown
  imports Changelog_Coverage Go_Regex
begin

text \<open>
  The generated changelogs (internal/changelog/generate.go): the section of a version, a releasable's
  CHANGELOG.md, a workspace's roll-up, their regeneration on the disk, and the extraction of a version's
  section from a CHANGELOG.md. Texts are bytes.
\<close>

section \<open>Sections\<close>

definition line_feed :: string where "line_feed = [CHR 0x0A]"

definition never_released_note :: string where
  "never_released_note = ''**Never released.** This version number exists in the release record, but no release was ever published under it.''"

definition retracted_note :: "string \<Rightarrow> string" where
  "retracted_note by_version = ''**Retracted** by '' @ by_version @
     ''. This version was published and is retracted on the Go module proxy; it does not count as a release.''"

definition type_groups :: "(string \<times> string) list" where
  "type_groups = [(type_breaking, ''Breaking''), (type_feature, ''Features''), (type_fix, ''Fixes'')]"

record section_meta =
  sm_description :: string
  sm_context :: string
  sm_bump :: bump
  sm_never_released :: bool
  sm_retracted_by :: string

definition empty_meta :: section_meta where
  "empty_meta = \<lparr>sm_description = [], sm_context = [], sm_bump = [], sm_never_released = False, sm_retracted_by = []\<rparr>"

definition heading :: "nat \<Rightarrow> string \<Rightarrow> string" where
  "heading depth title = replicate depth (CHR 0x23) @ '' '' @ title"

definition entry_text :: "change \<Rightarrow> string" where
  "entry_text e =
     (let packages = (case ch_packages e of None \<Rightarrow> [] | Some ps \<Rightarrow> ps) in
      if packages = [] then ch_description e
      else ''['' @ join '', '' (sort packages) @ ''] '' @ ch_description e)"

definition group_lines :: "nat \<Rightarrow> change list \<Rightarrow> string \<times> string \<Rightarrow> string list" where
  "group_lines depth facing g =
     (let texts = map entry_text (filter (\<lambda>e. ch_type e = fst g) facing) in
      if texts = [] then [] else [[], heading (Suc depth) (snd g), []] @ map (\<lambda>t. ''- '' @ t) texts)"

definition meta_parts :: "section_meta \<Rightarrow> string list" where
  "meta_parts m =
     (if sm_never_released m then [[], never_released_note] else [])
     @ (if sm_retracted_by m \<noteq> [] then [[], retracted_note (sm_retracted_by m)] else [])
     @ (if sm_description m \<noteq> [] then [[], sm_description m] else [])
     @ (if sm_context m \<noteq> [] then [[], ''<details>'', ''<summary>Context</summary>'', [], sm_context m, [], ''</details>''] else [])"

definition body_parts :: "change list \<Rightarrow> section_meta \<Rightarrow> nat \<Rightarrow> string list" where
  "body_parts entries m depth =
     (let facing = filter ch_user_facing entries in
      meta_parts m @
      (if facing \<noteq> [] then concat (map (group_lines depth facing) type_groups)
       else if sm_bump m = bump_infra \<and> sm_description m \<noteq> []
       then [[], heading (Suc depth) ''Infrastructure'', [], ''- '' @ sm_description m]
       else [[], ''- No user-facing changes.'']))"

definition changelog_section :: "string \<Rightarrow> change list \<Rightarrow> section_meta \<Rightarrow> nat \<Rightarrow> string" where
  "changelog_section title entries m depth =
     join line_feed (heading depth title # body_parts entries m depth) @ line_feed"

section \<open>Documents\<close>

record pending =
  pe_version :: version
  pe_description :: string
  pe_context :: string
  pe_bump :: bump

datatype ('e, 'g) markdown_error =
    ChangelogFault "'e changelog_error"
  | RecordFault "('e, 'g) read_error"

definition archive_meta ::
  "('e, 'g) rec \<Rightarrow> version list \<Rightarrow> version \<Rightarrow> (('e, 'g) markdown_error, section_meta) result" where
  "archive_meta R archived v =
     (if version_string v \<notin> set (map version_string archived) then Inr empty_meta
      else rbind (with_error RecordFault (read_archive R v)) (\<lambda>a.
        Inr \<lparr>sm_description = trim_space (rf_description (a_file a)), sm_context = trim_space (rf_context (a_file a)),
             sm_bump = rf_bump (a_file a), sm_never_released = (a_fate a = FateNeverReleased),
             sm_retracted_by = a_retracted_by a\<rparr>))"

definition pending_meta :: "pending \<Rightarrow> section_meta" where
  "pending_meta p = empty_meta\<lparr>sm_description := pe_description p, sm_context := pe_context p, sm_bump := pe_bump p\<rparr>"

definition file_section ::
  "('e, 'g) rec \<Rightarrow> version list \<Rightarrow> nat \<Rightarrow> pending option \<Rightarrow> change_file \<Rightarrow> (('e, 'g) markdown_error, string list) result" where
  "file_section R archived depth pending f =
     (if \<not> cf_released f then
        (case pending of
           Some p \<Rightarrow> Inr [changelog_section (version_string (pe_version p)) (file_changes f) (pending_meta p) depth]
         | None \<Rightarrow> Inr (if cf_lines f \<noteq> [] then [changelog_section ''Unreleased'' (file_changes f) empty_meta depth] else []))
      else rbind (archive_meta R archived (cf_version f)) (\<lambda>m.
        Inr [changelog_section (version_string (cf_version f)) (file_changes f) m depth]))"

definition changelog_sections ::
  "json_reader \<Rightarrow> ('e, 'g) rec \<Rightarrow> nat \<Rightarrow> pending option \<Rightarrow> 'e disk \<Rightarrow> (('e, 'g) markdown_error, string list) result" where
  "changelog_sections J R depth pending d =
     rbind (with_error ChangelogFault (read_all_changes J (changelog_dir (rec_releasable R)) d)) (\<lambda>files.
     rbind (with_error RecordFault (rec_versions R)) (\<lambda>archived.
     rbind (rmap (file_section R archived depth pending) files) (\<lambda>ss. Inr (concat ss))))"

definition version_section ::
  "json_reader \<Rightarrow> ('e, 'g) rec \<Rightarrow> version \<Rightarrow> nat \<Rightarrow> 'e disk \<Rightarrow> (('e, 'g) markdown_error, string) result" where
  "version_section J R v depth d =
     rbind (with_error ChangelogFault (read_version_file J (changelog_dir (rec_releasable R)) v d)) (\<lambda>f.
     rbind (with_error RecordFault (rec_versions R)) (\<lambda>archived.
     rbind (archive_meta R archived v) (\<lambda>m.
       Inr (changelog_section (version_string v) (file_changes f) m depth))))"

definition generated_comment :: "string \<Rightarrow> string" where
  "generated_comment src = ''<!-- Generated by rlsbl from '' @ src @ '' '' @ [CHR 0xE2, CHR 0x80, CHR 0x94] @ '' do not edit -->''"

definition document_head :: "string \<Rightarrow> string" where
  "document_head src = generated_comment src @ line_feed @ line_feed @ ''# Changelog'' @ line_feed @ line_feed"

definition changelog_document ::
  "json_reader \<Rightarrow> ('e, 'g) rec \<Rightarrow> pending option \<Rightarrow> 'e disk \<Rightarrow> (('e, 'g) markdown_error, string) result" where
  "changelog_document J R pending d =
     rbind (changelog_sections J R 2 pending d) (\<lambda>ss.
       Inr (document_head (changelog_dir (rec_releasable R) @ ''/'') @ join line_feed ss))"

text \<open>The roll-up, over the release record of every releasable.\<close>

fun roll_up_blocks ::
  "json_reader \<Rightarrow> (string \<Rightarrow> ('e, 'g) rec) \<Rightarrow> string \<Rightarrow> pending option \<Rightarrow> 'e disk \<Rightarrow> string list \<Rightarrow>
   (('e, 'g) markdown_error, string list) result" where
  "roll_up_blocks J R pending_for pending d [] = Inr []"
| "roll_up_blocks J R pending_for pending d (r # rs) =
     rbind (changelog_sections J (R r) 3 (if r = pending_for then pending else None) d) (\<lambda>ss.
     rbind (roll_up_blocks J R pending_for pending d rs) (\<lambda>bs.
       Inr (if ss = [] then bs else (heading 2 r @ line_feed @ line_feed @ join line_feed ss) # bs)))"

definition roll_up ::
  "json_reader \<Rightarrow> (string \<Rightarrow> ('e, 'g) rec) \<Rightarrow> releasables \<Rightarrow> string \<Rightarrow> pending option \<Rightarrow> 'e disk \<Rightarrow>
   (('e, 'g) markdown_error, string) result" where
  "roll_up J R decls pending_for pending d =
     rbind (roll_up_blocks J R pending_for pending d (map r_name (d_releasables decls))) (\<lambda>bs.
       Inr (document_head (changelog_root @ ''/'') @ join line_feed bs))"

text \<open>Each output is written only when its content changed; the paths written come back.\<close>

definition regenerate_one :: "string \<times> string \<Rightarrow> ('e disk, ('e, 'g) markdown_error, string list) act" where
  "regenerate_one out =
     (case out of (rel, content) \<Rightarrow>
        abind (aread (\<lambda>d. with_error (ChangelogFault \<circ> OnDisk \<circ> Reading rel) (read_bytes rel d))) (\<lambda>current.
        if current = Some content then aret []
        else
          abind (aread (\<lambda>d. with_error ChangelogFault (mode_of rel default_mode d))) (\<lambda>mode.
          abind (awrap ChangelogFault (put_changelog rel content mode)) (\<lambda>_. aret [rel]))))"

definition regenerate ::
  "json_reader \<Rightarrow> (string \<Rightarrow> ('e, 'g) rec) \<Rightarrow> releasables \<Rightarrow> string \<Rightarrow> pending option \<Rightarrow>
   ('e disk, ('e, 'g) markdown_error, string list) act" where
  "regenerate J R decls r pending =
     abind (aread (changelog_document J (R r) pending)) (\<lambda>document.
     abind (if is_workspace decls then abind (aread (roll_up J R decls r pending)) (\<lambda>text. aret [(markdown_name, text)])
            else aret []) (\<lambda>more.
     afold (\<lambda>written out. abind (regenerate_one out) (\<lambda>w. aret (written @ w))) []
       ((changelog_home decls r, document) # more)))"

section \<open>Extracting a section\<close>

text \<open>
  How far the white space after a heading reaches, as the expression \<open>\s*$\<close> takes it: to the last
  line end of a run of white space, or to the end of the text.
\<close>

fun space_to_end :: "string \<Rightarrow> nat option" where
  "space_to_end [] = Some 0"
| "space_to_end (c # cs) =
     (if \<not> regex_space c then None
      else (case space_to_end cs of
          Some n \<Rightarrow> Some (Suc n)
        | None \<Rightarrow> if c = CHR 0x0A then Some 0 else None))"

text \<open>What follows the first heading: the flag says that the text begins a line.\<close>

fun after_heading :: "string \<Rightarrow> bool \<Rightarrow> string \<Rightarrow> string option" where
  "after_heading h start [] = None"
| "after_heading h start (c # cs) =
     (case (if start \<and> has_prefix (c # cs) h then space_to_end (drop (length h) (c # cs)) else None) of
        Some n \<Rightarrow> Some (drop (length h + n) (c # cs))
      | None \<Rightarrow> after_heading h (c = CHR 0x0A) cs)"

definition next_section :: string where "next_section = line_feed @ replicate 2 (CHR 0x23) @ '' ''"

definition extract_section :: "string \<Rightarrow> string \<Rightarrow> string \<times> bool" where
  "extract_section content version =
     (case after_heading (heading 2 version) True content of
        None \<Rightarrow> ([], False)
      | Some after \<Rightarrow>
          (let body = trim_space (case str_index after next_section of Some i \<Rightarrow> take i after | None \<Rightarrow> after)
           in (body, body \<noteq> [])))"

section \<open>Texts as lines\<close>

definition terminated :: "string list \<Rightarrow> string" where
  "terminated ls = concat (map (\<lambda>l. l @ line_feed) ls)"

lemma terminated_simps [simp]:
  "terminated [] = []" "terminated (l # ls) = l @ CHR 0x0A # terminated ls"
  "terminated (ls @ ks) = terminated ls @ terminated ks"
  by (simp_all add: terminated_def line_feed_def)

lemma join_terminated: "join line_feed (p # ps) @ line_feed = terminated (concat (map (split_on (CHR 0x0A)) (p # ps)))"
proof (induction ps arbitrary: p)
  have one: "terminated (split_on (CHR 0x0A) q) = q @ line_feed" for q
  proof (induction q)
    case (Cons c q)
    then show ?case by (cases "split_on (CHR 0x0A) q") (auto simp: line_feed_def)
  qed (simp add: line_feed_def)
  {
    case Nil
    then show ?case by (simp add: one)
  next
    case (Cons r rs)
    have "join line_feed (p # r # rs) @ line_feed = (p @ line_feed) @ join line_feed (r # rs) @ line_feed" by simp
    also have "\<dots> = terminated (split_on (CHR 0x0A) p) @ terminated (concat (map (split_on (CHR 0x0A)) (r # rs)))"
      unfolding Cons.IH one by simp
    finally show ?case by simp
  }
qed

lemma terminated_split: "(\<And>l. l \<in> set ls \<Longrightarrow> CHR 0x0A \<notin> set l) \<Longrightarrow> split_on (CHR 0x0A) (terminated ls @ t) = ls @ split_on (CHR 0x0A) t"
  by (induction ls) (simp_all add: split_on_append_sep)

lemma prefix_of_line:
  "CHR 0x0A \<notin> set h \<Longrightarrow> has_prefix (l @ CHR 0x0A # r) h \<longleftrightarrow> has_prefix l h"
proof (induction h arbitrary: l)
  case (Cons c h)
  then show ?case by (cases l) auto
qed simp

section \<open>Finding a heading\<close>

lemma space_to_end_line:
  "CHR 0x0A \<notin> set w \<Longrightarrow> space_to_end (w @ CHR 0x0A # r) =
     (if list_all regex_space w then Some (length w + (case space_to_end r of Some n \<Rightarrow> Suc n | None \<Rightarrow> 0)) else None)"
  by (induction w) (auto simp: regex_space_def split: option.splits)

lemma space_to_end_spec:
  "space_to_end s = Some n \<Longrightarrow> n \<le> length s \<and> list_all regex_space (take n s) \<and> (n < length s \<longrightarrow> s ! n = CHR 0x0A)"
proof (induction s arbitrary: n)
  case (Cons c cs)
  then show ?case by (cases n) (auto split: if_splits option.splits)
qed simp

definition heading_line :: "string \<Rightarrow> string \<Rightarrow> bool" where
  "heading_line h l \<longleftrightarrow> has_prefix l h \<and> list_all regex_space (drop (length h) l)"

lemma after_rest_of_line: "CHR 0x0A \<notin> set w \<Longrightarrow> after_heading h False (w @ CHR 0x0A # r) = after_heading h True r"
  by (induction w) auto

lemma after_line:
  assumes "CHR 0x0A \<notin> set l" "CHR 0x0A \<notin> set h" "h \<noteq> []" "\<not> heading_line h l"
  shows "after_heading h True (l @ CHR 0x0A # r) = after_heading h True r"
proof (cases l)
  case Nil
  with assms show ?thesis by (cases h) auto
next
  case (Cons c cs)
  have "\<not> (has_prefix (l @ CHR 0x0A # r) h \<and> space_to_end (drop (length h) (l @ CHR 0x0A # r)) \<noteq> None)"
  proof
    assume a: "has_prefix (l @ CHR 0x0A # r) h \<and> space_to_end (drop (length h) (l @ CHR 0x0A # r)) \<noteq> None"
    with assms(2) have p: "has_prefix l h" by (simp add: prefix_of_line)
    then have "drop (length h) (l @ CHR 0x0A # r) = drop (length h) l @ CHR 0x0A # r" using has_prefix_length [OF p] by simp
    moreover have "CHR 0x0A \<notin> set (drop (length h) l)" using assms(1) by (meson in_set_dropD)
    ultimately have "list_all regex_space (drop (length h) l)"
      using a space_to_end_line [of "drop (length h) l" r] by (auto split: if_splits)
    with p assms(4) show False by (simp add: heading_line_def)
  qed
  with Cons assms(1) show ?thesis by (auto simp: after_rest_of_line)
qed

lemma after_lines:
  assumes "\<And>l. l \<in> set ls \<Longrightarrow> CHR 0x0A \<notin> set l \<and> \<not> heading_line h l" "CHR 0x0A \<notin> set h" "h \<noteq> []"
  shows "after_heading h True (terminated ls @ r) = after_heading h True r"
  using assms(1) by (induction ls) (simp_all add: after_line assms(2,3))

lemma after_found:
  assumes "CHR 0x0A \<notin> set h" "h \<noteq> []" "space_to_end (CHR 0x0A # r) = Some n"
  shows "after_heading h True (h @ CHR 0x0A # r) = Some (drop n (CHR 0x0A # r))"
proof -
  obtain c cs where h: "h = c # cs" using assms(2) by (cases h) auto
  have "has_prefix (h @ CHR 0x0A # r) h" by (simp add: has_prefix_iff)
  with h assms(3) show ?thesis by simp
qed

section \<open>The body of a section\<close>

definition section_free :: "string list \<Rightarrow> bool" where
  "section_free ls \<longleftrightarrow> list_all (\<lambda>l. CHR 0x0A \<notin> set l \<and> \<not> has_prefix l ''## '') ls"

lemma next_section_text: "next_section = CHR 0x0A # ''## ''"
  by (simp add: next_section_def line_feed_def numeral_2_eq_2)

lemma str_index_skip:
  assumes "CHR 0x0A \<notin> set w"
  shows "str_index (w @ s) next_section = map_option (\<lambda>i. length w + i) (str_index s next_section)"
proof -
  have "str_index (w @ s) next_section = (case str_index s next_section of None \<Rightarrow> None | Some i \<Rightarrow> Some (length w + i))"
    using assms by (induction w) (auto simp: next_section_text split: option.splits)
  then show ?thesis by (simp split: option.splits)
qed

definition follows :: "string \<Rightarrow> bool" where
  "follows tail \<longleftrightarrow> tail = [] \<or> (\<exists>x. tail = next_section @ x)"

lemma str_index_body:
  assumes "section_free ls" "follows tail"
  shows "str_index (CHR 0x0A # terminated ls @ tail) next_section =
    (if tail = [] then None else Some (Suc (length (terminated ls))))"
  using assms(1)
proof (induction ls)
  case Nil
  from assms(2) consider "tail = []" | x where "tail = CHR 0x0A # ''## '' @ x" by (auto simp: follows_def next_section_text)
  then show ?case by cases (simp_all add: next_section_text)
next
  case (Cons l ls)
  then have l: "CHR 0x0A \<notin> set l" "\<not> has_prefix l ''## ''" and ls: "section_free ls" by (simp_all add: section_free_def)
  let ?rest = "CHR 0x0A # terminated ls @ tail"
  have "\<not> has_prefix (CHR 0x0A # l @ ?rest) next_section"
    using l by (simp add: next_section_text prefix_of_line)
  then have "str_index (CHR 0x0A # l @ ?rest) next_section = map_option Suc (str_index (l @ ?rest) next_section)" by simp
  also have "\<dots> = map_option (\<lambda>i. Suc (length l + i)) (str_index ?rest next_section)"
    unfolding str_index_skip [OF l(1)] by (simp add: option.map_comp comp_def)
  finally show ?case unfolding Cons.IH [OF ls] by simp
qed

lemma str_index_drop:
  assumes "sub \<noteq> []"
  shows "str_index s sub = None \<Longrightarrow> str_index (drop n s) sub = None"
    and "str_index s sub = Some k \<Longrightarrow> n \<le> k \<Longrightarrow> str_index (drop n s) sub = Some (k - n)"
proof (induction n arbitrary: s k)
  case (Suc n)
  {
    case 1
    with Suc.IH(1) assms show ?case by (cases s) (auto split: if_splits)
  next
    case 2
    then obtain c cs where s: "s = c # cs" using assms by (cases s) auto
    with 2 obtain j where "str_index cs sub = Some j" "k = Suc j" by (auto split: if_splits)
    with Suc.IH(2) [of cs j] 2(2) s show ?case by simp
  }
qed simp_all

lemma strip_left_regex_space: "regex_space c \<Longrightarrow> strip_left space_encodings (c # s) = strip_left space_encodings s"
proof -
  assume c: "regex_space c"
  have "List.find (\<lambda>e. e \<noteq> [] \<and> has_prefix (c # s) e) space_encodings = Some [c]"
  proof -
    from c have "c = CHR 0x09 \<or> c = CHR 0x0A \<or> c = CHR 0x0C \<or> c = CHR 0x0D \<or> c = CHR 0x20"
      by (simp add: regex_space_def)
    then show ?thesis by (elim disjE) (simp_all add: space_encodings_def)
  qed
  then show ?thesis by (simp add: strip_left.simps [of space_encodings "c # s"])
qed

lemma trim_space_skip: "list_all regex_space w \<Longrightarrow> trim_space (w @ s) = trim_space s"
  unfolding trim_space_def by (induction w) (simp_all add: strip_left_regex_space)

lemma trim_space_drop: "list_all regex_space (take n s) \<Longrightarrow> trim_space (drop n s) = trim_space s"
  using trim_space_skip [of "take n s" "drop n s"] by simp

lemma take_front:
  assumes "n \<le> length b"
  shows "take (length b - n) (drop n (b @ t)) = drop n b" "take n (b @ t) = take n b"
  using assms by simp_all

text \<open>
  The body of a heading met after lines that are none, over lines that begin no section, up to the
  next section or the end.
\<close>

lemma extract_body:
  assumes pre: "\<And>l. l \<in> set pre \<Longrightarrow> CHR 0x0A \<notin> set l \<and> \<not> heading_line (heading 2 v) l"
    and v: "CHR 0x0A \<notin> set v" and body: "section_free body" and tail: "follows tail"
  shows "extract_section (terminated pre @ heading 2 v @ CHR 0x0A # terminated body @ tail) v =
    (trim_space (terminated body), trim_space (terminated body) \<noteq> [])"
proof -
  let ?h = "heading 2 v" and ?B = "CHR 0x0A # terminated body"
  have h: "CHR 0x0A \<notin> set ?h" "?h \<noteq> []" using v by (auto simp: heading_def)
  obtain n where n: "space_to_end (?B @ tail) = Some n"
    using space_to_end_line [of "[]" "terminated body @ tail"] by simp
  note spec = space_to_end_spec [OF n]
  have after: "after_heading ?h True (terminated pre @ ?h @ CHR 0x0A # terminated body @ tail) = Some (drop n (?B @ tail))"
    using after_lines [OF pre h] after_found [OF h n [unfolded append_Cons]] by simp
  have short: "n \<le> length ?B"
  proof (cases "tail = []")
    case False
    then obtain x where t: "tail = CHR 0x0A # CHR 0x23 # CHR 0x23 # CHR 0x20 # x" using tail by (auto simp: follows_def next_section_text)
    show ?thesis
    proof (rule ccontr)
      assume "\<not> n \<le> length ?B"
      then have l: "length ?B < n" by simp
      have hash: "(?B @ tail) ! Suc (length ?B) = CHR 0x23" by (simp only: nth_append t) simp
      have inside: "Suc (length ?B) < length (?B @ tail)" by (simp add: t)
      have "\<not> Suc (length ?B) < n"
      proof
        assume n: "Suc (length ?B) < n"
        have "list_all regex_space (take n (?B @ tail))" using spec by blast
        moreover have "Suc (length ?B) < length (take n (?B @ tail))" using spec n by simp
        ultimately have "regex_space (take n (?B @ tail) ! Suc (length ?B))" by (simp only: list_all_length)
        then have "regex_space CHR 0x23" by (simp only: nth_take [OF n] hash)
        then show False by (simp add: regex_space_def)
      qed
      with l have "n = Suc (length ?B)" by simp
      with spec hash inside show False by simp
    qed
  qed (use spec in simp)
  have cut: "(case str_index (drop n (?B @ tail)) next_section of Some i \<Rightarrow> take i (drop n (?B @ tail)) | None \<Rightarrow> drop n (?B @ tail)) = drop n ?B"
  proof (cases "tail = []")
    case True
    have "str_index (?B @ tail) next_section = None" using str_index_body [OF body tail] True by simp
    then have "str_index (drop n (?B @ tail)) next_section = None" by (rule str_index_drop(1) [rotated]) (simp add: next_section_text)
    with True show ?thesis by simp
  next
    case False
    have "str_index (?B @ tail) next_section = Some (length ?B)" using str_index_body [OF body tail] False by simp
    from str_index_drop(2) [OF _ this short] have "str_index (drop n (?B @ tail)) next_section = Some (length ?B - n)"
      by (simp add: next_section_text)
    with take_front(1) [OF short, of tail] show ?thesis by (simp only: option.case)
  qed
  have "list_all regex_space (take n ?B)" using spec take_front(2) [OF short, of tail] by (simp only:)
  then have "trim_space (drop n ?B) = trim_space ?B" by (rule trim_space_drop)
  also have "\<dots> = trim_space (terminated body)" using trim_space_skip [of "[CHR 0x0A]" "terminated body"] by (simp add: regex_space_def)
  finally show ?thesis unfolding extract_section_def after by (simp only: option.case cut Let_def)
qed

section \<open>The notes a changelog holds\<close>

text \<open>The notes of a version: its section without the heading, trimmed (releasenotes.Read).\<close>

definition section_notes :: "string \<Rightarrow> string" where
  "section_notes s = (case str_cut s line_feed of (_, body, _) \<Rightarrow> trim_space body)"

definition plain_section :: "string \<Rightarrow> bool" where
  "plain_section s \<longleftrightarrow> list_all (\<lambda>l. \<not> has_prefix l ''## '') (tl (split_on (CHR 0x0A) s))"

lemma section_as_lines:
  assumes "CHR 0x0A \<notin> set title" "plain_section (changelog_section title es m depth)"
  shows "\<exists>ls. changelog_section title es m depth = terminated (heading depth title # ls) \<and> section_free ls"
proof (intro exI conjI)
  let ?ls = "concat (map (split_on (CHR 0x0A)) (body_parts es m depth))"
  have h: "CHR 0x0A \<notin> set (heading depth title)" using assms(1) by (auto simp: heading_def)
  show eq: "changelog_section title es m depth = terminated (heading depth title # ?ls)"
    unfolding changelog_section_def join_terminated by (simp add: split_on_no_sep [OF h])
  have ls: "CHR 0x0A \<notin> set l" if "l \<in> set ?ls" for l using that split_on_pieces by auto
  with h have "split_on (CHR 0x0A) (terminated (heading depth title # ?ls) @ []) = (heading depth title # ?ls) @ split_on (CHR 0x0A) []"
    by (intro terminated_split) auto
  then have "split_on (CHR 0x0A) (changelog_section title es m depth) = heading depth title # ?ls @ [[]]" using eq by simp
  with ls assms(2) show "section_free ?ls" by (auto simp: plain_section_def section_free_def list_all_iff)
qed

lemma section_notes_lines:
  assumes "CHR 0x0A \<notin> set h"
  shows "section_notes (terminated (h # ls)) = trim_space (terminated ls)"
proof -
  have "str_index (h @ CHR 0x0A # r) [CHR 0x0A] = Some (length h)" for r
    using assms by (induction h) auto
  then show ?thesis by (simp add: section_notes_def str_cut_def line_feed_def)
qed

definition title_ok :: "string \<Rightarrow> bool" where
  "title_ok t \<longleftrightarrow> list_all (\<lambda>c. \<not> regex_space c) t"

lemma title_line: "title_ok t \<Longrightarrow> CHR 0x0A \<notin> set t"
  by (auto simp: title_ok_def list_all_iff regex_space_def)

lemma heading_two: "heading 2 v = ''## '' @ v"
  by (simp add: heading_def numeral_2_eq_2)

lemma heading_line_title: "title_ok t \<Longrightarrow> heading_line (heading 2 v) (heading 2 t) \<Longrightarrow> t = v"
  by (auto simp: heading_line_def heading_two title_ok_def has_prefix_iff list_all_iff)

lemma heading_line_plain: "\<not> has_prefix l ''## '' \<Longrightarrow> \<not> heading_line (heading 2 v) l"
  using has_prefix_appendD [of l "''## ''" v] by (auto simp: heading_line_def heading_two)

type_synonym titled = "string \<times> change list \<times> section_meta"

definition titled_section :: "titled \<Rightarrow> string" where
  "titled_section x = (case x of (t, es, m) \<Rightarrow> changelog_section t es m 2)"

definition quiet_lines :: "string \<Rightarrow> string list \<Rightarrow> bool" where
  "quiet_lines v ls \<longleftrightarrow> list_all (\<lambda>l. CHR 0x0A \<notin> set l \<and> \<not> heading_line (heading 2 v) l) ls"

lemma earlier_section:
  assumes "title_ok t" "t \<noteq> v" "plain_section (titled_section (t, es, m))"
  obtains ls where "titled_section (t, es, m) = terminated ls" "quiet_lines v ls"
proof -
  obtain ls where ls: "changelog_section t es m 2 = terminated (heading 2 t # ls)" "section_free ls"
    using section_as_lines [OF title_line [OF assms(1)], of es m 2] assms(3) by (auto simp: titled_section_def)
  moreover have "quiet_lines v (heading 2 t # ls)"
    using ls(2) heading_line_title [OF assms(1), of v] assms(2) title_line [OF assms(1)]
    by (auto simp: quiet_lines_def section_free_def list_all_iff heading_line_plain) (auto simp: heading_two)
  ultimately show ?thesis using that [of "heading 2 t # ls"] by (simp add: titled_section_def)
qed

lemma earlier_sections:
  assumes "\<And>x. x \<in> set us \<Longrightarrow> title_ok (fst x) \<and> fst x \<noteq> v \<and> plain_section (titled_section x)"
  obtains ls where "concat (map (\<lambda>x. titled_section x @ line_feed) us) = terminated ls" "quiet_lines v ls"
  using assms
proof (induction us arbitrary: thesis)
  case Nil
  then show ?case using Nil.prems(1) [of "[]"] by (simp add: quiet_lines_def)
next
  case (Cons x us)
  obtain t es m where x: "x = (t, es, m)" by (cases x)
  obtain ls where ls: "titled_section x = terminated ls" "quiet_lines v ls"
    using earlier_section [of t v es m] Cons.prems(2) [of x] unfolding x by auto
  obtain ks where "concat (map (\<lambda>x. titled_section x @ line_feed) us) = terminated ks" "quiet_lines v ks"
    using Cons.IH Cons.prems(2) by auto
  with ls show ?case using Cons.prems(1) [of "ls @ [[]] @ ks"]
    by (auto simp: quiet_lines_def line_feed_def heading_line_def heading_two)
qed

lemma join_around:
  "join sep (us @ s # ws) = concat (map (\<lambda>u. u @ sep) us) @ s @ (if ws = [] then [] else sep @ join sep ws)"
proof (induction us)
  case Nil
  then show ?case by (cases ws) simp_all
next
  case (Cons u us)
  then show ?case by (cases us) simp_all
qed

lemma join_titled: "ws \<noteq> [] \<Longrightarrow> \<exists>x. join line_feed (map titled_section ws) = ''## '' @ x"
proof -
  have one: "\<exists>x. titled_section w = ''## '' @ x" for w
    unfolding titled_section_def changelog_section_def heading_two
    by (cases w) (auto simp: neq_Nil_conv split: list.splits intro: exI, cases "body_parts (fst (snd w)) (snd (snd w)) 2"; auto)
  assume "ws \<noteq> []"
  then show ?thesis using one by (cases ws; cases "tl ws") (auto, metis append_Cons append_Nil)
qed

lemma extract_titled:
  assumes us: "\<And>x. x \<in> set us \<Longrightarrow> title_ok (fst x) \<and> fst x \<noteq> v \<and> plain_section (titled_section x)"
    and v: "title_ok v" and plain: "plain_section (titled_section (v, es, m))" and src: "CHR 0x0A \<notin> set src"
  shows "extract_section (document_head src @ join line_feed (map titled_section (us @ (v, es, m) # ws))) v =
    (section_notes (titled_section (v, es, m)), section_notes (titled_section (v, es, m)) \<noteq> [])"
proof -
  obtain ls where ls: "titled_section (v, es, m) = terminated (heading 2 v # ls)" "section_free ls"
    using section_as_lines [OF title_line [OF v], of es m 2] plain by (auto simp: titled_section_def)
  obtain pre where pre: "concat (map (\<lambda>u. u @ line_feed) (map titled_section us)) = terminated pre" "quiet_lines v pre"
    using earlier_sections [OF us] by (auto simp: comp_def)
  let ?head = "[generated_comment src, [], ''# Changelog'', []]"
  have head: "document_head src = terminated ?head" by (simp add: document_head_def line_feed_def)
  have q: "quiet_lines v ?head"
    using src by (auto simp: quiet_lines_def generated_comment_def heading_line_plain)
  define tail where "tail = (if ws = [] then [] else line_feed @ join line_feed (map titled_section ws))"
  have t: "follows tail"
    using join_titled [of ws] by (auto simp: tail_def follows_def next_section_text line_feed_def)
  have doc: "document_head src @ join line_feed (map titled_section (us @ (v, es, m) # ws)) =
      terminated (?head @ pre) @ heading 2 v @ CHR 0x0A # terminated ls @ tail"
    unfolding head map_append list.map join_around pre(1) by (simp add: ls(1) tail_def)
  have "section_notes (titled_section (v, es, m)) = trim_space (terminated ls)"
    unfolding ls(1) using title_line [OF v] by (intro section_notes_lines) (auto simp: heading_def)
  moreover have "extract_section (terminated (?head @ pre) @ heading 2 v @ CHR 0x0A # terminated ls @ tail) v =
      (trim_space (terminated ls), trim_space (terminated ls) \<noteq> [])"
    using q pre(2) by (intro extract_body title_line [OF v] ls(2) t) (auto simp: quiet_lines_def list_all_iff)
  ultimately show ?thesis unfolding doc by simp
qed

section \<open>What a CHANGELOG.md gives back\<close>

text \<open>The sections of a releasable: the unreleased one when there are such entries, then one per version.\<close>

lemma rmap_sections:
  assumes "rmap (\<lambda>v. read_version_file J dir v d) vs = Inr fs" "dir = changelog_dir (rec_releasable R)"
    and "rec_versions R = Inr archived" "rmap (file_section R archived 2 None) fs = Inr ss"
  shows "\<exists>ts. concat ss = map titled_section (map (\<lambda>(v, x). (version_string v, x)) (zip vs ts)) \<and> length ts = length vs \<and>
    list_all (\<lambda>(v, x). version_section J R v 2 d = Inr (titled_section (version_string v, x))) (zip vs ts)"
  using assms(1,4)
proof (induction vs arbitrary: fs ss)
  case (Cons v vs)
  obtain f gs where f: "read_version_file J dir v d = Inr f" and gs: "rmap (\<lambda>v. read_version_file J dir v d) vs = Inr gs" "fs = f # gs"
    using Cons.prems(1) by (auto simp: result_simps)
  have rel: "cf_released f" "cf_version f = v" using f by (auto simp: read_version_file_def result_simps split: option.splits)
  obtain s rs where s: "file_section R archived 2 None f = Inr s" "rmap (file_section R archived 2 None) gs = Inr rs" "ss = s # rs"
    using Cons.prems(2) unfolding gs(2) by (auto simp: result_simps)
  obtain m where m: "archive_meta R archived v = Inr m" and s': "s = [changelog_section (version_string v) (file_changes f) m 2]"
    using s(1) rel by (auto simp: file_section_def result_simps)
  obtain ts where "concat rs = map titled_section (map (\<lambda>(v, x). (version_string v, x)) (zip vs ts))" "length ts = length vs"
    "list_all (\<lambda>(v, x). version_section J R v 2 d = Inr (titled_section (version_string v, x))) (zip vs ts)"
    using Cons.IH [OF gs(1) s(2)] by blast
  then show ?case
    using f m assms(2,3) s(3) s'
    by (intro exI [of _ "(file_changes f, m) # ts"]) (simp add: titled_section_def version_section_def)
qed simp

lemma sections_of_versions:
  assumes "changelog_sections J R 2 None d = Inr ss" "changelog_versions (changelog_dir (rec_releasable R)) d = Inr vs"
  shows "\<exists>us ts. ss = map titled_section (us @ map (\<lambda>(v, x). (version_string v, x)) (zip vs ts)) \<and>
    length ts = length vs \<and> fst ` set us \<subseteq> {''Unreleased''} \<and>
    list_all (\<lambda>(v, x). version_section J R v 2 d = Inr (titled_section (version_string v, x))) (zip vs ts)"
proof -
  obtain u fs archived tss where u: "read_unreleased J (changelog_dir (rec_releasable R)) d = Inr u"
    and fs: "rmap (\<lambda>v. read_version_file J (changelog_dir (rec_releasable R)) v d) vs = Inr fs"
    and archived: "rec_versions R = Inr archived"
    and tss: "rmap (file_section R archived 2 None) (u # fs) = Inr tss" and ss: "ss = concat tss"
    using assms by (auto simp: changelog_sections_def read_all_changes_def result_simps)
  obtain s rs where s: "file_section R archived 2 None u = Inr s" and rs: "rmap (file_section R archived 2 None) fs = Inr rs" "tss = s # rs"
    using tss by (auto simp: result_simps)
  have "\<not> cf_released u"
    using u by (auto simp: read_unreleased_def read_changes_def zero_file_def result_simps split: option.splits)
  then have us: "\<exists>us. s = map titled_section us \<and> fst ` set us \<subseteq> {''Unreleased''}"
    using s by (auto simp: file_section_def titled_section_def intro: exI [of _ "[]"] exI [of _ "[(''Unreleased'', file_changes u, empty_meta)]"] split: if_splits)
  from rmap_sections [OF fs refl archived rs(1)] us show ?thesis unfolding ss rs(2) by fastforce
qed

lemma version_chars: "c \<in> set (version_string v) \<Longrightarrow> is_digit c \<or> c = CHR ''.''"
  using dec_of_nat_digits by (auto simp: version_string_def word_dec_def)

lemma title_version: "title_ok (version_string v)"
  using version_chars by (fastforce simp: title_ok_def list_all_iff regex_space_def is_digit_def)

lemma version_not_unreleased: "version_string v \<noteq> ''Unreleased''"
proof
  assume "version_string v = ''Unreleased''"
  then have "CHR ''U'' \<in> set (version_string v)" by simp
  then show False using version_chars by (fastforce simp: is_digit_def)
qed

text \<open>
  C32. Extracting a version from the changelog the tool generates gives back the notes of the section it
  rendered for that version, and answers that there is a section exactly when the notes are not empty,
  for every released version, as long as no line of a section begins like a version heading.
\<close>

theorem extracted_notes:
  assumes doc: "changelog_document J R None d = Inr doc" and sec: "version_section J R v 2 d = Inr s"
    and listed: "changelog_versions (changelog_dir (rec_releasable R)) d = Inr vs" "v \<in> set vs"
    and plain: "changelog_sections J R 2 None d = Inr ss" "list_all plain_section ss"
    and name: "CHR 0x0A \<notin> set (rec_releasable R)"
  shows "extract_section doc (version_string v) = (section_notes s, section_notes s \<noteq> [])"
proof -
  obtain us ts where ss: "ss = map titled_section (us @ map (\<lambda>(v, x). (version_string v, x)) (zip vs ts))"
    and l: "length ts = length vs" and us: "fst ` set us \<subseteq> {''Unreleased''}"
    and each: "list_all (\<lambda>(v, x). version_section J R v 2 d = Inr (titled_section (version_string v, x))) (zip vs ts)"
    using sections_of_versions [OF plain(1) listed(1)] by blast
  obtain before after where vs: "vs = before @ v # after" "v \<notin> set before" using split_list_first [OF listed(2)] by blast
  obtain ts1 es m ts2 where ts: "ts = ts1 @ (es, m) # ts2" "length ts1 = length before"
    using l unfolding vs(1) by (metis add_Suc_right append_eq_append_conv2 prod.exhaust length_append list.size(4) id_take_nth_drop length_take less_add_Suc1 min.absorb2 less_imp_le)
  let ?f = "\<lambda>(v, x). (version_string v, x)"
  let ?us = "us @ map ?f (zip before ts1)" and ?ws = "map ?f (zip after ts2)"
  have all: "us @ map ?f (zip vs ts) = ?us @ (version_string v, es, m) # ?ws"
    by (simp add: vs(1) ts zip_append)
  have s: "s = titled_section (version_string v, es, m)" using each sec by (simp add: vs(1) ts zip_append)
  have "doc = document_head (changelog_dir (rec_releasable R) @ ''/'') @ join line_feed ss"
    using doc plain(1) by (simp add: changelog_document_def)
  then have doc: "doc = document_head (changelog_dir (rec_releasable R) @ ''/'') @ join line_feed (map titled_section (?us @ (version_string v, es, m) # ?ws))"
    unfolding ss all .
  have plain_all: "plain_section (titled_section x)" if "x \<in> set (?us @ (version_string v, es, m) # ?ws)" for x
  proof -
    have "titled_section x \<in> set ss" unfolding ss all set_map using that by (rule imageI)
    with plain(2) show ?thesis by (simp add: list_all_iff)
  qed
  have quiet: "title_ok (fst x) \<and> fst x \<noteq> version_string v \<and> plain_section (titled_section x)" if x: "x \<in> set ?us" for x
  proof -
    from x consider "x \<in> set us" | w y where "x = (version_string w, y)" "(w, y) \<in> set (zip before ts1)" by auto
    then have "title_ok (fst x) \<and> fst x \<noteq> version_string v"
    proof cases
      case 1
      with us have "fst x = ''Unreleased''" by auto
      then show ?thesis using version_not_unreleased [of v] by (auto simp: title_ok_def regex_space_def)
    next
      case 2
      then show ?thesis using title_version vs(2) by (auto dest: set_zip_leftD)
    qed
    moreover have "plain_section (titled_section x)" by (rule plain_all) (use x in auto)
    ultimately show ?thesis by blast
  qed
  have "plain_section (titled_section (version_string v, es, m))" by (rule plain_all) simp
  moreover have "CHR 0x0A \<notin> set (changelog_dir (rec_releasable R) @ ''/'')"
    using name by (simp add: changelog_dir_def changelog_root_def metadata_dir_def)
  ultimately show ?thesis unfolding doc s by (intro extract_titled quiet title_version)
qed

lemma version_items_name: "version_items dir ((version_name v, False) # items) = rbind (version_items dir items) (\<lambda>vs. Inr (v # vs))"
proof -
  have "trim_suffix (version_name v) jsonl_suffix = version_string v"
    by (simp add: version_name_def trim_suffix_def has_suffix_iff)
  moreover have "has_suffix (version_name v) jsonl_suffix" by (simp add: version_name_def)
  ultimately show ?thesis by (simp add: version_name_plain)
qed

definition sample_released_changelog :: "string disk" where
  "sample_released_changelog = sample_changelog\<lparr>dk_nodes :=
     map (\<lambda>p. (p, DirNode)) [metadata_dir, changelog_root, sample_dir]
     @ map (\<lambda>n. (in_changelog sample_dir n, FileNode (''{}'' @ line_feed) readonly_mode)) [''2.0.0.jsonl'', ''1.0.0.jsonl'']\<rparr>"

definition unarchived_record :: "(string, string) rec" where
  "unarchived_record = sample_record\<lparr>rec_listing := None\<rparr>"

lemma sample_version_strings: "version_string (Version 1 0 0) = ''1.0.0''" "version_string (Version 2 0 0) = ''2.0.0''"
  by (simp_all add: version_string_def word_dec_def dec_of_nat.simps digit_char_def) (code_simp, code_simp)

lemma sample_version_names: "version_name (Version 1 0 0) = ''1.0.0.jsonl''" "version_name (Version 2 0 0) = ''2.0.0.jsonl''"
  by (simp_all add: version_name_def sample_version_strings jsonl_suffix_def)

lemma sample_listing: "list_dir sample_dir sample_released_changelog = Inr (Some [(''1.0.0.jsonl'', False), (''2.0.0.jsonl'', False)])"
  by code_simp

lemma sample_released_versions: "changelog_versions sample_dir sample_released_changelog = Inr [Version 2 0 0, Version 1 0 0]"
proof -
  have items: "version_items sample_dir [(version_name (Version 1 0 0), False), (version_name (Version 2 0 0), False)] = Inr [Version 1 0 0, Version 2 0 0]"
    by (simp only: version_items_name version_items.simps(1) rbind_simps)
  have sorted: "sort_by (\<lambda>a b. compare_versions a b > 0) [Version 1 0 0, Version 2 0 0] = [Version 2 0 0, Version 1 0 0]"
    by (simp add: sort_by_def compare_versions_def)
  show ?thesis
    unfolding changelog_versions_def sample_listing sample_version_names [symmetric]
    by (simp only: with_error_def sum.case rbind_simps option.case items sorted)
qed

lemma sample_reads:
  "read_changes sample_reader (in_changelog sample_dir ''1.0.0.jsonl'') sample_released_changelog = Inr (Some \<lparr>cf_path = in_changelog sample_dir ''1.0.0.jsonl'',
     cf_released = False, cf_version = zero_version, cf_lines = [\<lparr>ln_number = 1, ln_text = ''{}'', ln_change = sample_change\<rparr>]\<rparr>)"
  "read_changes sample_reader (in_changelog sample_dir ''2.0.0.jsonl'') sample_released_changelog = Inr (Some \<lparr>cf_path = in_changelog sample_dir ''2.0.0.jsonl'',
     cf_released = False, cf_version = zero_version, cf_lines = [\<lparr>ln_number = 1, ln_text = ''{}'', ln_change = sample_change\<rparr>]\<rparr>)"
  "read_changes sample_reader (in_changelog sample_dir ''unreleased.jsonl'') sample_released_changelog = Inr None"
  by code_simp+

lemma sample_version_files:
  assumes "v = Version 1 0 0 \<or> v = Version 2 0 0"
  shows "\<exists>f. read_version_file sample_reader sample_dir v sample_released_changelog = Inr f \<and>
    cf_released f \<and> cf_version f = v \<and> file_changes f = [sample_change]"
  using assms sample_reads
  by (elim disjE) (simp_all add: read_version_file_def sample_version_names file_changes_def)

definition sample_section :: "version \<Rightarrow> string" where
  "sample_section v = changelog_section (version_string v) [sample_change] empty_meta 2"

lemma sample_sections:
  "changelog_sections sample_reader unarchived_record 2 None sample_released_changelog =
     Inr [sample_section (Version 2 0 0), sample_section (Version 1 0 0)]"
  "version_section sample_reader unarchived_record (Version 1 0 0) 2 sample_released_changelog = Inr (sample_section (Version 1 0 0))"
proof -
  obtain f where f: "read_version_file sample_reader sample_dir (Version 1 0 0) sample_released_changelog = Inr f"
    "cf_released f" "cf_version f = Version 1 0 0" "file_changes f = [sample_change]" using sample_version_files by blast
  obtain g where g: "read_version_file sample_reader sample_dir (Version 2 0 0) sample_released_changelog = Inr g"
    "cf_released g" "cf_version g = Version 2 0 0" "file_changes g = [sample_change]" using sample_version_files by blast
  have u: "read_unreleased sample_reader sample_dir sample_released_changelog = Inr (zero_file (unreleased_path sample_dir))"
    using sample_reads(3) by (simp add: read_unreleased_def unreleased_name_def)
  have R: "changelog_dir (rec_releasable unarchived_record) = sample_dir" "rec_versions unarchived_record = Inr []"
    by (simp_all add: unarchived_record_def sample_record_def sample_dir_def rec_versions_def archived_versions_def)
  show "changelog_sections sample_reader unarchived_record 2 None sample_released_changelog =
      Inr [sample_section (Version 2 0 0), sample_section (Version 1 0 0)]"
    using f g by (simp add: changelog_sections_def read_all_changes_def R u sample_released_versions file_section_def
        archive_meta_def zero_file_def sample_section_def)
  show "version_section sample_reader unarchived_record (Version 1 0 0) 2 sample_released_changelog = Inr (sample_section (Version 1 0 0))"
    using f by (simp add: version_section_def R archive_meta_def sample_section_def)
qed

theorem extracted_notes_witness:
  "\<exists>doc. changelog_document sample_reader unarchived_record None sample_released_changelog = Inr doc \<and>
     extract_section doc ''1.0.0'' = (section_notes (sample_section (Version 1 0 0)), section_notes (sample_section (Version 1 0 0)) \<noteq> [])"
proof -
  let ?d = sample_released_changelog
  let ?doc = "document_head (changelog_dir (rec_releasable unarchived_record) @ ''/'') @
    join line_feed [sample_section (Version 2 0 0), sample_section (Version 1 0 0)]"
  have doc: "changelog_document sample_reader unarchived_record None ?d = Inr ?doc"
    unfolding changelog_document_def sample_sections by (simp only: rbind_simps)
  have dir: "changelog_dir (rec_releasable unarchived_record) = sample_dir"
    by (simp add: unarchived_record_def sample_record_def sample_dir_def)
  have plain: "list_all plain_section [sample_section (Version 2 0 0), sample_section (Version 1 0 0)]"
    unfolding sample_section_def sample_version_strings by code_simp
  have "extract_section ?doc (version_string (Version 1 0 0)) =
      (section_notes (sample_section (Version 1 0 0)), section_notes (sample_section (Version 1 0 0)) \<noteq> [])"
    by (rule extracted_notes [OF doc sample_sections(2) sample_released_versions [folded dir] _ sample_sections(1) plain])
      (simp_all add: unarchived_record_def sample_record_def)
  with doc show ?thesis unfolding sample_version_strings by blast
qed

section \<open>Prose that looks like a section\<close>

definition upgrading_prose :: string where
  "upgrading_prose = ''## Upgrading'' @ line_feed @ ''Read the guide first.''"

text \<open>
  C33. A release file whose description begins with a second-level heading is accepted, and the
  CHANGELOG.md generated with that description hides the section of its version: the version has
  notes, and the extraction answers that the document has no section for it.
\<close>

theorem prose_hides_section:
  "\<exists>r f. parse_release_file [] (Decoded r :: string doc_file) = Inr f \<and> rf_description f = upgrading_prose \<and>
     (let s = changelog_section ''1.0.0'' [sample_change] (empty_meta\<lparr>sm_description := trim_space (rf_description f)\<rparr>) 2 in
      section_notes s \<noteq> [] \<and> extract_section (document_head ''changelog/'' @ join line_feed [s]) ''1.0.0'' = ([], False))"
proof -
  let ?r = "sample_raw\<lparr>rr_description := upgrading_prose\<rparr>"
  have "(case parse_release_file [] (Decoded ?r :: string doc_file) of Inl _ \<Rightarrow> False | Inr f \<Rightarrow> rf_description f = upgrading_prose)"
    by code_simp
  then obtain f where f: "parse_release_file [] (Decoded ?r :: string doc_file) = Inr f" "rf_description f = upgrading_prose"
    by (auto split: sum.splits)
  let ?s = "changelog_section ''1.0.0'' [sample_change] (empty_meta\<lparr>sm_description := trim_space upgrading_prose\<rparr>) 2"
  have "section_notes ?s \<noteq> []" by code_simp
  moreover have "extract_section (document_head ''changelog/'' @ join line_feed [?s]) ''1.0.0'' = ([], False)" by code_simp
  ultimately show ?thesis using f by (intro exI [of _ ?r] exI [of _ f]) (simp add: Let_def)
qed

end
