(* ===== verification/Release_Notes.thy ===== *)
theory Release_Notes
  imports Changelog_Markdown Act_Rules
begin

text \<open>
  The body of a version's GitHub Release (internal/releasenotes/compose.go), the released-commit marker it
  ends with (internal/github/releases.go), and how the publish workflow's wait-for-ci job reads that
  marker back (internal/workflows/waitforci.go). What is proved is which commit a reader of the
  body finds.
\<close>

section \<open>The marker\<close>

definition marker_open :: string where "marker_open = ''<!-- rlsbl-ci-sha: ''"
definition marker_close :: string where "marker_close = '' -->''"

definition marker_text :: "string \<Rightarrow> string" where
  "marker_text sha = marker_open @ sha @ marker_close"

definition full_sha :: "string \<Rightarrow> bool" where
  "full_sha s \<longleftrightarrow> length s = 40 \<and> list_all hex_char s"

definition ci_sha_marker :: "string \<Rightarrow> string option" where
  "ci_sha_marker sha = (let s = trim_space sha in if full_sha s then Some (marker_text s) else None)"

text \<open>The commit of a marker a text begins with.\<close>

definition marker_sha :: "string \<Rightarrow> string option" where
  "marker_sha s =
     (let sha = take 40 (drop (length marker_open) s) in
      if has_prefix s marker_open \<and> full_sha sha \<and> has_prefix (drop (length marker_open + 40) s) marker_close
      then Some sha else None)"

definition marker_length :: nat where "marker_length = length marker_open + 40 + length marker_close"

text \<open>The first marker at the start of a line; the flag says that the text begins one.\<close>

fun first_marker :: "bool \<Rightarrow> string \<Rightarrow> string option" where
  "first_marker start [] = None"
| "first_marker start (c # cs) =
     (case (if start then marker_sha (c # cs) else None) of
        Some sha \<Rightarrow> Some sha
      | None \<Rightarrow> first_marker (c = CHR 0x0A) cs)"

definition ci_sha_from_body :: "string \<Rightarrow> string option" where
  "ci_sha_from_body = first_marker True"

text \<open>Every marker at the start of a line is removed, with the line end after it.\<close>

function strip_markers :: "bool \<Rightarrow> string \<Rightarrow> string" where
  "strip_markers start [] = []"
| "strip_markers start (c # cs) =
     (if start \<and> marker_sha (c # cs) \<noteq> None then
        (case drop (marker_length - 1) cs of
           [] \<Rightarrow> []
         | d # ds \<Rightarrow> if d = CHR 0x0A then strip_markers True ds else strip_markers False (d # ds))
      else c # strip_markers (c = CHR 0x0A) cs)"
  by pat_completeness auto
termination
proof (relation "measure (\<lambda>(_, s). length s)", goal_cases)
  case (2 start c cs d ds)
  then have "length (d # ds) \<le> length cs" by (metis length_drop diff_le_self)
  then show ?case by simp
next
  case (3 start c cs d ds)
  then have "length (d # ds) \<le> length cs" by (metis length_drop diff_le_self)
  then show ?case by simp
qed simp_all

definition strip_ci_sha_marker :: "string \<Rightarrow> string" where
  "strip_ci_sha_marker = strip_markers True"

text \<open>
  The job's reading: sed takes the last marker of a line, wherever it stands, and head the first line
  that has one.
\<close>

fun line_sha :: "string \<Rightarrow> string option" where
  "line_sha [] = None"
| "line_sha (c # cs) = (case line_sha cs of Some sha \<Rightarrow> Some sha | None \<Rightarrow> marker_sha (c # cs))"

fun first_line_sha :: "string list \<Rightarrow> string option" where
  "first_line_sha [] = None"
| "first_line_sha (l # ls) = (case line_sha l of Some sha \<Rightarrow> Some sha | None \<Rightarrow> first_line_sha ls)"

definition wait_job_sha :: "string \<Rightarrow> string option" where
  "wait_job_sha body = first_line_sha (split_on (CHR 0x0A) body)"

section \<open>Release documents\<close>

definition block_separator :: string where "block_separator = line_feed @ line_feed"

definition compose_body :: "string list \<Rightarrow> string \<Rightarrow> string" where
  "compose_body notices rest = join block_separator (notices @ (if rest \<noteq> [] then [rest] else []))"

record notes_document =
  nd_tag :: string
  nd_version :: version
  nd_notes :: string
  nd_notices :: "string list"
  nd_commit :: string

definition nd_title :: "notes_document \<Rightarrow> string" where "nd_title d = nd_tag d"
definition nd_prerelease :: "notes_document \<Rightarrow> bool" where "nd_prerelease d \<longleftrightarrow> nd_notices d \<noteq> []"

datatype marker_error = NoReleaseCommit string version | BadCommit string string

definition nd_marker :: "notes_document \<Rightarrow> (marker_error, string) result" where
  "nd_marker d =
     (if nd_commit d = [] then Inl (NoReleaseCommit (nd_tag d) (nd_version d))
      else (case ci_sha_marker (nd_commit d) of
          None \<Rightarrow> Inl (BadCommit (nd_tag d) (nd_commit d))
        | Some m \<Rightarrow> Inr m))"

definition body_notes :: "notes_document \<Rightarrow> string" where
  "body_notes d =
     (let notes = trim_right_char (CHR 0x0A) (nd_notes d) in
      if trim_space notes = [] then ''Release '' @ version_string (nd_version d) else notes)"

definition release_body :: "notes_document \<Rightarrow> (marker_error, string) result" where
  "release_body d =
     (if nd_commit d = [] then Inr (compose_body (nd_notices d) (body_notes d @ line_feed))
      else rbind (nd_marker d) (\<lambda>m.
        Inr (compose_body (nd_notices d) (body_notes d @ block_separator @ m @ line_feed))))"

definition keeping_marker_of :: "string \<Rightarrow> notes_document \<Rightarrow> notes_document" where
  "keeping_marker_of existing d =
     (if nd_commit d \<noteq> [] then d
      else (case ci_sha_from_body existing of Some sha \<Rightarrow> d\<lparr>nd_commit := sha\<rparr> | None \<Rightarrow> d))"

definition with_marker :: "string \<Rightarrow> string \<Rightarrow> string \<times> bool" where
  "with_marker existing m =
     (if str_contains existing m then (existing, False)
      else
        let stripped = trim_right_char (CHR 0x0A) (strip_ci_sha_marker existing) in
        if stripped = [] then (m @ line_feed, True)
        else (stripped @ block_separator @ m @ line_feed, True))"

datatype ('e, 'g) notes_error =
    NoNotesArchive version
  | NotesUnread "('e, 'g) markdown_error"
  | NotesFateUnstated version
  | NotesNeverReleased version

text \<open>The document of a version from its archive alone, and with the notes of its changelog section.\<close>

definition read_archived_document :: "('e, 'g) rec \<Rightarrow> version \<Rightarrow> (('e, 'g) notes_error, notes_document) result" where
  "read_archived_document R v =
     (if rec_docs R v = None then Inl (NoNotesArchive v)
      else rbind (with_error (NotesUnread \<circ> RecordFault) (read_archive R v)) (\<lambda>a.
        let d = \<lparr>nd_tag = (if a_shipped_as a \<noteq> [] then a_shipped_as a else render_tag (rec_scheme R) v), nd_version = v,
                 nd_notes = [], nd_notices = a_notices a, nd_commit = []\<rparr> in
        case a_fate a of
          FateUnstated \<Rightarrow> Inl (NotesFateUnstated v)
        | FateNeverReleased \<Rightarrow> Inl (NotesNeverReleased v)
        | FateRecorded \<Rightarrow> Inr (d\<lparr>nd_commit := rc_commit (a_release_commit a)\<rparr>)
        | _ \<Rightarrow> Inr d))"

definition read_document ::
  "json_reader \<Rightarrow> ('e, 'g) rec \<Rightarrow> version \<Rightarrow> 'e disk \<Rightarrow> (('e, 'g) notes_error, notes_document) result" where
  "read_document J R v dk =
     rbind (read_archived_document R v) (\<lambda>d.
     rbind (with_error NotesUnread (version_section J R v 2 dk)) (\<lambda>s.
       Inr (d\<lparr>nd_notes := section_notes s\<rparr>)))"

section \<open>What a marker is\<close>

lemma marker_sha_iff: "marker_sha s = Some sha \<longleftrightarrow> full_sha sha \<and> (\<exists>t. s = marker_text sha @ t)"
proof
  assume a: "marker_sha s = Some sha"
  let ?n = "length marker_open"
  from a have sha: "sha = take 40 (drop ?n s)" and full: "full_sha sha" and p: "has_prefix s marker_open"
    and q: "has_prefix (drop (?n + 40) s) marker_close" by (auto simp: marker_sha_def Let_def split: if_splits)
  from p obtain r where r: "s = marker_open @ r" by (auto simp: has_prefix_iff)
  from q obtain t where t: "drop (?n + 40) s = marker_close @ t" by (auto simp: has_prefix_iff)
  have "take 40 r @ drop 40 r = r" by (rule append_take_drop_id)
  moreover have "drop 40 r = marker_close @ t" using t by (simp add: r add.commute)
  ultimately have "s = marker_text sha @ t" using sha by (simp add: marker_text_def r)
  with full show "full_sha sha \<and> (\<exists>t. s = marker_text sha @ t)" by blast
next
  assume "full_sha sha \<and> (\<exists>t. s = marker_text sha @ t)"
  then obtain t where full: "full_sha sha" and s: "s = marker_text sha @ t" by blast
  have l: "length sha = 40" using full by (simp add: full_sha_def)
  have "take 40 (drop (length marker_open) s) = sha" using l by (simp add: s marker_text_def)
  moreover have "drop (length marker_open + 40) s = marker_close @ t" using l by (simp add: s marker_text_def)
  ultimately show "marker_sha s = Some sha" using full by (simp add: marker_sha_def Let_def) (simp add: s marker_text_def)
qed

lemma marker_text_line: "full_sha sha \<Longrightarrow> CHR 0x0A \<notin> set (marker_text sha)"
  by (auto simp: marker_text_def marker_open_def marker_close_def full_sha_def list_all_iff hex_char_def is_digit_def)

lemma marker_sha_line_end: "marker_sha (l @ CHR 0x0A # r) = marker_sha l"
proof -
  have "(\<exists>t. l @ CHR 0x0A # r = marker_text sha @ t) \<longleftrightarrow> (\<exists>t. l = marker_text sha @ t)" if full: "full_sha sha" for sha
  proof
    assume "\<exists>t. l @ CHR 0x0A # r = marker_text sha @ t"
    then obtain t where t: "l @ CHR 0x0A # r = marker_text sha @ t" by blast
    with marker_text_line [OF full] have "length (marker_text sha) \<le> length l"
      by (metis Cons_eq_appendI append_eq_append_conv_if in_set_conv_decomp nat_le_linear not_less_eq_eq nth_append nth_append_length nth_mem le_neq_implies_less)
    with t show "\<exists>t. l = marker_text sha @ t" by (metis append_eq_append_conv_if append_take_drop_id)
  qed auto
  then have "marker_sha (l @ CHR 0x0A # r) = Some sha \<longleftrightarrow> marker_sha l = Some sha" for sha
    by (auto simp: marker_sha_iff)
  then show ?thesis by (metis option.exhaust)
qed

lemma marker_sha_Nil [simp]: "marker_sha [] = None"
  by (simp add: marker_sha_def marker_open_def)

lemma line_sha_None: "line_sha l = None \<Longrightarrow> marker_sha l = None"
  by (cases l) (auto split: option.splits)

lemma first_marker_rest: "CHR 0x0A \<notin> set w \<Longrightarrow> first_marker False (w @ CHR 0x0A # r) = first_marker True r"
  by (induction w) auto

lemma first_marker_line:
  assumes "CHR 0x0A \<notin> set l" "marker_sha l = None"
  shows "first_marker True (l @ CHR 0x0A # r) = first_marker True r"
proof (cases l)
  case Nil
  then show ?thesis using marker_sha_line_end [of "[]" r] by simp
next
  case (Cons c cs)
  with assms marker_sha_line_end [of l r] show ?thesis by (auto simp: first_marker_rest)
qed

definition marker_free :: "string \<Rightarrow> bool" where
  "marker_free t \<longleftrightarrow> list_all (\<lambda>l. line_sha l = None) (split_on (CHR 0x0A) t)"

definition clean_lines :: "string list \<Rightarrow> bool" where
  "clean_lines ls \<longleftrightarrow> list_all (\<lambda>l. CHR 0x0A \<notin> set l \<and> line_sha l = None) ls"

lemma first_marker_lines: "clean_lines ls \<Longrightarrow> first_marker True (terminated ls @ r) = first_marker True r"
  by (induction ls) (simp_all add: clean_lines_def first_marker_line line_sha_None)

lemma marker_sha_text: "full_sha sha \<Longrightarrow> marker_sha (marker_text sha @ r) = Some sha"
  using marker_sha_iff by blast

lemma marker_text_Cons: "\<exists>cs. marker_text sha = CHR ''<'' # cs"
  by (simp add: marker_text_def marker_open_def)

lemma first_marker_found: "full_sha sha \<Longrightarrow> first_marker True (marker_text sha @ r) = Some sha"
  using marker_sha_text [of sha r] marker_text_Cons [of sha] by auto

lemma line_sha_after: "CHR ''<'' \<notin> set w \<Longrightarrow> line_sha w = None"
proof (induction w)
  case (Cons c w)
  have "marker_sha (c # w) = None"
  proof (rule ccontr)
    assume "marker_sha (c # w) \<noteq> None"
    then obtain sha t where "c # w = marker_text sha @ t" using marker_sha_iff by fastforce
    with Cons.prems show False using marker_text_Cons [of sha] by auto
  qed
  with Cons show ?case by simp
qed simp

lemma line_sha_marker: "full_sha sha \<Longrightarrow> line_sha (marker_text sha) = Some sha"
proof -
  assume full: "full_sha sha"
  obtain cs where cs: "marker_text sha = CHR ''<'' # cs" using marker_text_Cons by blast
  have "CHR ''<'' \<notin> set sha" using full by (auto simp: full_sha_def list_all_iff hex_char_def is_digit_def)
  moreover have "cs = tl marker_open @ sha @ marker_close" using cs by (auto simp: marker_text_def marker_open_def)
  ultimately have "CHR ''<'' \<notin> set cs" by (auto simp: marker_open_def marker_close_def)
  with marker_sha_text [OF full, of "[]"] cs show ?thesis by (simp add: line_sha_after)
qed

lemma clean_split: "marker_free t \<longleftrightarrow> clean_lines (split_on (CHR 0x0A) t)"
  by (auto simp: marker_free_def clean_lines_def list_all_iff split_on_pieces)

lemma first_line_sha_clean: "clean_lines ls \<Longrightarrow> first_line_sha (ls @ ks) = first_line_sha ks"
  by (induction ls) (simp_all add: clean_lines_def)

text \<open>A text that is clean lines and then a marker line: both readers find the marker.\<close>

lemma body_read:
  assumes "clean_lines ls" "full_sha sha"
  shows "ci_sha_from_body (terminated ls @ marker_text sha @ line_feed) = Some sha"
    and "wait_job_sha (terminated ls @ marker_text sha @ line_feed) = Some sha"
proof -
  show "ci_sha_from_body (terminated ls @ marker_text sha @ line_feed) = Some sha"
    unfolding ci_sha_from_body_def first_marker_lines [OF assms(1)] by (rule first_marker_found [OF assms(2)])
  have "split_on (CHR 0x0A) (terminated ls @ marker_text sha @ line_feed) = ls @ [marker_text sha, []]"
    using assms marker_text_line [OF assms(2)]
    by (subst terminated_split) (auto simp: clean_lines_def list_all_iff line_feed_def split_on_append_sep)
  then show "wait_job_sha (terminated ls @ marker_text sha @ line_feed) = Some sha"
    by (simp add: wait_job_sha_def first_line_sha_clean [OF assms(1)] line_sha_marker [OF assms(2)])
qed

section \<open>Which commit a body names\<close>

lemma split_on_around: "split_on c (a @ c # b) = split_on c a @ split_on c b"
proof (induction a)
  case (Cons x a)
  then show ?case by (cases "split_on c a") auto
qed simp

lemma marker_free_append: "marker_free (a @ CHR 0x0A # b) \<longleftrightarrow> marker_free a \<and> marker_free b"
  by (auto simp: marker_free_def split_on_around)

lemma trimmed_end: "\<exists>k. s = trim_right_char (CHR 0x0A) s @ replicate k (CHR 0x0A)"
proof -
  let ?P = "\<lambda>x. x = CHR 0x0A"
  have "rev s = takeWhile ?P (rev s) @ dropWhile ?P (rev s)" by simp
  then have "s = rev (dropWhile ?P (rev s)) @ rev (takeWhile ?P (rev s))" by (metis rev_append rev_rev_ident)
  moreover have "rev (takeWhile ?P (rev s)) = replicate (length (takeWhile ?P (rev s))) (CHR 0x0A)"
    by (intro replicate_eqI) (auto dest: set_takeWhileD)
  ultimately show ?thesis unfolding trim_right_char_def by metis
qed

lemma marker_free_trimmed: "marker_free s \<Longrightarrow> marker_free (trim_right_char (CHR 0x0A) s)"
proof -
  assume free: "marker_free s"
  obtain k where k: "s = trim_right_char (CHR 0x0A) s @ replicate k (CHR 0x0A)" using trimmed_end by blast
  show ?thesis
  proof (cases k)
    case 0
    with k free show ?thesis by simp
  next
    case (Suc n)
    with k have "s = trim_right_char (CHR 0x0A) s @ CHR 0x0A # replicate n (CHR 0x0A)" by simp
    with free marker_free_append show ?thesis by metis
  qed
qed

lemma marker_free_default: "marker_free (''Release '' @ version_string v)"
proof -
  have no: "CHR ''<'' \<notin> set (''Release '' @ version_string v)" "CHR 0x0A \<notin> set (''Release '' @ version_string v)"
    using version_chars [of "CHR ''<''" v] version_chars [of "CHR 0x0A" v] by (auto simp: is_digit_def)
  show ?thesis unfolding marker_free_def split_on_no_sep [OF no(2)] using line_sha_after [OF no(1)] by (simp only: list.pred_inject)
qed

lemma marker_free_notes: "marker_free (nd_notes d) \<Longrightarrow> marker_free (body_notes d)"
  by (cases "trim_space (trim_right_char (CHR 0x0A) (nd_notes d)) = []")
    (simp_all only: body_notes_def Let_def if_True if_False simp_thms marker_free_trimmed marker_free_default)

lemma chunk_lines: "c @ line_feed @ line_feed = terminated (split_on (CHR 0x0A) c @ [[]])"
  using join_terminated [of c "[]"] by (simp add: line_feed_def)

lemma blocks_lines: "concat (map (\<lambda>c. c @ line_feed @ line_feed) cs) = terminated (concat (map (\<lambda>c. split_on (CHR 0x0A) c @ [[]]) cs))"
  by (induction cs) (simp_all add: chunk_lines del: append_assoc)

lemma blocks_clean: "list_all marker_free cs \<Longrightarrow> clean_lines (concat (map (\<lambda>c. split_on (CHR 0x0A) c @ [[]]) cs))"
  by (induction cs) (auto simp: clean_split clean_lines_def)

text \<open>
  C34. The Release body of a version whose notices and notes carry no marker text names the release
  commit to both of its readers: the first marker at the start of a line, which rlsbl reads back, and the
  one the publish workflow's sed takes; and putting the marker on it changes nothing.
\<close>

theorem body_names_commit:
  assumes body: "release_body d = Inr b" and commit: "nd_commit d \<noteq> []"
    and notices: "list_all marker_free (nd_notices d)" and clean_notes: "marker_free (nd_notes d)"
  shows "ci_sha_from_body b = Some (trim_space (nd_commit d)) \<and> wait_job_sha b = Some (trim_space (nd_commit d)) \<and>
    (\<forall>m. nd_marker d = Inr m \<longrightarrow> with_marker b m = (b, False))"
proof -
  let ?sha = "trim_space (nd_commit d)" and ?chunks = "nd_notices d @ [body_notes d]"
  let ?ls = "concat (map (\<lambda>c. split_on (CHR 0x0A) c @ [[]]) ?chunks)"
  from body commit obtain m where m: "nd_marker d = Inr m"
    and b: "b = compose_body (nd_notices d) (body_notes d @ block_separator @ m @ line_feed)"
    by (auto simp: release_body_def result_simps)
  from m commit have full: "full_sha ?sha" and m': "m = marker_text ?sha"
    by (auto simp: nd_marker_def ci_sha_marker_def Let_def split: option.splits if_splits)
  have "b = concat (map (\<lambda>c. c @ block_separator) (nd_notices d)) @ body_notes d @ block_separator @ m @ line_feed"
    unfolding b compose_body_def using join_around [of block_separator "nd_notices d" _ "[]"] by (simp add: block_separator_def line_feed_def)
  also have "\<dots> = concat (map (\<lambda>c. c @ line_feed @ line_feed) ?chunks) @ m @ line_feed" by (simp add: block_separator_def)
  also have "\<dots> = terminated ?ls @ m @ line_feed" unfolding blocks_lines ..
  finally have b': "b = terminated ?ls @ marker_text ?sha @ line_feed" unfolding m' .
  have clean: "clean_lines ?ls"
    using notices marker_free_notes [OF clean_notes] by (intro blocks_clean) simp
  have "str_contains b m" unfolding b' m' str_contains_def using str_index_NoneD by blast
  with body_read [OF clean full] m show ?thesis unfolding b' by (simp add: with_marker_def)
qed

definition sample_sha :: string where "sample_sha = replicate 40 (CHR ''a'')"
definition other_sha :: string where "other_sha = replicate 40 (CHR ''b'')"

definition sample_document :: notes_document where
  "sample_document = \<lparr>nd_tag = ''v1.0.0'', nd_version = Version 1 0 0, nd_notes = ''- Adds it'',
     nd_notices = [''Deprecated.''], nd_commit = sample_sha\<rparr>"

theorem body_names_commit_witness:
  "\<exists>b. release_body sample_document = Inr b \<and> ci_sha_from_body b = Some sample_sha \<and> wait_job_sha b = Some sample_sha"
proof -
  let ?m = "marker_text sample_sha"
  have trim: "trim_space sample_sha = sample_sha" by code_simp
  have full: "full_sha sample_sha" by code_simp
  have m: "nd_marker sample_document = Inr ?m"
    using full by (simp add: nd_marker_def sample_document_def ci_sha_marker_def trim) (simp add: sample_sha_def)
  then have "\<exists>b. release_body sample_document = Inr b" by (simp add: release_body_def)
  then obtain b where b: "release_body sample_document = Inr b" ..
  have "marker_free ''Deprecated.''" "marker_free ''- Adds it''" by code_simp+
  then have "list_all marker_free (nd_notices sample_document)" "marker_free (nd_notes sample_document)"
    by (simp_all add: sample_document_def)
  moreover have "nd_commit sample_document \<noteq> []" by (simp add: sample_document_def sample_sha_def)
  ultimately have "ci_sha_from_body b = Some (trim_space (nd_commit sample_document)) \<and>
      wait_job_sha b = Some (trim_space (nd_commit sample_document)) \<and>
      (\<forall>m. nd_marker sample_document = Inr m \<longrightarrow> with_marker b m = (b, False))"
    using body_names_commit [OF b] by blast
  with b show ?thesis by (simp add: sample_document_def trim)
qed

text \<open>
  C35. A marker in the notes wins over the one of the release commit: the body of a release whose
  changelog entry holds a marker line names the entry's commit to both readers, and the repair
  that puts the marker on the Release finds nothing to change.
\<close>

theorem prose_marker_wins:
  "\<exists>d b m. nd_commit d = sample_sha \<and> release_body d = Inr b \<and> nd_marker d = Inr m \<and>
     ci_sha_from_body b = Some other_sha \<and> wait_job_sha b = Some other_sha \<and> other_sha \<noteq> sample_sha \<and>
     with_marker b m = (b, False)"
proof -
  let ?d = "sample_document\<lparr>nd_notes := marker_text other_sha, nd_notices := []\<rparr>" and ?m = "marker_text sample_sha"
  let ?b = "marker_text other_sha @ CHR 0x0A # CHR 0x0A # ?m @ line_feed"
  have full: "full_sha sample_sha" "full_sha other_sha" by code_simp+
  have m: "nd_marker ?d = Inr ?m" by code_simp
  have kept: "body_notes ?d = marker_text other_sha"
  proof -
    have "trim_right_char (CHR 0x0A) (marker_text other_sha) = marker_text other_sha" by code_simp
    moreover have "trim_space (marker_text other_sha) = marker_text other_sha" by code_simp
    moreover have "marker_text other_sha \<noteq> []" by (simp add: marker_text_def marker_open_def)
    ultimately show ?thesis by (simp add: body_notes_def)
  qed
  have b: "release_body ?d = Inr ?b"
    unfolding release_body_def m kept
    by (simp add: compose_body_def block_separator_def line_feed_def) (simp add: sample_document_def sample_sha_def)
  have "ci_sha_from_body ?b = Some other_sha" unfolding ci_sha_from_body_def by (rule first_marker_found [OF full(2)])
  moreover have "wait_job_sha ?b = Some other_sha"
    using line_sha_marker [OF full(2)] marker_text_line [OF full(2)] by (simp add: wait_job_sha_def split_on_append_sep)
  moreover have "with_marker ?b ?m = (?b, False)"
  proof -
    have "?b = (marker_text other_sha @ [CHR 0x0A, CHR 0x0A]) @ ?m @ line_feed" by simp
    then have "str_contains ?b ?m" unfolding str_contains_def using str_index_NoneD by metis
    then show ?thesis by (simp add: with_marker_def)
  qed
  moreover have "other_sha \<noteq> sample_sha" by code_simp
  moreover have "nd_commit ?d = sample_sha" by (simp add: sample_document_def)
  ultimately show ?thesis using b m by blast
qed

section \<open>Putting a marker on a body\<close>

lemma strip_rest: "CHR 0x0A \<notin> set w \<Longrightarrow> strip_markers False (w @ CHR 0x0A # r) = w @ CHR 0x0A # strip_markers True r"
  by (induction w) auto

lemma strip_rest_end: "CHR 0x0A \<notin> set w \<Longrightarrow> strip_markers False w = w"
  by (induction w) auto

lemma strip_clean_line:
  assumes "CHR 0x0A \<notin> set l" "marker_sha l = None"
  shows "strip_markers True (l @ CHR 0x0A # r) = l @ CHR 0x0A # strip_markers True r" "strip_markers True l = l"
proof -
  show "strip_markers True (l @ CHR 0x0A # r) = l @ CHR 0x0A # strip_markers True r"
  proof (cases l)
    case Nil
    then show ?thesis using marker_sha_line_end [of "[]" r] by simp
  next
    case (Cons c cs)
    with assms marker_sha_line_end [of l r] show ?thesis by (auto simp: strip_rest)
  qed
  show "strip_markers True l = l" using assms by (cases l) (auto simp: strip_rest_end)
qed

lemma marker_text_length: "full_sha sha \<Longrightarrow> length (marker_text sha) = marker_length"
  by (simp add: marker_text_def marker_length_def full_sha_def)

lemma strip_marker_line:
  assumes "full_sha sha"
  shows "strip_markers True (marker_text sha @ CHR 0x0A # r) = strip_markers True r" "strip_markers True (marker_text sha) = []"
proof -
  obtain cs where cs: "marker_text sha = CHR ''<'' # cs" using marker_text_Cons by blast
  have l: "length cs = marker_length - 1" using marker_text_length [OF assms] cs by simp
  show "strip_markers True (marker_text sha @ CHR 0x0A # r) = strip_markers True r"
    using marker_sha_text [OF assms, of "CHR 0x0A # r"] l by (simp add: cs)
  show "strip_markers True (marker_text sha) = []"
    using marker_sha_text [OF assms, of "[]"] l by (simp add: cs)
qed

text \<open>A body whose markers stand on lines of their own.\<close>

definition own_line :: "string \<Rightarrow> bool" where
  "own_line l \<longleftrightarrow> line_sha l = None \<or> (\<exists>sha. full_sha sha \<and> l = marker_text sha)"

lemma stripped_clean:
  "list_all (\<lambda>l. CHR 0x0A \<notin> set l \<and> own_line l) ls \<Longrightarrow> marker_free (strip_markers True (join [CHR 0x0A] ls))"
proof (induction "[CHR 0x0A]" ls rule: join.induct)
  case 1
  then show ?case by (simp add: marker_free_def)
next
  case (2 w)
  then consider "line_sha w = None" | sha where "full_sha sha" "w = marker_text sha" by (auto simp: own_line_def)
  then show ?case
  proof cases
    case 1
    with 2 show ?thesis by (simp add: strip_clean_line line_sha_None marker_free_def split_on_no_sep)
  next
    case 2
    then show ?thesis by (simp add: strip_marker_line marker_free_def)
  qed
next
  case (3 w v ws)
  then have IH: "marker_free (strip_markers True (join [CHR 0x0A] (v # ws)))" by simp
  from 3 consider "line_sha w = None" | sha where "full_sha sha" "w = marker_text sha" by (auto simp: own_line_def)
  then show ?case
  proof cases
    case 1
    with 3 have "marker_free w" by (simp add: marker_free_def split_on_no_sep)
    with 1 3 IH show ?thesis by (simp add: strip_clean_line line_sha_None marker_free_append)
  next
    case 2
    with IH show ?thesis by (simp add: strip_marker_line)
  qed
qed

text \<open>
  A repair that writes a marker onto a body whose markers stand on lines of their own replaces
  them: both readers of the body it writes find the commit it names, and the repair asked again
  finds nothing to change.
\<close>

theorem marker_replaced:
  assumes own: "list_all own_line (split_on (CHR 0x0A) existing)" and m: "ci_sha_marker sha = Some m"
    and w: "with_marker existing m = (b, True)"
  shows "ci_sha_from_body b = Some (trim_space sha) \<and> wait_job_sha b = Some (trim_space sha) \<and> with_marker b m = (b, False)"
proof -
  let ?stripped = "trim_right_char (CHR 0x0A) (strip_ci_sha_marker existing)"
  from m have full: "full_sha (trim_space sha)" and m': "m = marker_text (trim_space sha)"
    by (auto simp: ci_sha_marker_def Let_def split: if_splits)
  have "list_all (\<lambda>l. CHR 0x0A \<notin> set l \<and> own_line l) (split_on (CHR 0x0A) existing)"
    using own split_on_pieces by (auto simp: list_all_iff)
  from stripped_clean [OF this] have "marker_free (strip_ci_sha_marker existing)"
    by (simp add: strip_ci_sha_marker_def join_split_on)
  then have free: "marker_free ?stripped" by (rule marker_free_trimmed)
  obtain ls where ls: "clean_lines ls" and b: "b = terminated ls @ m @ line_feed"
  proof (cases "?stripped = []")
    case True
    with w have "b = m @ line_feed" by (auto simp: with_marker_def split: if_splits)
    then show ?thesis using that [of "[]"] by (simp add: clean_lines_def)
  next
    case False
    with w have "b = (?stripped @ line_feed @ line_feed) @ m @ line_feed"
      by (auto simp: with_marker_def Let_def block_separator_def split: if_splits)
    then show ?thesis using that [of "split_on (CHR 0x0A) ?stripped @ [[]]"] free unfolding chunk_lines
      by (auto simp: clean_split clean_lines_def)
  qed
  have "str_contains b m" unfolding b str_contains_def using str_index_NoneD by blast
  with body_read [OF ls full] show ?thesis unfolding b m' by (simp add: with_marker_def)
qed

theorem marker_replaced_witness:
  "\<exists>b. with_marker (''Notes.'' @ line_feed @ marker_text other_sha @ line_feed) (marker_text sample_sha) = (b, True) \<and>
     ci_sha_from_body b = Some sample_sha \<and> wait_job_sha b = Some sample_sha"
proof -
  let ?e = "''Notes.'' @ line_feed @ marker_text other_sha @ line_feed"
  have full: "full_sha other_sha" "full_sha sample_sha" by code_simp+
  have "split_on (CHR 0x0A) ?e = [''Notes.'', marker_text other_sha, []]"
    using marker_text_line [OF full(1)] by (simp add: line_feed_def split_on_append_sep)
  moreover have "line_sha ''Notes.'' = None" by code_simp
  ultimately have own: "list_all own_line (split_on (CHR 0x0A) ?e)" using full(1) by (auto simp: own_line_def)
  have m: "ci_sha_marker sample_sha = Some (marker_text sample_sha)" by code_simp
  have "snd (with_marker ?e (marker_text sample_sha))" by code_simp
  then obtain b where w: "with_marker ?e (marker_text sample_sha) = (b, True)" by (metis prod.collapse)
  have "trim_space sample_sha = sample_sha" by code_simp
  with marker_replaced [OF own m w] w show ?thesis by auto
qed

section \<open>Writing a Release\<close>

record new_release =
  nr_tag :: string
  nr_title :: string
  nr_notes :: string
  nr_prerelease :: bool
  nr_latest :: bool

record release_edit =
  re_notes :: string
  re_title :: string
  re_prerelease :: bool

text \<open>The GitHub client and the confidential-term scan a writer is given, on the host's state.\<close>

record ('s, 'e) release_host =
  rh_exists :: "string \<Rightarrow> ('s, 'e, bool) act"
  rh_body :: "string \<Rightarrow> ('s, 'e, string) act"
  rh_create :: "new_release \<Rightarrow> ('s, 'e, unit) act"
  rh_edit_notes :: "string \<Rightarrow> string \<Rightarrow> ('s, 'e, unit) act"
  rh_rewrite :: "string \<Rightarrow> release_edit \<Rightarrow> ('s, 'e, unit) act"
  rh_latest :: "('s, 'e, string option) act"
  rh_scan :: "(string \<Rightarrow> string \<Rightarrow> ('s, 'e, unit) act) option"

datatype 'e publish_error =
    BodyRefused marker_error
  | NoScanner string
  | HostFailed 'e

definition body_of :: "notes_document \<Rightarrow> ('s, 'e publish_error, string) act" where
  "body_of d = aread (\<lambda>_. with_error BodyRefused (release_body d))"

definition check_body :: "('s, 'e) release_host \<Rightarrow> string \<Rightarrow> string \<Rightarrow> ('s, 'e publish_error, unit) act" where
  "check_body H tag body = (case rh_scan H of None \<Rightarrow> afail (NoScanner tag) | Some scan \<Rightarrow> awrap HostFailed (scan tag body))"

definition check_document :: "('s, 'e) release_host \<Rightarrow> notes_document \<Rightarrow> ('s, 'e publish_error, unit) act" where
  "check_document H d = abind (body_of d) (check_body H (nd_tag d))"

definition create_document :: "('s, 'e) release_host \<Rightarrow> bool \<Rightarrow> notes_document \<Rightarrow> ('s, 'e publish_error, unit) act" where
  "create_document H moves_latest d =
     abind (body_of d) (\<lambda>body.
     abind (check_body H (nd_tag d) body) (\<lambda>_.
     awrap HostFailed (rh_create H \<lparr>nr_tag = nd_tag d, nr_title = nd_title d, nr_notes = body,
       nr_prerelease = nd_prerelease d, nr_latest = moves_latest\<rparr>)))"

definition rewrite_document :: "('s, 'e) release_host \<Rightarrow> notes_document \<Rightarrow> ('s, 'e publish_error, unit) act" where
  "rewrite_document H d =
     abind (if nd_commit d = [] then abind (awrap HostFailed (rh_body H (nd_tag d))) (\<lambda>existing. aret (keeping_marker_of existing d))
            else aret d) (\<lambda>d.
     abind (body_of d) (\<lambda>body.
     abind (check_body H (nd_tag d) body) (\<lambda>_.
     awrap HostFailed (rh_rewrite H (nd_tag d) \<lparr>re_notes = body, re_title = nd_title d, re_prerelease = nd_prerelease d\<rparr>))))"

definition ensure_marker :: "('s, 'e) release_host \<Rightarrow> notes_document \<Rightarrow> ('s, 'e publish_error, bool) act" where
  "ensure_marker H d =
     abind (aread (\<lambda>_. with_error BodyRefused (nd_marker d))) (\<lambda>m.
     abind (awrap HostFailed (rh_body H (nd_tag d))) (\<lambda>existing.
     let wanted = with_marker existing m in
     if \<not> snd wanted then aret False
     else
       abind (check_body H (nd_tag d) (fst wanted)) (\<lambda>_.
       abind (awrap HostFailed (rh_edit_notes H (nd_tag d) (fst wanted))) (\<lambda>_. aret True))))"

definition publish_document :: "('s, 'e) release_host \<Rightarrow> bool \<Rightarrow> notes_document \<Rightarrow> ('s, 'e publish_error, bool) act" where
  "publish_document H moves_latest d =
     abind (awrap HostFailed (rh_exists H (nd_tag d))) (\<lambda>exists.
     if exists then abind (rewrite_document H d) (\<lambda>_. aret False)
     else abind (create_document H moves_latest d) (\<lambda>_. aret True))"

definition repair_takes_latest ::
  "('s, 'e) release_host \<Rightarrow> (string \<Rightarrow> ('s, 'e, bool) act) \<Rightarrow> notes_document \<Rightarrow> ('s, 'e publish_error, bool) act" where
  "repair_takes_latest H newer d =
     (if nd_prerelease d then aret False
      else
        abind (awrap HostFailed (rh_latest H)) (\<lambda>latest.
        case latest of None \<Rightarrow> aret True | Some tag \<Rightarrow> awrap HostFailed (newer tag)))"

text \<open>
  An invariant of the host that writing a text may break only when the text is bad, and that every other
  operation keeps; the scan accepts no bad text.
\<close>

definition scans_bad :: "('s, 'e) release_host \<Rightarrow> (string \<Rightarrow> bool) \<Rightarrow> ('s \<Rightarrow> bool) \<Rightarrow> bool" where
  "scans_bad H bad I \<longleftrightarrow>
     (\<forall>tag. keeps I (rh_exists H tag) \<and> keeps I (rh_body H tag)) \<and>
     (\<forall>r. \<not> bad (nr_notes r) \<longrightarrow> keeps I (rh_create H r)) \<and>
     (\<forall>tag b. \<not> bad b \<longrightarrow> keeps I (rh_edit_notes H tag b)) \<and>
     (\<forall>tag r. \<not> bad (re_notes r) \<longrightarrow> keeps I (rh_rewrite H tag r)) \<and>
     (\<forall>scan. rh_scan H = Some scan \<longrightarrow> (\<forall>tag b. keeps I (scan tag b) \<and> (\<forall>s t. scan tag b s = (Inr (), t) \<longrightarrow> \<not> bad b)))"

lemma keeps_checked:
  assumes H: "scans_bad H bad I" and m: "\<not> bad body \<Longrightarrow> keeps I m"
  shows "keeps I (abind (check_body H tag body) (\<lambda>_. m))"
proof (cases "rh_scan H")
  case None
  have "abind (check_body H tag body) (\<lambda>_. m) = afail (NoScanner tag)"
    by (rule ext) (simp add: check_body_def None abind_def afail_def)
  then show ?thesis by (simp add: keeps_afail)
next
  case (Some scan)
  with H have scan: "keeps I (scan tag body)" "\<And>s t. scan tag body s = (Inr (), t) \<Longrightarrow> \<not> bad body"
    unfolding scans_bad_def by blast+
  have c: "keeps I (check_body H tag body)" by (simp add: check_body_def Some keeps_awrap scan(1))
  show ?thesis
  proof (cases "bad body")
    case False
    with c m show ?thesis by (intro keeps_abind) simp_all
  next
    case True
    with scan(2) have "check_body H tag body s \<noteq> (Inr x, t)" for s x t
      by (auto simp: check_body_def Some awrap_def split: prod.splits sum.splits)
    then have "abind (check_body H tag body) (\<lambda>_. m) s = (r, t) \<Longrightarrow> \<exists>e. check_body H tag body s = (Inl e, t)" for s r t
      by (auto simp: abind_def split: prod.splits sum.splits)
    with c show ?thesis by (intro keepsI) (metis keeps_run)
  qed
qed

lemma keeps_body_of: "keeps I (body_of d)"
  unfolding body_of_def by (rule keeps_aread)

lemma writers_keep:
  assumes H: "scans_bad H bad I"
  shows "keeps I (create_document H ml d)" "keeps I (rewrite_document H d)" "keeps I (ensure_marker H d)"
    "keeps I (publish_document H ml d)"
proof -
  note ops = H [unfolded scans_bad_def]
  show c: "keeps I (create_document H ml d)" for ml d
    unfolding create_document_def
    by (intro keeps_abind keeps_body_of keeps_checked [OF H] keeps_awrap) (use ops in simp)
  show r: "keeps I (rewrite_document H d)" for d
    unfolding rewrite_document_def
    by (intro keeps_abind keeps_if keeps_aret keeps_body_of keeps_checked [OF H] keeps_awrap) (use ops in simp_all)
  show "keeps I (ensure_marker H d)"
    unfolding ensure_marker_def Let_def
    by (intro keeps_abind keeps_aread keeps_if keeps_aret keeps_checked [OF H] keeps_awrap) (use ops in simp_all)
  show "keeps I (publish_document H ml d)"
    unfolding publish_document_def by (intro keeps_abind keeps_if keeps_aret keeps_awrap c r) (use ops in simp)
qed

text \<open>
  C36. No writer of a Release body lets a text through that the confidential-term scan refuses:
  publishing a document, creating or rewriting its Release and putting its marker on the Release leave
  every published body free of such texts, whatever fails on the way.
\<close>

theorem published_bodies_scanned:
  assumes "scans_bad H bad I" and "I s"
    and "publish_document H moves_latest d s = (r, t) \<or> rewrite_document H d s = (q, t) \<or> ensure_marker H d s = (r, t)"
  shows "I t"
  using assms(2,3) writers_keep [OF assms(1)] keeps_run by metis

definition list_host :: "(string list, string) release_host" where
  "list_host = \<lparr>rh_exists = (\<lambda>_ s. (Inr (s \<noteq> []), s)), rh_body = (\<lambda>_ s. (case s of [] \<Rightarrow> Inl ''no Release'' | b # _ \<Rightarrow> Inr b, s)),
     rh_create = (\<lambda>r s. (Inr (), nr_notes r # s)), rh_edit_notes = (\<lambda>_ b s. (Inr (), b # s)),
     rh_rewrite = (\<lambda>_ r s. (Inr (), re_notes r # s)), rh_latest = aret None,
     rh_scan = Some (\<lambda>_ b s. (if str_contains b ''secret'' then Inl ''hit'' else Inr (), s))\<rparr>"

theorem published_bodies_scanned_witness:
  "\<exists>b. snd (publish_document list_host True sample_document []) = [b] \<and> \<not> str_contains b ''secret''"
proof -
  let ?I = "list_all (\<lambda>b. \<not> str_contains b ''secret'')"
  have H: "scans_bad list_host (\<lambda>b. str_contains b ''secret'') ?I"
    by (auto simp: scans_bad_def list_host_def intro!: keepsI split: if_splits)
  obtain r t where p: "publish_document list_host True sample_document [] = (r, t)" by fastforce
  from published_bodies_scanned [OF H _ disjI1 [OF p]] have "?I t" by simp
  moreover have "length (snd (publish_document list_host True sample_document [])) = 1" by code_simp
  ultimately show ?thesis using p by (auto simp: length_Suc_conv)
qed

end
