(* ===== verification/Spec2Isabelle.thy ===== *)
theory Spec2Isabelle
  imports Rules Tags Ownership Archive Release_Record Member_Graph Disk Changelog_Coverage Release_Lock Release_Stops CI_Publish Batch_States Release_Notes
begin

text \<open>
  The verification development of rlsbl.
\<close>

end
